(* ===== verification/Prelude.thy ===== *)
theory Prelude
  imports Main "HOL-Library.Word" "HOL-Library.Product_Lexorder" "HOL-Library.List_Lexorder"
begin

text \<open>
  What every component shares: the result type of Go functions that return an error or
  panic, Go's integers, times and durations, the ordered key-value store that stands for
  the persisted state of a module, and the automation (simp rules, a total-correctness
  predicate with its rules) that carries the component proofs.
\<close>

section \<open>Errors, panics and results\<close>

text \<open>
  The sentinel errors of the modules (\<open>types/errors.go\<close> of each), and those of the
  Cosmos SDK that the handlers return. \<open>ErrText\<close> is an error made on the spot by
  \<open>fmt.Errorf\<close>, \<open>ErrExternal\<close> one that came out of code that is not under \<open>src\<close>.
  Wrapping an error (\<open>errorsmod.Wrapf\<close>) keeps its identity, so it keeps the constructor.
\<close>

datatype err =
    ErrText string
  | ErrExternal nat
  | ErrTxDecode | ErrInvalidGasLimit | ErrInsufficientFee | ErrInsufficientFunds
  | ErrInvalidRequest | ErrLogic | ErrUnknownAddress | ErrInvalidCoins | ErrInvalidAddress | ErrInvalidType
  | Dynamicfee_ErrNoFeeCoins | Dynamicfee_ErrTooManyFeeCoins
  | Dynamicfee_ErrResolverNotSet | Dynamicfee_ErrMaxGasExceeded
  | Photon_ErrMintDisabled | Photon_ErrBurnInvalidDenom | Photon_ErrZeroMintPhotons
  | Photon_ErrTooManyFeeCoins | Photon_ErrInvalidFeeToken
  | Coredaos_ErrInvalidSigner | Coredaos_ErrAnnotationAlreadyPresent
  | Coredaos_ErrProposalAlreadyEndorsed | Coredaos_ErrFunctionDisabled | Coredaos_ErrCannotStake
  | Gov_ErrInactiveProposal | Gov_ErrAlreadyActiveProposal | Gov_ErrInvalidProposalContent
  | Gov_ErrInvalidProposalType | Gov_ErrInvalidVote | Gov_ErrInvalidGenesis
  | Gov_ErrNoProposalHandlerExists | Gov_ErrUnroutableProposalMsg | Gov_ErrNoProposalMsgs
  | Gov_ErrInvalidProposalMsg | Gov_ErrInvalidSigner | Gov_ErrInvalidSignalMsg
  | Gov_ErrMetadataTooLong | Gov_ErrMinDepositTooSmall | Gov_ErrInvalidConstitutionAmendment
  | Gov_ErrUnknownProposal
  | App_ErrUnauthorized | App_ErrInsufficientStake | App_ErrNotFound | App_ErrLogic

text \<open>
  A Go call ends in one of three ways: a value, an error value, or a panic. A panic is not
  an error: it passes through every caller up to a \<open>recover\<close> or the node itself.
\<close>

datatype 'a res = Ok 'a | Err err | Panic

fun bindR :: "'a res \<Rightarrow> ('a \<Rightarrow> 'b res) \<Rightarrow> 'b res" where
  "bindR (Ok x) f = f x"
| "bindR (Err e) f = Err e"
| "bindR Panic f = Panic"

text \<open>A library call whose \<open>None\<close> is a panic, and one whose \<open>None\<close> is an error.\<close>

definition must :: "'a option \<Rightarrow> 'a res" where
  "must m = (case m of None \<Rightarrow> Panic | Some x \<Rightarrow> Ok x)"

definition orErr :: "err \<Rightarrow> 'a option \<Rightarrow> 'a res" where
  "orErr e m = (case m of None \<Rightarrow> Err e | Some x \<Rightarrow> Ok x)"

text \<open>Indexing a slice at zero.\<close>

definition hdR :: "'a list \<Rightarrow> 'a res" where
  "hdR xs = (case xs of [] \<Rightarrow> Panic | x # _ \<Rightarrow> Ok x)"

text \<open>A guard with an early return of an error.\<close>

definition failIf :: "bool \<Rightarrow> err \<Rightarrow> unit res" where
  "failIf b e = (if b then Err e else Ok ())"

text \<open>A caller that panics on the error of its callee (\<open>if err != nil { panic(err) }\<close>).\<close>

fun panicOnErr :: "'a res \<Rightarrow> 'a res" where
  "panicOnErr (Ok x) = Ok x"
| "panicOnErr (Err e) = Panic"
| "panicOnErr Panic = Panic"

text \<open>A \<open>for\<close> loop over a list that threads a state and stops at the first error or panic.\<close>

fun foldR :: "('a \<Rightarrow> 's \<Rightarrow> 's res) \<Rightarrow> 'a list \<Rightarrow> 's \<Rightarrow> 's res" where
  "foldR f [] s = Ok s"
| "foldR f (x # xs) s = bindR (f x s) (foldR f xs)"

text \<open>
  \<open>succeeds m P\<close>: the call returns normally, and its value satisfies \<open>P\<close> (total
  correctness: neither an error nor a panic). \<open>yields m P\<close>: if it returns normally,
  the value satisfies \<open>P\<close>.
\<close>

definition succeeds :: "'a res \<Rightarrow> ('a \<Rightarrow> bool) \<Rightarrow> bool" where
  "succeeds m P \<longleftrightarrow> (case m of Ok x \<Rightarrow> P x | _ \<Rightarrow> False)"

definition yields :: "'a res \<Rightarrow> ('a \<Rightarrow> bool) \<Rightarrow> bool" where
  "yields m P \<longleftrightarrow> (case m of Ok x \<Rightarrow> P x | _ \<Rightarrow> True)"

named_theorems res_simps "unfolding rules of the result type"

lemma bindR_eq_Ok [simp]: "bindR m f = Ok y \<longleftrightarrow> (\<exists>x. m = Ok x \<and> f x = Ok y)"
  by (cases m) auto

lemma bindE:
  assumes "bindR m f = Ok y"
  obtains x where "m = Ok x" "f x = Ok y"
  using assms by auto

lemma bindR_eq_Panic: "bindR m f = Panic \<longleftrightarrow> m = Panic \<or> (\<exists>x. m = Ok x \<and> f x = Panic)"
  by (cases m) auto

lemma bindR_eq_Err: "bindR m f = Err e \<longleftrightarrow> m = Err e \<or> (\<exists>x. m = Ok x \<and> f x = Err e)"
  by (cases m) auto

lemma bindR_assoc: "bindR (bindR m f) g = bindR m (\<lambda>x. bindR (f x) g)"
  by (cases m) auto

lemma bindR_cong [fundef_cong]:
  "m = m' \<Longrightarrow> (\<And>x. m' = Ok x \<Longrightarrow> f x = g x) \<Longrightarrow> bindR m f = bindR m' g"
  by (cases m') auto

lemma must_Some [simp]: "must (Some x) = Ok x" and must_None [simp]: "must None = Panic"
  by (simp_all add: must_def)

lemma must_eq_Ok [simp]: "must m = Ok x \<longleftrightarrow> m = Some x"
  by (cases m) auto

lemma must_not_Err [simp]: "must m \<noteq> Err e"
  by (cases m) auto

lemma orErr_Some [simp]: "orErr e (Some x) = Ok x" and orErr_None [simp]: "orErr e None = Err e"
  by (simp_all add: orErr_def)

lemma orErr_eq_Ok [simp]: "orErr e m = Ok x \<longleftrightarrow> m = Some x"
  by (cases m) auto

lemma orErr_not_Panic [simp]: "orErr e m \<noteq> Panic"
  by (cases m) auto

lemma hdR_Nil [simp]: "hdR [] = Panic" and hdR_Cons [simp]: "hdR (x # xs) = Ok x"
  and hdR_not_Err [simp]: "hdR ys \<noteq> Err e"
  by (simp_all add: hdR_def split: list.splits)

lemma hdR_eq_Ok [simp]: "hdR xs = Ok x \<longleftrightarrow> xs \<noteq> [] \<and> hd xs = x"
  by (cases xs) auto

lemma failIf_True [simp]: "failIf True e = Err e" and failIf_False [simp]: "failIf False e = Ok ()"
  by (simp_all add: failIf_def)

lemma failIf_eq_Ok [simp]: "failIf b e = Ok u \<longleftrightarrow> \<not> b"
  by (simp add: failIf_def)

lemma failIf_not_Panic [simp]: "failIf b e \<noteq> Panic"
  by (simp add: failIf_def)

lemma failIf_bind: "bindR (failIf b e) f = (if b then Err e else f ())"
  by simp

lemma panicOnErr_eq_Ok [simp]: "panicOnErr m = Ok x \<longleftrightarrow> m = Ok x"
  by (cases m) auto

lemma panicOnErr_not_Err [simp]: "panicOnErr m \<noteq> Err e"
  by (cases m) auto

text \<open>A caller that replaces the error of its callee by its own.\<close>

lemma replace_err_eq_Ok [simp]:
  "(case m of Ok x \<Rightarrow> Ok x | Err e \<Rightarrow> Err e' | Panic \<Rightarrow> Panic) = Ok y \<longleftrightarrow> m = Ok y"
  by (cases m) auto

lemma succeeds_Ok [simp]: "succeeds (Ok x) P = P x"
  and succeeds_Err [simp]: "\<not> succeeds (Err e) P"
  and succeeds_Panic [simp]: "\<not> succeeds Panic P"
  by (simp_all add: succeeds_def)

lemma succeeds_iff: "succeeds m P \<longleftrightarrow> (\<exists>x. m = Ok x \<and> P x)"
  by (cases m) auto

lemma succeeds_bind: "succeeds m P \<Longrightarrow> (\<And>x. P x \<Longrightarrow> succeeds (f x) Q) \<Longrightarrow> succeeds (bindR m f) Q"
  by (cases m) auto

lemma succeeds_mono: "succeeds m P \<Longrightarrow> (\<And>x. P x \<Longrightarrow> Q x) \<Longrightarrow> succeeds m Q"
  by (cases m) auto

lemma succeeds_must [simp]: "succeeds (must m) P \<longleftrightarrow> (\<exists>x. m = Some x \<and> P x)"
  by (cases m) auto

lemma yields_Ok [simp]: "yields (Ok x) P = P x"
  and yields_Err [simp]: "yields (Err e) P"
  and yields_Panic [simp]: "yields Panic P"
  by (simp_all add: yields_def)

lemma yields_bind: "yields m P \<Longrightarrow> (\<And>x. P x \<Longrightarrow> yields (f x) Q) \<Longrightarrow> yields (bindR m f) Q"
  by (cases m) auto

lemma yieldsD: "yields m P \<Longrightarrow> m = Ok x \<Longrightarrow> P x"
  by simp

lemma foldR_append: "foldR f (xs @ ys) s = bindR (foldR f xs s) (foldR f ys)"
proof (induction xs arbitrary: s)
  case Nil
  then show ?case by simp
next
  case (Cons x xs)
  then show ?case by (cases "f x s") simp_all
qed

lemma foldR_succeeds:
  assumes "I s" and "\<And>x s. x \<in> set xs \<Longrightarrow> I s \<Longrightarrow> succeeds (f x s) I"
  shows "succeeds (foldR f xs s) I"
  using assms
proof (induction xs arbitrary: s)
  case Nil
  then show ?case by simp
next
  case (Cons x xs)
  then have "succeeds (f x s) I" by simp
  then show ?case
    by (simp, rule succeeds_bind) (use Cons in auto)
qed

lemma foldR_invariant:
  assumes "foldR f xs s = Ok s'" and "I s"
    and "\<And>x s s'. x \<in> set xs \<Longrightarrow> I s \<Longrightarrow> f x s = Ok s' \<Longrightarrow> I s'"
  shows "I s'"
  using assms by (induction xs arbitrary: s) auto

section \<open>Go's integers, times and durations\<close>

type_synonym u64 = "64 word"
type_synonym u32 = "32 word"

text \<open>
  \<open>time.Time\<close> is an instant, an integer number of nanoseconds; \<open>time.Duration\<close> is an
  \<open>int64\<close> number of nanoseconds. \<open>Time.Sub\<close> saturates at the ends of \<open>int64\<close>, and
  the product of two durations wraps. Integer division truncates towards zero.
\<close>

type_synonym time = int
type_synonym duration = int

definition max_int64 :: int where "max_int64 = 2 ^ 63 - 1"
definition min_int64 :: int where "min_int64 = - (2 ^ 63)"

definition in_int64 :: "int \<Rightarrow> bool" where
  "in_int64 x \<longleftrightarrow> min_int64 \<le> x \<and> x \<le> max_int64"

definition wrap_int64 :: "int \<Rightarrow> int" where
  "wrap_int64 x = (x + 2 ^ 63) mod 2 ^ 64 - 2 ^ 63"

definition time_sub :: "time \<Rightarrow> time \<Rightarrow> duration" where
  "time_sub t u = max min_int64 (min max_int64 (t - u))"

definition time_add :: "time \<Rightarrow> duration \<Rightarrow> time" where
  "time_add t d = t + d"

definition time_after :: "time \<Rightarrow> time \<Rightarrow> bool" where
  "time_after t u \<longleftrightarrow> u < t"

definition go_quot :: "int \<Rightarrow> int \<Rightarrow> int res" where
  "go_quot a b = (if b = 0 then Panic else Ok (sgn a * sgn b * (\<bar>a\<bar> div \<bar>b\<bar>)))"

lemma wrap_int64_id: "in_int64 x \<Longrightarrow> wrap_int64 x = x"
  by (simp add: in_int64_def wrap_int64_def min_int64_def max_int64_def)

lemma wrap_int64_range: "in_int64 (wrap_int64 x)"
  using pos_mod_bound [of "2 ^ 64" "x + 2 ^ 63"] pos_mod_sign [of "2 ^ 64" "x + 2 ^ 63"]
  by (simp add: in_int64_def wrap_int64_def min_int64_def max_int64_def)

lemma go_quot_nonneg: "0 \<le> a \<Longrightarrow> 0 < b \<Longrightarrow> go_quot a b = Ok (a div b)"
  by (cases "a = 0") (simp_all add: go_quot_def)

text \<open>Reading a 64-bit word as Go's \<open>int64(x)\<close> and back: the same bits.\<close>

definition u64_of_int64 :: "int \<Rightarrow> u64" where "u64_of_int64 x = word_of_int x"
definition int64_of_u64 :: "u64 \<Rightarrow> int" where "int64_of_u64 w = sint w"

lemma u64_of_int64_nonneg: "0 \<le> x \<Longrightarrow> x < 2 ^ 64 \<Longrightarrow> uint (u64_of_int64 x) = x"
  by (simp add: u64_of_int64_def uint_word_of_int)

section \<open>The ordered key-value store\<close>

text \<open>
  A module's part of the chain state is an ordered store: \<open>Get\<close>, \<open>Set\<close> and
  \<open>Delete\<close> by key, and iterators that visit the keys in order. Each prefix of the byte
  store is one association list, strictly sorted by key.
\<close>

type_synonym ('k, 'v) kv = "('k \<times> 'v) list"

definition kv_get :: "('k, 'v) kv \<Rightarrow> 'k \<Rightarrow> 'v option" where
  "kv_get m k = map_of m k"

fun kv_set :: "'k::linorder \<Rightarrow> 'v \<Rightarrow> ('k, 'v) kv \<Rightarrow> ('k, 'v) kv" where
  "kv_set k v [] = [(k, v)]"
| "kv_set k v ((k', v') # m) =
     (if k < k' then (k, v) # (k', v') # m
      else if k = k' then (k, v) # m
      else (k', v') # kv_set k v m)"

definition kv_del :: "'k \<Rightarrow> ('k, 'v) kv \<Rightarrow> ('k, 'v) kv" where
  "kv_del k m = filter (\<lambda>p. fst p \<noteq> k) m"

definition kv_wf :: "('k::linorder, 'v) kv \<Rightarrow> bool" where
  "kv_wf m \<longleftrightarrow> sorted_wrt (<) (map fst m)"

definition kv_has :: "('k, 'v) kv \<Rightarrow> 'k \<Rightarrow> bool" where
  "kv_has m k \<longleftrightarrow> kv_get m k \<noteq> None"

lemma kv_get_Nil [simp]: "kv_get [] k = None"
  by (simp add: kv_get_def)

lemma kv_get_set [simp]: "kv_get (kv_set k v m) j = (if j = k then Some v else kv_get m j)"
  by (induction m) (auto simp: kv_get_def)

lemma kv_get_del [simp]: "kv_get (kv_del k m) j = (if j = k then None else kv_get m j)"
  by (induction m) (auto simp: kv_get_def kv_del_def)

lemma kv_has_iff: "kv_has m k \<longleftrightarrow> (\<exists>v. kv_get m k = Some v)"
  by (auto simp: kv_has_def)

lemma kv_set_keys: "set (map fst (kv_set k v m)) = insert k (set (map fst m))"
  by (induction k v m rule: kv_set.induct) (simp_all add: insert_commute)

lemma kv_wf_Nil [simp]: "kv_wf []"
  by (simp add: kv_wf_def)

lemma kv_wf_Cons: "kv_wf ((k, v) # m) \<longleftrightarrow> (\<forall>j \<in> fst ` set m. k < j) \<and> kv_wf m"
  by (auto simp: kv_wf_def)

lemma kv_wf_set [simp]: "kv_wf m \<Longrightarrow> kv_wf (kv_set k v m)"
proof (induction m)
  case Nil
  then show ?case by (simp add: kv_wf_def)
next
  case (Cons p m)
  obtain k' v' where p: "p = (k', v')" by (cases p)
  have keys: "fst ` set (kv_set k v m) = insert k (fst ` set m)"
    using kv_set_keys [of k v m] by simp
  consider "k < k'" | "k = k'" | "k' < k" by fastforce
  then show ?case
    using Cons p by cases (auto simp: kv_wf_Cons keys simp del: set_map dest: order.strict_trans)
qed

lemma kv_wf_del [simp]: "kv_wf m \<Longrightarrow> kv_wf (kv_del k m)"
  by (induction m) (auto simp: kv_wf_def kv_del_def)

lemma kv_wf_distinct: "kv_wf m \<Longrightarrow> distinct (map fst m)"
  by (simp add: kv_wf_def strict_sorted_iff)

lemma kv_get_in_set: "kv_wf m \<Longrightarrow> kv_get m k = Some v \<longleftrightarrow> (k, v) \<in> set m"
  by (simp add: kv_get_def kv_wf_distinct)

lemma kv_has_in_keys: "kv_has m k \<longleftrightarrow> k \<in> fst ` set m"
  by (simp add: kv_has_def kv_get_def map_of_eq_None_iff)

lemma kv_has_set [simp]: "kv_has (kv_set k v m) j \<longleftrightarrow> j = k \<or> kv_has m j"
  and kv_has_del [simp]: "kv_has (kv_del k m) j \<longleftrightarrow> j \<noteq> k \<and> kv_has m j"
  and kv_has_Nil [simp]: "\<not> kv_has [] j"
  by (simp_all add: kv_has_def)

lemma kv_has_Cons: "kv_has ((k', v') # m) k \<longleftrightarrow> k' = k \<or> kv_has m k"
  by (auto simp: kv_has_in_keys)

lemma kv_length_set_new: "\<not> kv_has m k \<Longrightarrow> length (kv_set k v m) = Suc (length m)"
  by (induction m rule: kv_set.induct [of _ k v]) (auto simp: kv_has_Cons)

lemma kv_length_set_old: "kv_wf m \<Longrightarrow> kv_has m k \<Longrightarrow> length (kv_set k v m) = length m"
proof (induction m)
  case Nil
  then show ?case by simp
next
  case (Cons p m)
  obtain k' v' where p: "p = (k', v')" by (cases p)
  have "\<not> k < k'"
    using Cons.prems p by (auto simp: kv_wf_Cons kv_has_in_keys dest: order.strict_trans)
  with Cons p show ?case by (auto simp: kv_wf_Cons kv_has_Cons)
qed

lemma kv_del_absent: "\<not> kv_has m k \<Longrightarrow> kv_del k m = m"
  by (induction m) (auto simp: kv_has_in_keys kv_del_def)

lemma kv_length_del: "kv_wf m \<Longrightarrow> kv_has m k \<Longrightarrow> Suc (length (kv_del k m)) = length m"
proof (induction m)
  case Nil
  then show ?case by simp
next
  case (Cons p m)
  obtain k' v' where p: "p = (k', v')" by (cases p)
  show ?case
  proof (cases "k' = k")
    case True
    with Cons.prems p have "\<not> kv_has m k" by (auto simp: kv_wf_Cons kv_has_in_keys)
    then have "kv_del k m = m" by (rule kv_del_absent)
    with True p show ?thesis by (simp add: kv_del_def)
  next
    case False
    with Cons p show ?thesis by (auto simp: kv_wf_Cons kv_has_in_keys kv_del_def)
  qed
qed

text \<open>
  The interface the keepers rely on: a lookup after a write or a delete, and keys that stay
  in order. Its consequences are proved once, here, for every store of the model.
\<close>

locale ordered_store =
  fixes get :: "'m \<Rightarrow> 'k \<Rightarrow> 'v option"
    and put :: "'k \<Rightarrow> 'v \<Rightarrow> 'm \<Rightarrow> 'm"
    and del :: "'k \<Rightarrow> 'm \<Rightarrow> 'm"
    and entries :: "'m \<Rightarrow> ('k \<times> 'v) list"
    and wf :: "'m \<Rightarrow> bool"
  assumes get_put: "get (put k v m) j = (if j = k then Some v else get m j)"
    and get_del: "get (del k m) j = (if j = k then None else get m j)"
    and wf_put: "wf m \<Longrightarrow> wf (put k v m)"
    and wf_del: "wf m \<Longrightarrow> wf (del k m)"
    and entries_get: "wf m \<Longrightarrow> (k, v) \<in> set (entries m) \<longleftrightarrow> get m k = Some v"
    and entries_distinct: "wf m \<Longrightarrow> distinct (map fst (entries m))"
begin

lemma put_put_get: "get (put k w (put k v m)) j = get (put k w m) j"
  by (simp add: get_put)

lemma del_put_get: "get (del k (put k v m)) j = get (del k m) j"
  by (simp add: get_put get_del)

lemma put_entries:
  assumes "wf m"
  shows "set (entries (put k v m)) = insert (k, v) {p \<in> set (entries m). fst p \<noteq> k}"
proof (rule set_eqI)
  fix p
  show "p \<in> set (entries (put k v m)) \<longleftrightarrow> p \<in> insert (k, v) {p \<in> set (entries m). fst p \<noteq> k}"
    using assms wf_put [OF assms, of k v]
    by (cases p) (auto simp: entries_get get_put)
qed

lemma del_entries:
  assumes "wf m"
  shows "set (entries (del k m)) = {p \<in> set (entries m). fst p \<noteq> k}"
proof (rule set_eqI)
  fix p
  show "p \<in> set (entries (del k m)) \<longleftrightarrow> p \<in> {p \<in> set (entries m). fst p \<noteq> k}"
    using assms wf_del [OF assms, of k]
    by (cases p) (auto simp: entries_get get_del)
qed

lemma entries_functional:
  "wf m \<Longrightarrow> (k, v) \<in> set (entries m) \<Longrightarrow> (k, w) \<in> set (entries m) \<Longrightarrow> v = w"
  by (simp add: entries_get)

end

interpretation kvs: ordered_store kv_get kv_set kv_del "\<lambda>m. m" kv_wf
  by unfold_locales (auto simp: kv_get_in_set kv_wf_distinct)

text \<open>
  The store of a module with a few fixed keys: a key holds nothing, bytes that do not decode,
  or an encoded value. Decoding \<open>nil\<close> bytes gives the zero value of the type.
\<close>

datatype 'a cell = Absent | Corrupt | Value 'a

text \<open>Iterating the keys up to a bound, and those under a prefix of the key.\<close>

definition kv_upto :: "'k::linorder \<Rightarrow> ('k, 'v) kv \<Rightarrow> ('k, 'v) kv" where
  "kv_upto k m = filter (\<lambda>p. fst p \<le> k) m"

definition kv_under :: "'a \<Rightarrow> ('a \<times> 'b, 'v) kv \<Rightarrow> ('a \<times> 'b, 'v) kv" where
  "kv_under a m = filter (\<lambda>p. fst (fst p) = a) m"

lemma kv_under_set: "p \<in> set (kv_under a m) \<longleftrightarrow> p \<in> set m \<and> fst (fst p) = a"
  by (auto simp: kv_under_def)

end
