(* ===== verification/Sdk.thy ===== *)
theory Sdk
  imports Prelude "HOL-Library.Char_ord"
begin

text \<open>
  The code that is not under \<open>src\<close> and that the modules call: \<open>cosmossdk.io/math\<close>
  (decimals), the coin types of the Cosmos SDK, and the bank keeper. Each is a record of
  functions, an argument of every definition that calls it; what the modules rely on is a
  named predicate (\<open>dec_laws\<close>, \<open>coins_laws\<close>, \<open>bank_laws\<close>) that states the documented behaviour.
  The concrete records at the end show that the laws can hold; the witnesses use them, no
  definition of the model does.
\<close>

section \<open>Decimals\<close>

text \<open>
  A \<open>math.LegacyDec\<close> has 18 decimal places: it is counted in units of \<open>10^-18\<close>, so
  comparisons of decimals are comparisons of integers. A \<open>math.Int\<close> is an integer.
  \<open>None\<close> is a panic (overflow, division by zero), except in \<open>dOfStr\<close> and
  \<open>dApproxRoot\<close> where it is the error result.
\<close>

type_synonym dec = int

definition dec_unit :: int where "dec_unit = 10 ^ 18"

definition dec_of_int :: "int \<Rightarrow> dec" where
  "dec_of_int n = n * dec_unit"

abbreviation dec_one :: dec where "dec_one \<equiv> dec_of_int 1"

text \<open>\<open>LegacyNewDecWithPrec(n, p)\<close> is \<open>n * 10^-p\<close>.\<close>

definition dec_with_prec :: "int \<Rightarrow> nat \<Rightarrow> dec" where
  "dec_with_prec n p = n * 10 ^ (18 - p)"

record dec_lib =
  dAdd :: "dec \<Rightarrow> dec \<Rightarrow> dec option"
  dSub :: "dec \<Rightarrow> dec \<Rightarrow> dec option"
  dMul :: "dec \<Rightarrow> dec \<Rightarrow> dec option"
  dQuo :: "dec \<Rightarrow> dec \<Rightarrow> dec option"
  dMulInt :: "dec \<Rightarrow> int \<Rightarrow> dec option"
  dMulInt64 :: "dec \<Rightarrow> int \<Rightarrow> dec option"
  dQuoInt64 :: "dec \<Rightarrow> int \<Rightarrow> dec option"
  dTruncateInt :: "dec \<Rightarrow> int"
  dRoundInt :: "dec \<Rightarrow> int"
  dCeil :: "dec \<Rightarrow> dec option"
  dApproxRoot :: "dec \<Rightarrow> u64 \<Rightarrow> dec option"
  dOfStr :: "string \<Rightarrow> dec option"
  dStr :: "dec \<Rightarrow> string"
  iInt64 :: "int \<Rightarrow> int option"

definition dec_bound :: int where "dec_bound = 2 ^ 256"

text \<open>
  Addition and subtraction are exact; \<open>Mul\<close> rounds to the nearest decimal; \<open>Quo\<close> is the
  nearest decimal up to the guard digits of the division; none of them panics while the
  intermediate values fit (and \<open>Quo\<close> only for a non-zero divisor).
\<close>

definition dec_ring_laws :: "dec_lib \<Rightarrow> bool" where
  "dec_ring_laws L \<longleftrightarrow>
     (\<forall>a b c. dAdd L a b = Some c \<longrightarrow> c = a + b) \<and>
     (\<forall>a b. \<bar>a + b\<bar> < dec_bound \<longrightarrow> dAdd L a b \<noteq> None) \<and>
     (\<forall>a b c. dSub L a b = Some c \<longrightarrow> c = a - b) \<and>
     (\<forall>a b. \<bar>a - b\<bar> < dec_bound \<longrightarrow> dSub L a b \<noteq> None) \<and>
     (\<forall>a b c. dMul L a b = Some c \<longrightarrow> 2 * \<bar>c * dec_unit - a * b\<bar> \<le> dec_unit) \<and>
     (\<forall>a b. \<bar>a * b\<bar> < dec_bound \<longrightarrow> dMul L a b \<noteq> None) \<and>
     (\<forall>a n c. dMulInt L a n = Some c \<longrightarrow> c = a * n) \<and>
     (\<forall>a n. \<bar>a * n\<bar> < dec_bound \<longrightarrow> dMulInt L a n \<noteq> None) \<and>
     (\<forall>a n c. dMulInt64 L a n = Some c \<longrightarrow> c = a * n) \<and>
     (\<forall>a n. \<bar>a * n\<bar> < dec_bound \<longrightarrow> dMulInt64 L a n \<noteq> None)"

definition dec_quo_laws :: "dec_lib \<Rightarrow> bool" where
  "dec_quo_laws L \<longleftrightarrow>
     (\<forall>a b c. dQuo L a b = Some c \<longrightarrow>
        b \<noteq> 0 \<and> 2 * dec_unit * \<bar>c * b - a * dec_unit\<bar> \<le> \<bar>b\<bar> * (dec_unit + 2)) \<and>
     (\<forall>a b. b \<noteq> 0 \<longrightarrow> \<bar>a * dec_unit\<bar> < dec_bound \<longrightarrow> dQuo L a b \<noteq> None) \<and>
     (\<forall>a n c. dQuoInt64 L a n = Some c \<longrightarrow> n \<noteq> 0 \<and> c = sgn a * sgn n * (\<bar>a\<bar> div \<bar>n\<bar>)) \<and>
     (\<forall>a n. n \<noteq> 0 \<longrightarrow> dQuoInt64 L a n \<noteq> None)"

definition dec_round_laws :: "dec_lib \<Rightarrow> bool" where
  "dec_round_laws L \<longleftrightarrow>
     (\<forall>d. dTruncateInt L d = sgn d * (\<bar>d\<bar> div dec_unit)) \<and>
     (\<forall>d. 2 * \<bar>dRoundInt L d * dec_unit - d\<bar> \<le> dec_unit) \<and>
     (\<forall>d c. dCeil L d = Some c \<longrightarrow> dec_unit dvd c \<and> d \<le> c \<and> c < d + dec_unit) \<and>
     (\<forall>d. \<bar>d\<bar> < dec_bound \<longrightarrow> dCeil L d \<noteq> None) \<and>
     (\<forall>n. iInt64 L n = (if in_int64 n then Some n else None))"

definition dec_misc_laws :: "dec_lib \<Rightarrow> bool" where
  "dec_misc_laws L \<longleftrightarrow>
     (\<forall>d. dOfStr L (dStr L d) = Some d) \<and>
     (\<forall>d k r. dApproxRoot L d k = Some r \<longrightarrow> d \<le> 0 \<longrightarrow> r \<le> 0)"

definition dec_laws :: "dec_lib \<Rightarrow> bool" where
  "dec_laws L \<longleftrightarrow> dec_ring_laws L \<and> dec_quo_laws L \<and> dec_round_laws L \<and> dec_misc_laws L"

lemma dec_lawsD:
  assumes "dec_laws L"
  shows "dec_ring_laws L" "dec_quo_laws L" "dec_round_laws L" "dec_misc_laws L"
  using assms by (auto simp: dec_laws_def)

lemma dec_unit_pos [simp]: "0 < dec_unit"
  by (simp add: dec_unit_def)

lemma dec_unit_nz [simp]: "dec_unit \<noteq> 0"
  and dec_unit_abs [simp]: "\<bar>dec_unit\<bar> = dec_unit"
  and dec_unit_not_neg [simp]: "\<not> dec_unit < 0"
  and dec_unit_not_nonpos [simp]: "\<not> dec_unit \<le> 0"
  and dec_unit_nonneg [simp]: "0 \<le> dec_unit"
  and dec_unit_sgn [simp]: "sgn dec_unit = 1"
  by (simp_all add: dec_unit_def)

lemma le_dec_unit_trans: "x \<le> n * dec_unit \<Longrightarrow> n \<le> m \<Longrightarrow> x \<le> m * dec_unit"
  by (erule order_trans) (simp add: mult_right_mono)

lemma dec_of_int_le [simp]: "dec_of_int m \<le> dec_of_int n \<longleftrightarrow> m \<le> n"
  and dec_of_int_less [simp]: "dec_of_int m < dec_of_int n \<longleftrightarrow> m < n"
  and dec_of_int_eq [simp]: "dec_of_int m = dec_of_int n \<longleftrightarrow> m = n"
  and dec_of_int_0 [simp]: "dec_of_int 0 = 0"
  by (simp_all add: dec_of_int_def)

lemma dec_of_int_nonneg [simp]: "0 \<le> dec_of_int n \<longleftrightarrow> 0 \<le> n"
  and dec_of_int_pos [simp]: "0 < dec_of_int n \<longleftrightarrow> 0 < n"
  and dec_of_int_eq_0 [simp]: "dec_of_int n = 0 \<longleftrightarrow> n = 0"
  by (auto simp: dec_of_int_def zero_le_mult_iff zero_less_mult_iff)

lemma dAdd_exact: "dec_laws L \<Longrightarrow> dAdd L a b = Some c \<Longrightarrow> c = a + b"
  and dSub_exact: "dec_laws L \<Longrightarrow> dSub L a b = Some c \<Longrightarrow> c = a - b"
  and dMulInt_exact: "dec_laws L \<Longrightarrow> dMulInt L a n = Some c \<Longrightarrow> c = a * n"
  and dMulInt64_exact: "dec_laws L \<Longrightarrow> dMulInt64 L a n = Some c \<Longrightarrow> c = a * n"
  by (simp_all add: dec_laws_def dec_ring_laws_def)

lemma dMul_near: "dec_laws L \<Longrightarrow> dMul L a b = Some c \<Longrightarrow> 2 * \<bar>c * dec_unit - a * b\<bar> \<le> dec_unit"
  by (simp add: dec_laws_def dec_ring_laws_def)

lemma dQuo_near:
  "dec_laws L \<Longrightarrow> dQuo L a b = Some c \<Longrightarrow>
     2 * dec_unit * \<bar>c * b - a * dec_unit\<bar> \<le> \<bar>b\<bar> * (dec_unit + 2)"
  by (auto simp: dec_laws_def dec_quo_laws_def)

lemma dQuo_nz: "dec_laws L \<Longrightarrow> dQuo L a b = Some c \<Longrightarrow> b \<noteq> 0"
  by (auto simp: dec_laws_def dec_quo_laws_def)

lemma dAdd_total: "dec_laws L \<Longrightarrow> \<bar>a + b\<bar> < dec_bound \<Longrightarrow> dAdd L a b = Some (a + b)"
  unfolding dec_laws_def dec_ring_laws_def by (metis not_Some_eq)

lemma dSub_total: "dec_laws L \<Longrightarrow> \<bar>a - b\<bar> < dec_bound \<Longrightarrow> dSub L a b = Some (a - b)"
  unfolding dec_laws_def dec_ring_laws_def by (metis not_Some_eq)

lemma dMul_total: "dec_laws L \<Longrightarrow> \<bar>a * b\<bar> < dec_bound \<Longrightarrow> \<exists>c. dMul L a b = Some c"
  unfolding dec_laws_def dec_ring_laws_def by (metis not_Some_eq)

lemma dQuo_total: "dec_laws L \<Longrightarrow> b \<noteq> 0 \<Longrightarrow> \<bar>a * dec_unit\<bar> < dec_bound \<Longrightarrow> \<exists>c. dQuo L a b = Some c"
  unfolding dec_laws_def dec_quo_laws_def by (metis not_Some_eq)

lemma dMulInt64_total: "dec_laws L \<Longrightarrow> \<bar>a * n\<bar> < dec_bound \<Longrightarrow> dMulInt64 L a n = Some (a * n)"
  unfolding dec_laws_def dec_ring_laws_def by (metis not_Some_eq)

text \<open>What rounding to the nearest gives: signs, monotonicity and exactness.\<close>

lemma nearest_le:
  fixes c c' x x' u :: int
  assumes "2 * \<bar>c * u - x\<bar> \<le> u" "2 * \<bar>c' * u - x'\<bar> \<le> u" "x < x'" "0 < u"
  shows "c \<le> c'"
proof (rule ccontr)
  assume "\<not> c \<le> c'"
  then have "(c' + 1) * u \<le> c * u" using assms(4) by simp
  then have "c' * u + u \<le> c * u" by (simp add: algebra_simps)
  with assms show False by (simp add: abs_if split: if_splits)
qed

lemma nearest_nonneg:
  fixes c x u :: int
  assumes "2 * \<bar>c * u - x\<bar> \<le> u" "0 \<le> x" "0 < u"
  shows "0 \<le> c"
proof (rule ccontr)
  assume "\<not> 0 \<le> c"
  then have "c * u \<le> (- 1) * u" using assms(3) by (intro mult_right_mono) auto
  with assms show False by (simp add: abs_if split: if_splits)
qed

lemma nearest_nonpos:
  fixes c x u :: int
  assumes "2 * \<bar>c * u - x\<bar> \<le> u" "x \<le> 0" "0 < u"
  shows "c \<le> 0"
  using nearest_nonneg [of "- c" u "- x"] assms by (simp add: abs_if split: if_splits)

lemma nearest_exact:
  fixes c q u :: int
  assumes "2 * \<bar>c * u - q * u\<bar> \<le> u" "0 < u"
  shows "c = q"
proof -
  have "2 * \<bar>(c - q) * u\<bar> \<le> u" using assms(1) by (simp add: algebra_simps)
  then have "2 * (\<bar>c - q\<bar> * u) \<le> u" using assms(2) by (simp add: abs_mult)
  then have "\<bar>c - q\<bar> < 1"
    using assms(2) by (smt (verit) mult_le_cancel_right1 mult.commute)
  then show ?thesis by simp
qed

lemma dMul_nonneg: "dec_laws L \<Longrightarrow> dMul L a b = Some c \<Longrightarrow> 0 \<le> a \<Longrightarrow> 0 \<le> b \<Longrightarrow> 0 \<le> c"
  using nearest_nonneg [OF dMul_near] by simp

lemma dMul_exact: "dec_laws L \<Longrightarrow> dMul L a b = Some c \<Longrightarrow> a * b = q * dec_unit \<Longrightarrow> c = q"
  using dMul_near [of L a b c] by (intro nearest_exact) auto

lemma dMul_int_left: "dec_laws L \<Longrightarrow> dMul L (dec_of_int n) b = Some c \<Longrightarrow> c = n * b"
  by (rule dMul_exact [of L "dec_of_int n" b c "n * b"]) (auto simp: dec_of_int_def)

lemma dMul_le_left:
  assumes "dec_laws L" "dMul L a b = Some c" "0 \<le> a" "b \<le> dec_one"
  shows "c \<le> a"
proof (cases "a * b = a * dec_unit")
  case True
  with assms show ?thesis using dMul_exact by blast
next
  case False
  have "a * b \<le> a * dec_unit" using assms(3,4) by (intro mult_left_mono) (auto simp: dec_of_int_def)
  with False have "a * b < a * dec_unit" by linarith
  with nearest_le [OF dMul_near [OF assms(1,2)], of a "a * dec_unit"] show ?thesis by simp
qed

lemma dQuo_nonneg:
  assumes "dec_laws L" "dQuo L a b = Some c" "0 \<le> a" "0 < b"
  shows "0 \<le> c"
proof (rule ccontr)
  assume "\<not> 0 \<le> c"
  then have "c * b \<le> (- 1) * b" using assms(4) by (intro mult_right_mono) auto
  moreover have "0 \<le> a * dec_unit" using assms(3) by simp
  ultimately have far: "b \<le> \<bar>c * b - a * dec_unit\<bar>" by linarith
  have "2 * dec_unit * b \<le> 2 * dec_unit * \<bar>c * b - a * dec_unit\<bar>"
    using far by (intro mult_left_mono) auto
  also have "\<dots> \<le> b * (dec_unit + 2)" using dQuo_near [OF assms(1,2)] assms(4) by simp
  finally have "b * (2 * dec_unit) \<le> b * (dec_unit + 2)" by (simp add: mult.commute)
  then have "2 * dec_unit \<le> dec_unit + 2" using assms(4) by simp
  then show False by (simp add: dec_unit_def)
qed

lemma dQuo_nonpos:
  assumes "dec_laws L" "dQuo L a b = Some c" "a \<le> 0" "0 < b"
  shows "c \<le> 0"
proof (rule ccontr)
  assume "\<not> c \<le> 0"
  then have "1 * b \<le> c * b" using assms(4) by (intro mult_right_mono) auto
  moreover have "a * dec_unit \<le> 0" using assms(3) by (simp add: mult_le_0_iff)
  ultimately have far: "b \<le> \<bar>c * b - a * dec_unit\<bar>" by linarith
  have "2 * dec_unit * b \<le> 2 * dec_unit * \<bar>c * b - a * dec_unit\<bar>"
    using far by (intro mult_left_mono) auto
  also have "\<dots> \<le> b * (dec_unit + 2)" using dQuo_near [OF assms(1,2)] assms(4) by simp
  finally have "b * (2 * dec_unit) \<le> b * (dec_unit + 2)" by (simp add: mult.commute)
  then have "2 * dec_unit \<le> dec_unit + 2" using assms(4) by simp
  then show False by (simp add: dec_unit_def)
qed

lemma dMul_nonpos: "dec_laws L \<Longrightarrow> dMul L a b = Some c \<Longrightarrow> 0 \<le> a \<Longrightarrow> b \<le> 0 \<Longrightarrow> c \<le> 0"
  using nearest_nonpos [OF dMul_near] by (simp add: mult_le_0_iff)

lemma dMul_ge_left:
  assumes "dec_laws L" "dMul L a b = Some c" "0 \<le> a" "dec_one \<le> b"
  shows "a \<le> c"
proof (cases "a * b = a * dec_unit")
  case True
  with assms show ?thesis using dMul_exact by blast
next
  case False
  have "a * dec_unit \<le> a * b" using assms(3,4) by (intro mult_left_mono) (auto simp: dec_of_int_def)
  with False have "a * dec_unit < a * b" by linarith
  with nearest_le [of a dec_unit "a * dec_unit" c "a * b"] dMul_near [OF assms(1,2)] show ?thesis by simp
qed

lemma dQuo_bound:
  assumes L: "dec_laws L" and q: "dQuo L a b = Some c" and b: "dec_unit \<le> b"
  shows "\<bar>c\<bar> \<le> \<bar>a\<bar> + 2"
proof -
  have b0: "0 < b" using b dec_unit_pos by linarith
  have near: "2 * dec_unit * \<bar>c * b - a * dec_unit\<bar> \<le> b * (dec_unit + 2)"
    using dQuo_near [OF L q] b0 by simp
  also have "\<dots> \<le> b * (2 * dec_unit)"
    using b0 by (intro mult_left_mono) (auto simp: dec_unit_def)
  finally have "2 * dec_unit * \<bar>c * b - a * dec_unit\<bar> \<le> 2 * dec_unit * b"
    by (simp add: mult.commute)
  then have "\<bar>c * b - a * dec_unit\<bar> \<le> b" by (simp add: dec_unit_def)
  then have "\<bar>c * b\<bar> \<le> \<bar>a * dec_unit\<bar> + b" by linarith
  then have "\<bar>c * b\<bar> \<le> \<bar>a\<bar> * dec_unit + b" by (simp add: abs_mult)
  also have "\<dots> \<le> \<bar>a\<bar> * b + b" using b by (intro add_right_mono mult_left_mono) auto
  finally have "\<bar>c\<bar> * b \<le> (\<bar>a\<bar> + 1) * b" using b0 by (simp add: abs_mult distrib_right)
  then show ?thesis using b0 by simp
qed

lemma half_le: "2 * x \<le> u \<Longrightarrow> 0 \<le> x \<Longrightarrow> x \<le> u" for x u :: int
  by simp

lemma dMul_bound:
  assumes "dec_laws L" "dMul L a b = Some c" "\<bar>a\<bar> \<le> dec_unit"
  shows "\<bar>c\<bar> \<le> \<bar>b\<bar> + 1"
proof -
  have near: "2 * \<bar>c * dec_unit - a * b\<bar> \<le> dec_unit" by (rule dMul_near [OF assms(1,2)])
  have "\<bar>c * dec_unit\<bar> \<le> \<bar>c * dec_unit - a * b\<bar> + \<bar>a * b\<bar>"
    using abs_triangle_ineq [of "c * dec_unit - a * b" "a * b"] by simp
  also have "\<dots> \<le> dec_unit + \<bar>a * b\<bar>" using half_le [OF near] by simp
  also have "\<bar>a * b\<bar> \<le> dec_unit * \<bar>b\<bar>"
    unfolding abs_mult using assms(3) by (intro mult_right_mono) auto
  finally have "\<bar>c\<bar> * dec_unit \<le> (\<bar>b\<bar> + 1) * dec_unit" by (simp add: abs_mult algebra_simps)
  then show ?thesis by simp
qed

lemma abs_mult_less:
  fixes a b x y :: int
  assumes "\<bar>a\<bar> \<le> x" "\<bar>b\<bar> \<le> y" "x * y < z"
  shows "\<bar>a * b\<bar> < z"
proof -
  have "\<bar>a\<bar> * \<bar>b\<bar> \<le> x * y"
    using assms(1,2) abs_ge_zero [of a] abs_ge_zero [of b] by (intro mult_mono) linarith+
  with assms(3) show ?thesis by (simp add: abs_mult)
qed

lemma uint64_bound: "uint (w :: u64) < 2 ^ 64" "0 \<le> uint (w :: u64)"
  using uint_lt2p [of w] by simp_all

lemma dec_of_uint_bound: "0 \<le> dec_of_int (uint (w :: u64))" "dec_of_int (uint (w :: u64)) \<le> 2 ^ 64 * 10 ^ 18"
proof -
  have "uint w * 10 ^ 18 \<le> 2 ^ 64 * 10 ^ 18"
    using uint64_bound [of w] by (intro mult_right_mono) simp_all
  then show "dec_of_int (uint w) \<le> 2 ^ 64 * 10 ^ 18" by (simp add: dec_of_int_def dec_unit_def)
qed simp

lemma dTruncateInt_nonneg: "dec_laws L \<Longrightarrow> 0 \<le> d \<Longrightarrow> dTruncateInt L d = d div dec_unit"
  by (cases "d = 0") (auto simp: dec_laws_def dec_round_laws_def)

lemma dTruncateInt_int [simp]: "dec_laws L \<Longrightarrow> dTruncateInt L (dec_of_int n) = n"
  by (simp add: dec_laws_def dec_round_laws_def dec_of_int_def abs_mult sgn_mult sgn_mult_abs)

lemma iInt64_eq: "dec_laws L \<Longrightarrow> iInt64 L n = (if in_int64 n then Some n else None)"
  by (simp add: dec_laws_def dec_round_laws_def)

lemma dOfStr_dStr [simp]: "dec_laws L \<Longrightarrow> dOfStr L (dStr L d) = Some d"
  by (simp add: dec_laws_def dec_misc_laws_def)

lemma dApproxRoot_nonpos: "dec_laws L \<Longrightarrow> dApproxRoot L d k = Some r \<Longrightarrow> d \<le> 0 \<Longrightarrow> r \<le> 0"
  by (simp add: dec_laws_def dec_misc_laws_def)


lemma dRoundInt_int [simp]: "dec_laws L \<Longrightarrow> dRoundInt L (dec_of_int n) = n"
  by (rule nearest_exact [of _ dec_unit]) (auto simp: dec_laws_def dec_round_laws_def dec_of_int_def)

lemma dCeil_result:
  assumes "dec_laws L" "dCeil L d = Some c"
  shows "\<exists>n. c = dec_of_int n \<and> d \<le> c \<and> c < d + dec_unit"
proof -
  have "dec_unit dvd c \<and> d \<le> c \<and> c < d + dec_unit"
    using assms by (auto simp: dec_laws_def dec_round_laws_def)
  then show ?thesis by (auto simp: dec_of_int_def dvd_def mult.commute)
qed

lemma dCeil_total: "dec_laws L \<Longrightarrow> \<bar>d\<bar> < dec_bound \<Longrightarrow> \<exists>c. dCeil L d = Some c"
  unfolding dec_laws_def dec_round_laws_def by (metis not_Some_eq)

section \<open>Coins\<close>

text \<open>
  A \<open>sdk.Coin\<close> is a denomination and an amount; \<open>sdk.Coins\<close> is a slice of them, which the
  code also indexes and ranges over. A \<open>sdk.DecCoin\<close> has a decimal amount. \<open>None\<close> is a
  panic, but for \<open>CoinsFind\<close> where it is \<open>found = false\<close>.
\<close>

record coin =
  Denom :: string
  Amount :: int

record deccoin =
  dcDenom :: string
  dcAmount :: dec

type_synonym coins = "coin list"
type_synonym deccoins = "deccoin list"

record coins_lib =
  NewCoin :: "string \<Rightarrow> int \<Rightarrow> coin option"
  NewCoins :: "coins \<Rightarrow> coins option"
  CoinsAdd :: "coins \<Rightarrow> coins \<Rightarrow> coins option"
  AmountOf :: "coins \<Rightarrow> string \<Rightarrow> int option"
  CoinsFind :: "coins \<Rightarrow> string \<Rightarrow> coin option"
  IsAllGTE :: "coins \<Rightarrow> coins \<Rightarrow> bool"
  CoinIsGTE :: "coin \<Rightarrow> coin \<Rightarrow> bool option"
  CoinIsNil :: "coin \<Rightarrow> bool"
  CoinValid :: "coin \<Rightarrow> bool"
  CoinsIsZero :: "coins \<Rightarrow> bool"
  CoinsIsValid :: "coins \<Rightarrow> bool"
  IsAllPositive :: "coins \<Rightarrow> bool"
  IsAnyNegative :: "coins \<Rightarrow> bool"
  NewDecCoinFromDec :: "string \<Rightarrow> dec \<Rightarrow> deccoin option"
  NewDecCoins :: "deccoins \<Rightarrow> deccoins option"
  DecCoinsAdd :: "deccoins \<Rightarrow> deccoins \<Rightarrow> deccoins option"

text \<open>The total amount of a denomination in a slice of coins.\<close>

definition amt :: "coins \<Rightarrow> string \<Rightarrow> int" where
  "amt cs d = sum_list (map Amount (filter (\<lambda>c. Denom c = d) cs))"

lemma amt_Nil [simp]: "amt [] d = 0"
  and amt_Cons: "amt (c # cs) d = (if Denom c = d then Amount c else 0) + amt cs d"
  by (simp_all add: amt_def)

lemma amt_append [simp]: "amt (as @ bs) d = amt as d + amt bs d"
  by (simp add: amt_def)

text \<open>
  Valid coins have distinct denominations and positive amounts. \<open>NewCoins\<close> of valid coins
  is the coins; adding valid coins adds per denomination; \<open>IsAllGTE\<close> compares per
  denomination of its argument.
\<close>

definition coins_laws :: "coins_lib \<Rightarrow> bool" where
  "coins_laws C \<longleftrightarrow>
     CoinsIsValid C [] \<and>
     (\<forall>cs. CoinsIsValid C cs \<longrightarrow> distinct (map Denom cs) \<and> (\<forall>c \<in> set cs. 0 < Amount c)) \<and>
     (\<forall>cs. CoinsIsValid C cs \<longrightarrow> NewCoins C cs = Some cs) \<and>
     (\<forall>cs cs'. NewCoins C cs = Some cs' \<longrightarrow> CoinsIsValid C cs' \<and> (\<forall>d. amt cs' d = amt cs d)) \<and>
     (\<forall>as bs. CoinsIsValid C as \<longrightarrow> CoinsIsValid C bs \<longrightarrow>
        (\<exists>cs. CoinsAdd C as bs = Some cs \<and> CoinsIsValid C cs \<and> (\<forall>d. amt cs d = amt as d + amt bs d))) \<and>
     (\<forall>as bs. CoinsIsValid C as \<longrightarrow> CoinsIsValid C bs \<longrightarrow>
        IsAllGTE C as bs = (\<forall>b \<in> set bs. Amount b \<le> amt as (Denom b))) \<and>
     (\<forall>cs d. CoinsIsValid C cs \<longrightarrow>
        CoinsFind C cs d = (case filter (\<lambda>c. Denom c = d) cs of [] \<Rightarrow> None | c # _ \<Rightarrow> Some c)) \<and>
     (\<forall>c c'. CoinIsGTE C c c' = (if Denom c = Denom c' then Some (Amount c' \<le> Amount c) else None)) \<and>
     (\<forall>d n c. NewCoin C d n = Some c \<longrightarrow> c = \<lparr>Denom = d, Amount = n\<rparr> \<and> 0 \<le> n) \<and>
     (\<forall>cs c n. CoinsIsValid C cs \<longrightarrow> c \<in> set cs \<longrightarrow> 0 \<le> n \<longrightarrow> NewCoin C (Denom c) n \<noteq> None) \<and>
     (\<forall>cs ds c. CoinsIsValid C cs \<longrightarrow> CoinsIsValid C ds \<longrightarrow> c \<in> set ds \<longrightarrow>
        AmountOf C cs (Denom c) = Some (amt cs (Denom c))) \<and>
     (\<forall>d r c. NewDecCoinFromDec C d r = Some c \<longrightarrow> c = \<lparr>dcDenom = d, dcAmount = r\<rparr> \<and> 0 \<le> r)"

lemma coins_valid_Nil: "coins_laws C \<Longrightarrow> CoinsIsValid C []"
  by (simp add: coins_laws_def)

lemma coins_valid_pos: "coins_laws C \<Longrightarrow> CoinsIsValid C cs \<Longrightarrow> c \<in> set cs \<Longrightarrow> 0 < Amount c"
  by (simp add: coins_laws_def)

lemma coins_valid_distinct: "coins_laws C \<Longrightarrow> CoinsIsValid C cs \<Longrightarrow> distinct (map Denom cs)"
  by (simp add: coins_laws_def)

lemma NewCoins_valid: "coins_laws C \<Longrightarrow> CoinsIsValid C cs \<Longrightarrow> NewCoins C cs = Some cs"
  by (simp add: coins_laws_def)

lemma NewCoins_result:
  "coins_laws C \<Longrightarrow> NewCoins C cs = Some cs' \<Longrightarrow> CoinsIsValid C cs' \<and> (\<forall>d. amt cs' d = amt cs d)"
  unfolding coins_laws_def by (elim conjE) metis

lemma CoinsAdd_valid:
  "coins_laws C \<Longrightarrow> CoinsIsValid C as \<Longrightarrow> CoinsIsValid C bs \<Longrightarrow>
     \<exists>cs. CoinsAdd C as bs = Some cs \<and> CoinsIsValid C cs \<and> (\<forall>d. amt cs d = amt as d + amt bs d)"
  unfolding coins_laws_def by (elim conjE) metis

lemma IsAllGTE_iff:
  "coins_laws C \<Longrightarrow> CoinsIsValid C as \<Longrightarrow> CoinsIsValid C bs \<Longrightarrow>
     IsAllGTE C as bs \<longleftrightarrow> (\<forall>b \<in> set bs. Amount b \<le> amt as (Denom b))"
  by (simp add: coins_laws_def)

lemma CoinIsGTE_eq:
  "coins_laws C \<Longrightarrow> CoinIsGTE C c c' = (if Denom c = Denom c' then Some (Amount c' \<le> Amount c) else None)"
  by (simp add: coins_laws_def)

lemma NewCoin_result: "coins_laws C \<Longrightarrow> NewCoin C d n = Some c \<Longrightarrow> c = \<lparr>Denom = d, Amount = n\<rparr> \<and> 0 \<le> n"
  unfolding coins_laws_def by (elim conjE) metis

lemma NewDecCoinFromDec_result:
  "coins_laws C \<Longrightarrow> NewDecCoinFromDec C d r = Some c \<Longrightarrow> c = \<lparr>dcDenom = d, dcAmount = r\<rparr> \<and> 0 \<le> r"
  unfolding coins_laws_def by (elim conjE) metis

lemma amt_member: "distinct (map Denom cs) \<Longrightarrow> c \<in> set cs \<Longrightarrow> amt cs (Denom c) = Amount c"
proof (induction cs)
  case Nil
  then show ?case by simp
next
  case (Cons a cs)
  show ?case
  proof (cases "Denom a = Denom c")
    case True
    with Cons.prems have "c = a" and "filter (\<lambda>x. Denom x = Denom a) cs = []"
      by (auto simp: filter_empty_conv image_iff)
    then show ?thesis by (simp add: amt_def)
  next
    case False
    with Cons show ?thesis by (auto simp: amt_Cons)
  qed
qed

lemma amt_absent: "d \<notin> Denom ` set cs \<Longrightarrow> amt cs d = 0"
  by (induction cs) (auto simp: amt_Cons)

text \<open>Valid coins with one denomination are one coin.\<close>

lemma single_coin:
  assumes C: "coins_laws C" and v: "CoinsIsValid C cs" and ne: "cs \<noteq> []"
    and a: "\<And>d. amt cs d = (if d = e then n else 0)" and n: "0 < n"
  shows "hd cs = \<lparr>Denom = e, Amount = n\<rparr>"
proof -
  have c: "hd cs \<in> set cs" using ne by simp
  have "amt cs (Denom (hd cs)) = Amount (hd cs)" "0 < Amount (hd cs)"
    using amt_member [OF coins_valid_distinct [OF C v] c] coins_valid_pos [OF C v c] by auto
  then show ?thesis using a [of "Denom (hd cs)"] by (cases "hd cs") (auto split: if_splits)
qed

section \<open>Accounts and the bank keeper\<close>

text \<open>
  An account address is a byte string; \<open>AccAddressFromBech32\<close> and \<open>String\<close> convert it.
  The bank keeper works on the part of the chain state the modules do not own, of type
  \<open>'x\<close>. The account of a module has an address like any other; its balance is observed by
  the name of the module.
\<close>

type_synonym addr = "8 word list"

record addr_lib =
  FromBech32 :: "string \<Rightarrow> addr option"
  ToBech32 :: "addr \<Rightarrow> string"

definition addr_laws :: "addr_lib \<Rightarrow> bool" where
  "addr_laws A \<longleftrightarrow> (\<forall>a. FromBech32 A (ToBech32 A a) = Some a)"

record 'x bank_lib =
  SendToModule :: "addr \<Rightarrow> string \<Rightarrow> coins \<Rightarrow> 'x \<Rightarrow> 'x res"
  SendFromModule :: "string \<Rightarrow> addr \<Rightarrow> coins \<Rightarrow> 'x \<Rightarrow> 'x res"
  BurnCoins :: "string \<Rightarrow> coins \<Rightarrow> 'x \<Rightarrow> 'x res"
  MintCoins :: "string \<Rightarrow> coins \<Rightarrow> 'x \<Rightarrow> 'x res"
  GetSupply :: "'x \<Rightarrow> string \<Rightarrow> int"
  ModuleAddr :: "string \<Rightarrow> addr"
  AccBalance :: "'x \<Rightarrow> addr \<Rightarrow> string \<Rightarrow> int"
  BlockedAddr :: "addr \<Rightarrow> bool"

definition ModBalance :: "'x bank_lib \<Rightarrow> 'x \<Rightarrow> string \<Rightarrow> string \<Rightarrow> int" where
  "ModBalance B x m = AccBalance B x (ModuleAddr B m)"

text \<open>
  What the modules rely on: a transfer takes exactly its coins from the sender, gives them to
  the recipient (who may be the sender) and changes no supply; a burn and a mint change the
  balance of the module and the supply by exactly their coins; and a transfer out of, or a burn
  from, a module account succeeds when the account holds the coins (and, for the transfer, the
  recipient is not blocked).
\<close>

definition transfers :: "'x bank_lib \<Rightarrow> addr \<Rightarrow> addr \<Rightarrow> coins \<Rightarrow> 'x \<Rightarrow> 'x \<Rightarrow> bool" where
  "transfers B a b cs x x' \<longleftrightarrow>
     (\<forall>c d. AccBalance B x' c d =
        AccBalance B x c d - (if c = a then amt cs d else 0) + (if c = b then amt cs d else 0)) \<and>
     GetSupply B x' = GetSupply B x"

definition bank_laws :: "coins_lib \<Rightarrow> 'x bank_lib \<Rightarrow> bool" where
  "bank_laws C B \<longleftrightarrow>
     (\<forall>a m cs x x'. CoinsIsValid C cs \<longrightarrow> SendToModule B a m cs x = Ok x' \<longrightarrow>
        transfers B a (ModuleAddr B m) cs x x') \<and>
     (\<forall>a m cs x x'. CoinsIsValid C cs \<longrightarrow> SendFromModule B m a cs x = Ok x' \<longrightarrow>
        transfers B (ModuleAddr B m) a cs x x') \<and>
     (\<forall>a m cs x. CoinsIsValid C cs \<longrightarrow> \<not> BlockedAddr B a \<longrightarrow> (\<forall>d. amt cs d \<le> ModBalance B x m d) \<longrightarrow>
        (\<exists>x'. SendFromModule B m a cs x = Ok x')) \<and>
     (\<forall>m cs x x'. CoinsIsValid C cs \<longrightarrow> BurnCoins B m cs x = Ok x' \<longrightarrow>
        (\<forall>c d. AccBalance B x' c d = AccBalance B x c d - (if c = ModuleAddr B m then amt cs d else 0)) \<and>
        (\<forall>d. GetSupply B x' d = GetSupply B x d - amt cs d)) \<and>
     (\<forall>m cs x. CoinsIsValid C cs \<longrightarrow> (\<forall>d. amt cs d \<le> ModBalance B x m d) \<longrightarrow>
        (\<exists>x'. BurnCoins B m cs x = Ok x')) \<and>
     (\<forall>m cs x x'. CoinsIsValid C cs \<longrightarrow> MintCoins B m cs x = Ok x' \<longrightarrow>
        (\<forall>c d. AccBalance B x' c d = AccBalance B x c d + (if c = ModuleAddr B m then amt cs d else 0)) \<and>
        (\<forall>d. GetSupply B x' d = GetSupply B x d + amt cs d))"

lemma SendToModule_result:
  "bank_laws C B \<Longrightarrow> CoinsIsValid C cs \<Longrightarrow> SendToModule B a m cs x = Ok x' \<Longrightarrow>
     (\<forall>c d. AccBalance B x' c d =
        AccBalance B x c d - (if c = a then amt cs d else 0) + (if c = ModuleAddr B m then amt cs d else 0)) \<and>
     GetSupply B x' = GetSupply B x"
  unfolding bank_laws_def transfers_def by (elim conjE) metis

lemma SendFromModule_result:
  "bank_laws C B \<Longrightarrow> CoinsIsValid C cs \<Longrightarrow> SendFromModule B m a cs x = Ok x' \<Longrightarrow>
     (\<forall>c d. AccBalance B x' c d =
        AccBalance B x c d - (if c = ModuleAddr B m then amt cs d else 0) + (if c = a then amt cs d else 0)) \<and>
     GetSupply B x' = GetSupply B x"
  unfolding bank_laws_def transfers_def by (elim conjE) metis

lemma SendFromModule_total:
  "bank_laws C B \<Longrightarrow> CoinsIsValid C cs \<Longrightarrow> \<not> BlockedAddr B a \<Longrightarrow>
     (\<And>d. amt cs d \<le> ModBalance B x m d) \<Longrightarrow> \<exists>x'. SendFromModule B m a cs x = Ok x'"
  unfolding bank_laws_def by (elim conjE) metis

lemma BurnCoins_result:
  "bank_laws C B \<Longrightarrow> CoinsIsValid C cs \<Longrightarrow> BurnCoins B m cs x = Ok x' \<Longrightarrow>
     (\<forall>c d. AccBalance B x' c d = AccBalance B x c d - (if c = ModuleAddr B m then amt cs d else 0)) \<and>
     (\<forall>d. GetSupply B x' d = GetSupply B x d - amt cs d)"
  unfolding bank_laws_def by (elim conjE) metis

lemma BurnCoins_total:
  "bank_laws C B \<Longrightarrow> CoinsIsValid C cs \<Longrightarrow>
     (\<And>d. amt cs d \<le> ModBalance B x m d) \<Longrightarrow> \<exists>x'. BurnCoins B m cs x = Ok x'"
  unfolding bank_laws_def by (elim conjE) metis

lemma MintCoins_result:
  "bank_laws C B \<Longrightarrow> CoinsIsValid C cs \<Longrightarrow> MintCoins B m cs x = Ok x' \<Longrightarrow>
     (\<forall>c d. AccBalance B x' c d = AccBalance B x c d + (if c = ModuleAddr B m then amt cs d else 0)) \<and>
     (\<forall>d. GetSupply B x' d = GetSupply B x d + amt cs d)"
  unfolding bank_laws_def by (elim conjE) metis

end
