(* ===== verification/Sdk_Instance.thy ===== *)
theory Sdk_Instance
  imports Sdk
begin

text \<open>
  Concrete library records that satisfy \<open>dec_laws\<close>, \<open>coins_laws\<close>, \<open>addr_laws\<close> and
  \<open>bank_laws\<close>: unbounded fixed-point arithmetic, coins as sorted lists, a bank that is a
  table of balances. No definition of the model depends on them: the witnesses of the
  properties apply the theorems to them.
\<close>

section \<open>Decimals\<close>

definition round_div :: "int \<Rightarrow> int \<Rightarrow> int" where
  "round_div x u = (2 * x + u) div (2 * u)"

lemma round_div_near: "0 < u \<Longrightarrow> 2 * \<bar>round_div x u * u - x\<bar> \<le> u"
proof -
  assume u: "0 < u"
  have "(2 * x + u) div (2 * u) * (2 * u) + (2 * x + u) mod (2 * u) = 2 * x + u"
    by (rule div_mult_mod_eq)
  moreover have "0 \<le> (2 * x + u) mod (2 * u)" "(2 * x + u) mod (2 * u) < 2 * u"
    using u by simp_all
  ultimately show ?thesis
    unfolding round_div_def by (simp add: abs_if mult.left_commute split: if_splits)
qed

text \<open>A number is written with its sign and its decimal digits, in units of the last place.\<close>

fun digits_of :: "nat \<Rightarrow> string" where
  "digits_of n = (if n < 10 then [char_of (48 + n)] else digits_of (n div 10) @ [char_of (48 + n mod 10)])"

declare digits_of.simps [simp del]

definition read_digits :: "string \<Rightarrow> nat" where
  "read_digits s = foldl (\<lambda>n c. 10 * n + (of_char c - 48)) 0 s"

lemma of_char_digit: "n < 10 \<Longrightarrow> of_char (char_of (48 + n :: nat) :: char) = (48 + n :: nat)"
  by (simp add: of_char_of)

lemma read_digits_of: "read_digits (digits_of n) = n"
proof (induction n rule: digits_of.induct)
  case (1 n)
  show ?case
  proof (cases "n < 10")
    case True
    then show ?thesis by (simp add: digits_of.simps [of n] read_digits_def of_char_digit)
  next
    case False
    with 1 have "read_digits (digits_of (n div 10)) = n div 10" by simp
    with False show ?thesis
      by (simp add: digits_of.simps [of n] read_digits_def of_char_digit)
  qed
qed

lemma digits_of_head: "\<exists>c cs. digits_of n = c # cs \<and> c \<noteq> CHR ''-''"
proof (induction n rule: digits_of.induct)
  case (1 n)
  have digit: "char_of (48 + k :: nat) \<noteq> CHR ''-''" if "k < 10" for k
  proof
    assume "char_of (48 + k) = CHR ''-''"
    then have "of_char (char_of (48 + k) :: char) = (of_char (CHR ''-'') :: nat)" by simp
    then show False using of_char_digit [OF that] by simp
  qed
  show ?case
  proof (cases "n < 10")
    case True
    then show ?thesis using digit [of n] by (simp add: digits_of.simps [of n])
  next
    case False
    with 1 obtain c cs where "digits_of (n div 10) = c # cs" "c \<noteq> CHR ''-''" by auto
    with False show ?thesis by (simp add: digits_of.simps [of n])
  qed
qed

definition show_dec :: "dec \<Rightarrow> string" where
  "show_dec d = (if d < 0 then CHR ''-'' # digits_of (nat (- d)) else digits_of (nat d))"

fun read_dec :: "string \<Rightarrow> dec option" where
  "read_dec [] = None"
| "read_dec (c # s) =
     (if c = CHR ''-'' then Some (- int (read_digits s)) else Some (int (read_digits (c # s))))"

lemma read_show_dec: "read_dec (show_dec d) = Some d"
proof (cases "d < 0")
  case True
  then show ?thesis by (simp add: show_dec_def read_digits_of)
next
  case False
  obtain c cs where "digits_of (nat d) = c # cs" "c \<noteq> CHR ''-''"
    using digits_of_head by blast
  with False show ?thesis
    using read_digits_of [of "nat d"] by (simp add: show_dec_def)
qed

definition std_dec :: dec_lib where
  "std_dec = \<lparr>
     dAdd = (\<lambda>a b. Some (a + b)),
     dSub = (\<lambda>a b. Some (a - b)),
     dMul = (\<lambda>a b. Some (round_div (a * b) dec_unit)),
     dQuo = (\<lambda>a b. if b = 0 then None else Some (round_div (a * dec_unit * sgn b) \<bar>b\<bar>)),
     dMulInt = (\<lambda>a n. Some (a * n)),
     dMulInt64 = (\<lambda>a n. Some (a * n)),
     dQuoInt64 = (\<lambda>a n. if n = 0 then None else Some (sgn a * sgn n * (\<bar>a\<bar> div \<bar>n\<bar>))),
     dTruncateInt = (\<lambda>d. sgn d * (\<bar>d\<bar> div dec_unit)),
     dRoundInt = (\<lambda>d. round_div d dec_unit),
     dCeil = (\<lambda>d. Some (- ((- d) div dec_unit) * dec_unit)),
     dApproxRoot = (\<lambda>d k. if k = 1 then Some d else None),
     dOfStr = read_dec,
     dStr = show_dec,
     iInt64 = (\<lambda>n. if in_int64 n then Some n else None) \<rparr>"

lemma std_dec_simps [simp]:
  "dAdd std_dec a b = Some (a + b)"
  "dSub std_dec a b = Some (a - b)"
  "dMul std_dec a b = Some (round_div (a * b) dec_unit)"
  "dQuo std_dec a b = (if b = 0 then None else Some (round_div (a * dec_unit * sgn b) \<bar>b\<bar>))"
  "dMulInt std_dec a n = Some (a * n)"
  "dMulInt64 std_dec a n = Some (a * n)"
  "dQuoInt64 std_dec a n = (if n = 0 then None else Some (sgn a * sgn n * (\<bar>a\<bar> div \<bar>n\<bar>)))"
  "dTruncateInt std_dec a = sgn a * (\<bar>a\<bar> div dec_unit)"
  "dRoundInt std_dec a = round_div a dec_unit"
  "dCeil std_dec a = Some (- ((- a) div dec_unit) * dec_unit)"
  "dApproxRoot std_dec a k = (if k = 1 then Some a else None)"
  "dOfStr std_dec s = read_dec s"
  "dStr std_dec a = show_dec a"
  "iInt64 std_dec n = (if in_int64 n then Some n else None)"
  by (simp_all add: std_dec_def)

lemma std_quo_near:
  assumes "b \<noteq> 0"
  shows "2 * dec_unit * \<bar>round_div (a * dec_unit * sgn b) \<bar>b\<bar> * b - a * dec_unit\<bar> \<le> \<bar>b\<bar> * (dec_unit + 2)"
proof -
  define q where "q = round_div (a * dec_unit * sgn b) \<bar>b\<bar>"
  have near: "2 * \<bar>q * \<bar>b\<bar> - a * dec_unit * sgn b\<bar> \<le> \<bar>b\<bar>"
    unfolding q_def using assms by (intro round_div_near) simp
  have "\<bar>q * \<bar>b\<bar> - a * dec_unit * sgn b\<bar> = \<bar>q * b - a * dec_unit\<bar>"
    using assms by (cases "0 < b") (auto simp: abs_minus_commute)
  with near have "2 * \<bar>q * b - a * dec_unit\<bar> * dec_unit \<le> \<bar>b\<bar> * dec_unit"
    by (intro mult_right_mono) auto
  moreover have "\<bar>b\<bar> * dec_unit \<le> \<bar>b\<bar> * (dec_unit + 2)"
    by (intro mult_left_mono) auto
  ultimately have "2 * \<bar>q * b - a * dec_unit\<bar> * dec_unit \<le> \<bar>b\<bar> * (dec_unit + 2)"
    by (rule order_trans)
  then show ?thesis unfolding q_def by (simp add: mult.commute mult.left_commute)
qed

lemma std_ceil:
  "dec_unit dvd - ((- d) div dec_unit) * dec_unit \<and> d \<le> - ((- d) div dec_unit) * dec_unit \<and>
     - ((- d) div dec_unit) * dec_unit < d + dec_unit"
proof -
  have "(- d) div dec_unit * dec_unit + (- d) mod dec_unit = - d" by (rule div_mult_mod_eq)
  moreover have "0 \<le> (- d) mod dec_unit" "(- d) mod dec_unit < dec_unit" by simp_all
  ultimately have "d \<le> - ((- d) div dec_unit * dec_unit)" "- ((- d) div dec_unit * dec_unit) < d + dec_unit"
    by linarith+
  then show ?thesis by simp
qed

lemma std_dec_laws: "dec_laws std_dec"
  unfolding dec_laws_def
proof (intro conjI)
  show "dec_ring_laws std_dec"
    using round_div_near [OF dec_unit_pos] by (simp add: dec_ring_laws_def)
  show "dec_quo_laws std_dec"
    using std_quo_near by (auto simp: dec_quo_laws_def)
  show "dec_round_laws std_dec"
    using std_ceil round_div_near [OF dec_unit_pos] by (auto simp: dec_round_laws_def)
  show "dec_misc_laws std_dec"
    by (simp add: dec_misc_laws_def read_show_dec)
qed

section \<open>Coins\<close>

definition add_coin :: "coin \<Rightarrow> (string, int) kv \<Rightarrow> (string, int) kv" where
  "add_coin c m = kv_set (Denom c) ((case kv_get m (Denom c) of None \<Rightarrow> 0 | Some n \<Rightarrow> n) + Amount c) m"

definition coins_of_kv :: "(string, int) kv \<Rightarrow> coins" where
  "coins_of_kv m = map (\<lambda>(d, n). \<lparr>Denom = d, Amount = n\<rparr>) (filter (\<lambda>p. snd p \<noteq> 0) m)"

definition norm_coins :: "coins \<Rightarrow> coins" where
  "norm_coins cs = coins_of_kv (fold add_coin cs [])"

definition std_valid :: "coins \<Rightarrow> bool" where
  "std_valid cs \<longleftrightarrow> sorted_wrt (<) (map Denom cs) \<and> (\<forall>c \<in> set cs. 0 < Amount c \<and> Denom c \<noteq> [])"

definition std_coins :: coins_lib where
  "std_coins = \<lparr>
     NewCoin = (\<lambda>d n. if d = [] \<or> n < 0 then None else Some \<lparr>Denom = d, Amount = n\<rparr>),
     NewCoins = (\<lambda>cs. if std_valid cs then Some cs
        else if distinct (map Denom cs) \<and> (\<forall>c \<in> set cs. 0 \<le> Amount c \<and> Denom c \<noteq> [])
        then Some (norm_coins cs) else None),
     CoinsAdd = (\<lambda>as bs. Some (norm_coins (as @ bs))),
     AmountOf = (\<lambda>cs d. if d = [] then None else Some (amt cs d)),
     CoinsFind = (\<lambda>cs d. case filter (\<lambda>c. Denom c = d) cs of [] \<Rightarrow> None | c # _ \<Rightarrow> Some c),
     IsAllGTE = (\<lambda>as bs. \<forall>b \<in> set bs. Amount b \<le> amt as (Denom b)),
     CoinIsGTE = (\<lambda>c c'. if Denom c = Denom c' then Some (Amount c' \<le> Amount c) else None),
     CoinIsNil = (\<lambda>c. False),
     CoinValid = (\<lambda>c. Denom c \<noteq> [] \<and> 0 \<le> Amount c),
     CoinsIsZero = (\<lambda>cs. \<forall>c \<in> set cs. Amount c = 0),
     CoinsIsValid = std_valid,
     IsAllPositive = (\<lambda>cs. cs \<noteq> [] \<and> (\<forall>c \<in> set cs. 0 < Amount c)),
     IsAnyNegative = (\<lambda>cs. \<exists>c \<in> set cs. Amount c < 0),
     NewDecCoinFromDec = (\<lambda>d r. if d = [] \<or> r < 0 then None else Some \<lparr>dcDenom = d, dcAmount = r\<rparr>),
     NewDecCoins = (\<lambda>ds. Some (filter (\<lambda>c. dcAmount c \<noteq> 0) ds)),
     DecCoinsAdd = (\<lambda>as bs. Some (as @ bs)) \<rparr>"

lemma add_coin_get:
  "kv_get (add_coin c m) d = (if d = Denom c
     then Some ((case kv_get m d of None \<Rightarrow> 0 | Some n \<Rightarrow> n) + Amount c) else kv_get m d)"
  by (simp add: add_coin_def)

lemma add_coin_wf: "kv_wf m \<Longrightarrow> kv_wf (add_coin c m)"
  by (simp add: add_coin_def)

lemma fold_add_coin_wf: "kv_wf m \<Longrightarrow> kv_wf (fold add_coin cs m)"
  by (induction cs arbitrary: m) (simp_all add: add_coin_wf)

lemma fold_add_coin_get:
  "(case kv_get (fold add_coin cs m) d of None \<Rightarrow> 0 | Some n \<Rightarrow> n) =
     (case kv_get m d of None \<Rightarrow> 0 | Some n \<Rightarrow> n) + amt cs d"
  by (induction cs arbitrary: m) (simp_all add: add_coin_get amt_Cons)

lemma amt_coins_of_kv:
  "kv_wf m \<Longrightarrow> amt (coins_of_kv m) d = (case kv_get m d of None \<Rightarrow> 0 | Some n \<Rightarrow> n)"
proof (induction m)
  case Nil
  then show ?case by (simp add: coins_of_kv_def)
next
  case (Cons p m)
  obtain k n where p: "p = (k, n)" by (cases p)
  have IH: "amt (coins_of_kv m) d = (case kv_get m d of None \<Rightarrow> 0 | Some n \<Rightarrow> n)"
    using Cons by (simp add: p kv_wf_Cons)
  have "\<not> kv_has m k" using Cons.prems by (auto simp: p kv_wf_Cons kv_has_in_keys)
  then have "kv_get m k = None" by (simp add: kv_has_def)
  with IH show ?case by (auto simp: p coins_of_kv_def amt_Cons kv_get_def)
qed

lemma amt_norm_coins: "amt (norm_coins cs) d = amt cs d"
  using fold_add_coin_get [of cs "[]" d] by (simp add: norm_coins_def amt_coins_of_kv fold_add_coin_wf)

lemma coins_of_kv_valid:
  assumes "kv_wf m" "\<And>d n. (d, n) \<in> set m \<Longrightarrow> 0 \<le> n \<and> d \<noteq> []"
  shows "std_valid (coins_of_kv m)"
  using assms
proof (induction m)
  case Nil
  then show ?case by (simp add: coins_of_kv_def std_valid_def)
next
  case (Cons p m)
  obtain k n where p: "p = (k, n)" by (cases p)
  have "std_valid (coins_of_kv m)" using Cons by (auto simp: p kv_wf_Cons)
  moreover have "\<forall>c \<in> set (coins_of_kv m). k < Denom c"
    using Cons.prems(1) by (force simp: p kv_wf_Cons coins_of_kv_def)
  moreover have "0 \<le> n \<and> k \<noteq> []" using Cons.prems(2) [of k n] by (simp add: p)
  ultimately show ?case by (auto simp: p coins_of_kv_def std_valid_def)
qed

lemma fold_add_coin_entries:
  assumes "kv_wf m" "\<And>d n. (d, n) \<in> set m \<Longrightarrow> 0 \<le> n \<and> d \<noteq> []"
    and "\<forall>c \<in> set cs. 0 \<le> Amount c \<and> Denom c \<noteq> []"
  shows "(d, n) \<in> set (fold add_coin cs m) \<Longrightarrow> 0 \<le> n \<and> d \<noteq> []"
  using assms
proof (induction cs arbitrary: m)
  case Nil
  then show ?case by auto
next
  case (Cons c cs)
  have "0 \<le> n \<and> d \<noteq> []" if "(d, n) \<in> set (add_coin c m)" for d n
  proof -
    have "kv_get (add_coin c m) d = Some n"
      using that Cons.prems(2) by (simp add: kv_get_in_set add_coin_wf)
    then show ?thesis
      using Cons.prems(2-4) by (auto simp: add_coin_get kv_get_in_set split: if_splits option.splits)
  qed
  with Cons show ?case by (simp add: add_coin_wf)
qed

lemma norm_coins_valid:
  "\<forall>c \<in> set cs. 0 \<le> Amount c \<and> Denom c \<noteq> [] \<Longrightarrow> std_valid (norm_coins cs)"
  unfolding norm_coins_def
  by (rule coins_of_kv_valid) (auto simp: fold_add_coin_wf dest: fold_add_coin_entries [rotated -1])

lemma std_valid_Nil: "std_valid []"
  by (simp add: std_valid_def)

lemma std_valid_distinct: "std_valid cs \<Longrightarrow> distinct (map Denom cs)"
  by (simp add: std_valid_def strict_sorted_iff)

lemma std_coins_laws: "coins_laws std_coins"
proof -
  have add: "std_valid as \<Longrightarrow> std_valid bs \<Longrightarrow> std_valid (norm_coins (as @ bs))" for as bs
    by (rule norm_coins_valid) (auto simp: std_valid_def order.strict_implies_order)
  show ?thesis
    unfolding coins_laws_def std_coins_def
    by (auto simp: std_valid_Nil std_valid_distinct add amt_norm_coins norm_coins_valid
        split: if_splits) (auto simp: std_valid_def)
qed

section \<open>Accounts and the bank\<close>

definition std_addr :: addr_lib where
  "std_addr = \<lparr>FromBech32 = (\<lambda>s. if s = [] then None else Some (map (\<lambda>c. word_of_nat (of_char c)) (tl s))),
     ToBech32 = (\<lambda>a. CHR ''h'' # map (\<lambda>w. char_of (unat w)) a)\<rparr>"

lemma std_addr_laws: "addr_laws std_addr"
proof -
  have "word_of_nat (of_char (char_of (unat (w :: 8 word)) :: char)) = w" for w
  proof -
    have "unat w < 256" using unsigned_less [of w] by simp
    then show ?thesis by (simp add: of_char_of)
  qed
  then show ?thesis by (simp add: addr_laws_def std_addr_def comp_def)
qed

record std_state =
  xAcc :: "addr \<Rightarrow> string \<Rightarrow> int"
  xSup :: "string \<Rightarrow> int"

definition std_module_addr :: "string \<Rightarrow> addr" where
  "std_module_addr m = map (\<lambda>c. word_of_nat (of_char c)) m"

definition std_covers :: "coins \<Rightarrow> addr \<Rightarrow> std_state \<Rightarrow> bool" where
  "std_covers cs a x \<longleftrightarrow> (\<forall>c \<in> set cs. amt cs (Denom c) \<le> xAcc x a (Denom c))"

definition std_move :: "addr \<Rightarrow> addr \<Rightarrow> coins \<Rightarrow> std_state \<Rightarrow> std_state res" where
  "std_move a b cs x = (if std_covers cs a x
     then Ok (x\<lparr>xAcc := (\<lambda>c d. xAcc x c d - (if c = a then amt cs d else 0) + (if c = b then amt cs d else 0))\<rparr>)
     else Err ErrInsufficientFunds)"

definition std_bank :: "std_state bank_lib" where
  "std_bank = \<lparr>
     SendToModule = (\<lambda>a m. std_move a (std_module_addr m)),
     SendFromModule = (\<lambda>m a. std_move (std_module_addr m) a),
     BurnCoins = (\<lambda>m cs x. if std_covers cs (std_module_addr m) x
       then Ok (x\<lparr>xAcc := (\<lambda>c d. xAcc x c d - (if c = std_module_addr m then amt cs d else 0)),
                 xSup := (\<lambda>d. xSup x d - amt cs d)\<rparr>)
       else Err ErrInsufficientFunds),
     MintCoins = (\<lambda>m cs x. Ok (x\<lparr>xAcc := (\<lambda>c d. xAcc x c d + (if c = std_module_addr m then amt cs d else 0)),
                 xSup := (\<lambda>d. xSup x d + amt cs d)\<rparr>)),
     GetSupply = xSup,
     ModuleAddr = std_module_addr,
     AccBalance = xAcc,
     BlockedAddr = (\<lambda>a. False) \<rparr>"

lemma std_bank_laws: "bank_laws std_coins std_bank"
  by (auto simp: bank_laws_def std_bank_def std_move_def std_covers_def transfers_def ModBalance_def)

lemmas std_bank_defs = std_bank_def std_move_def std_covers_def std_module_addr_def ModBalance_def

end
