(* ===== verification/Gov_Params.thy ===== *)
theory Gov_Params
  imports Sdk_Instance "HOL-Library.Log_Nat"
begin

text \<open>
  \<open>x/gov/types/v1/params.go\<close>: the parameters of the governance module, their validation and
  their defaults. Decimals are kept as strings in the parameters; a nil pointer is \<open>None\<close>.
\<close>

section \<open>Durations in seconds\<close>

text \<open>
  \<open>Duration.Seconds\<close> is a \<open>float64\<close>: the whole seconds plus the rest divided by \<open>10^9\<close>, each
  operation rounded to 53 bits, to nearest, ties to even. All values here are below \<open>2^34\<close>
  seconds, so the unit in the last place is \<open>2^-s\<close> for a natural number \<open>s\<close>.
\<close>

definition round_half_even :: "rat \<Rightarrow> int" where
  "round_half_even y =
     (let r = \<lfloor>y\<rfloor>; f = y - of_int r in if 1 / 2 < f \<or> (f = 1 / 2 \<and> odd r) then r + 1 else r)"

definition float_shift :: "rat \<Rightarrow> nat" where
  "float_shift x =
     (let (p, q) = quotient_of x; k = int (floorlog 2 (nat p)) - int (floorlog 2 (nat q));
          s = nat (53 - k)
      in if x * 2 ^ s < 2 ^ 53 then s else s - 1)"

definition round64 :: "rat \<Rightarrow> rat" where
  "round64 x = (if x = 0 then 0
     else sgn x * of_int (round_half_even (\<bar>x\<bar> * 2 ^ float_shift \<bar>x\<bar>)) / 2 ^ float_shift \<bar>x\<bar>)"

definition second :: int where "second = 1000000000"
definition hour :: int where "hour = 3600 * second"

definition Seconds :: "duration \<Rightarrow> rat" where
  "Seconds d =
     (let sec = sgn d * (\<bar>d\<bar> div second); nsec = sgn d * (\<bar>d\<bar> mod second)
      in round64 (of_int sec + round64 (of_int nsec / of_int second)))"

section \<open>The parameters\<close>

record quorum_range =
  qrMax :: string
  qrMin :: string

text \<open>\<open>MinDepositThrottler\<close> and \<open>MinInitialDepositThrottler\<close>, which have the same fields.\<close>

record throttler =
  thFloorValue :: coins
  thUpdatePeriod :: "duration option"
  thTarget :: u64
  thIncreaseRatio :: string
  thDecreaseRatio :: string
  thDecreaseSensitivityTargetDistance :: u64

record gov_params =
  gpMinDeposit :: coins
  gpMaxDepositPeriod :: "duration option"
  gpVotingPeriod :: "duration option"
  gpQuorum :: string
  gpThreshold :: string
  gpMinInitialDepositRatio :: string
  gpBurnVoteQuorum :: bool
  gpBurnProposalDepositPrevote :: bool
  gpMinDepositRatio :: string
  gpConstitutionAmendmentQuorum :: string
  gpConstitutionAmendmentThreshold :: string
  gpLawQuorum :: string
  gpLawThreshold :: string
  gpQuorumTimeout :: "duration option"
  gpMaxVotingPeriodExtension :: "duration option"
  gpQuorumCheckCount :: u64
  gpMinDepositThrottler :: "throttler option"
  gpMinInitialDepositThrottler :: "throttler option"
  gpBurnDepositNoThreshold :: string
  gpQuorumRange :: "quorum_range option"
  gpConstitutionAmendmentQuorumRange :: "quorum_range option"
  gpLawQuorumRange :: "quorum_range option"

definition minVotingPeriod :: duration where "minVotingPeriod = 504 * hour"
definition DefaultVotingPeriod :: duration where "DefaultVotingPeriod = hour * 24 * 21"
definition DefaultDepositPeriod :: duration where "DefaultDepositPeriod = hour * 24 * 14"
definition maxDecreaseSensitivity :: u64 where "maxDecreaseSensitivity = 100"

text \<open>\<open>NewParams\<close>: the deprecated fields stay empty.\<close>

definition gov_NewParams ::
  "duration \<Rightarrow> duration \<Rightarrow> string \<Rightarrow> string \<Rightarrow> string \<Rightarrow> bool \<Rightarrow> bool \<Rightarrow> string \<Rightarrow> duration \<Rightarrow> duration \<Rightarrow> u64 \<Rightarrow>
   throttler \<Rightarrow> throttler \<Rightarrow> string \<Rightarrow> quorum_range \<Rightarrow> quorum_range \<Rightarrow> quorum_range \<Rightarrow> gov_params" where
  "gov_NewParams maxDepositPeriod votingPeriod threshold constitutionAmendmentThreshold lawThreshold
     burnProposalDeposit burnVoteQuorum minDepositRatio quorumTimeout maxVotingPeriodExtension quorumCheckCount
     minDepositThrottler minInitialDepositThrottler burnDepositNoThreshold quorumRange
     constitutionAmendmentQuorumRange lawQuorumRange =
     \<lparr> gpMinDeposit = [], gpMaxDepositPeriod = Some maxDepositPeriod, gpVotingPeriod = Some votingPeriod,
       gpQuorum = [], gpThreshold = threshold, gpMinInitialDepositRatio = [],
       gpBurnVoteQuorum = burnVoteQuorum, gpBurnProposalDepositPrevote = burnProposalDeposit,
       gpMinDepositRatio = minDepositRatio, gpConstitutionAmendmentQuorum = [],
       gpConstitutionAmendmentThreshold = constitutionAmendmentThreshold, gpLawQuorum = [],
       gpLawThreshold = lawThreshold, gpQuorumTimeout = Some quorumTimeout,
       gpMaxVotingPeriodExtension = Some maxVotingPeriodExtension, gpQuorumCheckCount = quorumCheckCount,
       gpMinDepositThrottler = Some minDepositThrottler,
       gpMinInitialDepositThrottler = Some minInitialDepositThrottler,
       gpBurnDepositNoThreshold = burnDepositNoThreshold, gpQuorumRange = Some quorumRange,
       gpConstitutionAmendmentQuorumRange = Some constitutionAmendmentQuorumRange,
       gpLawQuorumRange = Some lawQuorumRange \<rparr>"

text \<open>\<open>DefaultParams\<close>, for the bond denomination \<open>sdk.DefaultBondDenom\<close>.\<close>

definition gov_DefaultParams :: "dec_lib \<Rightarrow> string \<Rightarrow> gov_params" where
  "gov_DefaultParams L bondDenom =
     (let dec = (\<lambda>n p. dStr L (dec_with_prec n p));
          range = \<lparr>qrMax = dec 50 2, qrMin = dec 10 2\<rparr>;
          quorumTimeout = DefaultVotingPeriod - hour * 24 * 1
      in gov_NewParams DefaultDepositPeriod DefaultVotingPeriod (dec 667 3) (dec 9 1) (dec 9 1) False False
          (dec 1 2) quorumTimeout (DefaultVotingPeriod - quorumTimeout) 0
          \<lparr>thFloorValue = [\<lparr>Denom = bondDenom, Amount = 10000000\<rparr>], thUpdatePeriod = Some (hour * 24 * 7),
            thTarget = 2, thIncreaseRatio = dec 5 2, thDecreaseRatio = dec 25 3,
            thDecreaseSensitivityTargetDistance = 2\<rparr>
          \<lparr>thFloorValue = [\<lparr>Denom = bondDenom, Amount = 100000\<rparr>], thUpdatePeriod = Some (hour * 24),
            thTarget = 5, thIncreaseRatio = dec 1 2, thDecreaseRatio = dec 5 3,
            thDecreaseSensitivityTargetDistance = 2\<rparr>
          (dec 80 2) range range range)"

text \<open>The parameters when the store has none: the zero value.\<close>

definition gov_zero_params :: gov_params where
  "gov_zero_params = \<lparr> gpMinDeposit = [], gpMaxDepositPeriod = None, gpVotingPeriod = None,
       gpQuorum = [], gpThreshold = [], gpMinInitialDepositRatio = [],
       gpBurnVoteQuorum = False, gpBurnProposalDepositPrevote = False,
       gpMinDepositRatio = [], gpConstitutionAmendmentQuorum = [],
       gpConstitutionAmendmentThreshold = [], gpLawQuorum = [],
       gpLawThreshold = [], gpQuorumTimeout = None,
       gpMaxVotingPeriodExtension = None, gpQuorumCheckCount = 0,
       gpMinDepositThrottler = None, gpMinInitialDepositThrottler = None,
       gpBurnDepositNoThreshold = [], gpQuorumRange = None,
       gpConstitutionAmendmentQuorumRange = None, gpLawQuorumRange = None \<rparr>"

section \<open>Validation\<close>

text \<open>
  \<open>ValidateBasic\<close>, in the order of the code: the deprecated fields and the deposit period,
  the quorum ranges, the thresholds, the voting period with the quorum check, the two
  throttlers, the burn threshold. A nil pointer that the code follows is a panic.
\<close>

definition Params_deprecated :: "dec_lib \<Rightarrow> coins_lib \<Rightarrow> gov_params \<Rightarrow> unit res" where
  "Params_deprecated L C p =
     bindR (failIf (gpMinDeposit p \<noteq> []) (ErrText ''manually setting min deposit is deprecated'')) (\<lambda>_.
     bindR (failIf (gpQuorum p \<noteq> []) (ErrText ''manually setting quorum is deprecated'')) (\<lambda>_.
     bindR (failIf (gpConstitutionAmendmentQuorum p \<noteq> []) (ErrText ''manually setting constitutionAmendmentQuorum is deprecated'')) (\<lambda>_.
     bindR (failIf (gpLawQuorum p \<noteq> []) (ErrText ''manually setting lawQuorum is deprecated'')) (\<lambda>_.
     bindR (failIf (gpMaxDepositPeriod p = None) (ErrText ''maximum deposit period must not be nil'')) (\<lambda>_.
     bindR (must (gpMaxDepositPeriod p)) (\<lambda>mdp.
     failIf (Seconds mdp \<le> 0) (ErrText ''maximum deposit period must be positive'')))))))"

definition quorum_value_ok :: "dec_lib \<Rightarrow> string \<Rightarrow> unit res" where
  "quorum_value_ok L q =
     bindR (orErr (ErrText ''invalid quorum string'') (dOfStr L q)) (\<lambda>quorum.
     bindR (failIf (quorum < 0) (ErrText ''quorum must be positive'')) (\<lambda>_.
     failIf (dec_one < quorum) (ErrText ''quorum too large'')))"

definition range_order_ok :: "dec_lib \<Rightarrow> quorum_range \<Rightarrow> unit res" where
  "range_order_ok L r =
     bindR (must (dOfStr L (qrMax r))) (\<lambda>mx.
     bindR (must (dOfStr L (qrMin r))) (\<lambda>mn.
     failIf (mx < mn) (ErrText ''quorum range max must be at least min'')))"

definition Params_quorums :: "dec_lib \<Rightarrow> coins_lib \<Rightarrow> gov_params \<Rightarrow> unit res" where
  "Params_quorums L C p =
     bindR (must (gpQuorumRange p)) (\<lambda>q.
     bindR (must (gpConstitutionAmendmentQuorumRange p)) (\<lambda>ca.
     bindR (must (gpLawQuorumRange p)) (\<lambda>law.
     bindR (foldR (\<lambda>s _. quorum_value_ok L s) [qrMin q, qrMax q, qrMin ca, qrMax ca, qrMin law, qrMax law] ()) (\<lambda>_.
     bindR (range_order_ok L q) (\<lambda>_.
     bindR (range_order_ok L ca) (\<lambda>_.
     range_order_ok L law))))))"

definition Params_thresholds :: "dec_lib \<Rightarrow> coins_lib \<Rightarrow> gov_params \<Rightarrow> (dec \<times> dec \<times> dec) res" where
  "Params_thresholds L C p =
     bindR (orErr (ErrText ''invalid threshold string'') (dOfStr L (gpThreshold p))) (\<lambda>threshold.
     bindR (failIf (\<not> 0 < threshold) (ErrText ''vote threshold must be positive'')) (\<lambda>_.
     bindR (failIf (dec_one < threshold) (ErrText ''vote threshold too large'')) (\<lambda>_.
     bindR (orErr (ErrText ''invalid constitution amendment threshold string'') (dOfStr L (gpConstitutionAmendmentThreshold p))) (\<lambda>amendmentThreshold.
     bindR (failIf (\<not> 0 < amendmentThreshold) (ErrText ''constitution amendment threshold must be positive'')) (\<lambda>_.
     bindR (failIf (dec_one < amendmentThreshold) (ErrText ''constitution amendment threshold too large'')) (\<lambda>_.
     bindR (failIf (amendmentThreshold < threshold) (ErrText ''constitution amendment threshold below governance threshold'')) (\<lambda>_.
     bindR (orErr (ErrText ''invalid law threshold string'') (dOfStr L (gpLawThreshold p))) (\<lambda>lawThreshold.
     bindR (failIf (\<not> 0 < lawThreshold) (ErrText ''law threshold must be positive'')) (\<lambda>_.
     bindR (failIf (dec_one < lawThreshold) (ErrText ''law threshold too large'')) (\<lambda>_.
     bindR (failIf (lawThreshold < threshold) (ErrText ''law threshold below governance threshold'')) (\<lambda>_.
     bindR (failIf (amendmentThreshold < lawThreshold) (ErrText ''law threshold above constitution amendment threshold'')) (\<lambda>_.
     Ok (threshold, amendmentThreshold, lawThreshold)))))))))))))"

definition Params_voting :: "dec_lib \<Rightarrow> coins_lib \<Rightarrow> gov_params \<Rightarrow> unit res" where
  "Params_voting L C p =
     bindR (failIf (gpVotingPeriod p = None) (ErrText ''voting period must not be nil'')) (\<lambda>_.
     bindR (must (gpVotingPeriod p)) (\<lambda>vp.
     bindR (failIf (Seconds vp < Seconds minVotingPeriod) (ErrText ''voting period too short'')) (\<lambda>_.
     bindR (failIf (gpMinInitialDepositRatio p \<noteq> []) (ErrText ''manually setting min initial deposit ratio is deprecated'')) (\<lambda>_.
     bindR (orErr (ErrText ''invalid mininum deposit ratio of proposal'') (dOfStr L (gpMinDepositRatio p))) (\<lambda>minDepositRatio.
     bindR (failIf (minDepositRatio < 0) (ErrText ''mininum deposit ratio of proposal must be positive'')) (\<lambda>_.
     bindR (failIf (dec_one < minDepositRatio) (ErrText ''mininum deposit ratio of proposal is too large'')) (\<lambda>_.
     if \<not> 0 < gpQuorumCheckCount p then Ok () else
     bindR (failIf (gpQuorumTimeout p = None) (ErrText ''quorum timeout must not be nil'')) (\<lambda>_.
     bindR (must (gpQuorumTimeout p)) (\<lambda>qt.
     bindR (failIf (Seconds qt < 0) (ErrText ''quorum timeout must be 0 or greater'')) (\<lambda>_.
     bindR (failIf (vp \<le> qt) (ErrText ''quorum timeout must be less than the voting period'')) (\<lambda>_.
     bindR (failIf (gpMaxVotingPeriodExtension p = None) (ErrText ''max voting period extension must not be nil'')) (\<lambda>_.
     bindR (must (gpMaxVotingPeriodExtension p)) (\<lambda>ext.
     failIf (ext < wrap_int64 (vp - qt)) (ErrText ''max voting period extension too short''))))))))))))))"

definition throttler_ok :: "dec_lib \<Rightarrow> coins_lib \<Rightarrow> duration option \<Rightarrow> throttler option \<Rightarrow> unit res" where
  "throttler_ok L C votingPeriod throttler =
     bindR (orErr (ErrText ''throttler must not be nil'') throttler) (\<lambda>t.
     bindR (failIf (thFloorValue t = [] \<or> \<not> CoinsIsValid C (thFloorValue t)) (ErrText ''invalid floor'')) (\<lambda>_.
     bindR (failIf (thUpdatePeriod t = None) (ErrText ''update period must not be nil'')) (\<lambda>_.
     bindR (must (thUpdatePeriod t)) (\<lambda>up.
     bindR (failIf (Seconds up \<le> 0) (ErrText ''update period must be positive'')) (\<lambda>_.
     bindR (must (votingPeriod)) (\<lambda>vp.
     bindR (failIf (Seconds vp < Seconds up) (ErrText ''update period must be at most the voting period'')) (\<lambda>_.
     bindR (failIf (thDecreaseSensitivityTargetDistance t = 0) (ErrText ''sensitivity target distance must be positive'')) (\<lambda>_.
     bindR (failIf (maxDecreaseSensitivity < thDecreaseSensitivityTargetDistance t) (ErrText ''sensitivity target distance too large'')) (\<lambda>_.
     bindR (orErr (ErrText ''invalid increase ratio'') (dOfStr L (thIncreaseRatio t))) (\<lambda>inc.
     bindR (failIf (\<not> 0 < inc) (ErrText ''increase ratio must be positive'')) (\<lambda>_.
     bindR (failIf (dec_one \<le> inc) (ErrText ''increase ratio too large'')) (\<lambda>_.
     bindR (orErr (ErrText ''invalid decrease ratio'') (dOfStr L (thDecreaseRatio t))) (\<lambda>dcr.
     bindR (failIf (\<not> 0 < dcr) (ErrText ''decrease ratio must be positive'')) (\<lambda>_.
     failIf (dec_one \<le> dcr) (ErrText ''decrease ratio too large'')))))))))))))))"

definition burn_threshold_ok :: "dec_lib \<Rightarrow> gov_params \<Rightarrow> dec \<times> dec \<times> dec \<Rightarrow> unit res" where
  "burn_threshold_ok L p = (\<lambda>(threshold, amendmentThreshold, lawThreshold).
     bindR (orErr (ErrText ''invalid burnDepositNoThreshold string'') (dOfStr L (gpBurnDepositNoThreshold p))) (\<lambda>burn.
     bindR (must (dSub L dec_one amendmentThreshold)) (\<lambda>ca.
     bindR (failIf (burn < ca) (ErrText ''burnDepositNoThreshold cannot be lower than 1-amendmentThreshold'')) (\<lambda>_.
     bindR (must (dSub L dec_one lawThreshold)) (\<lambda>law.
     bindR (failIf (burn < law) (ErrText ''burnDepositNoThreshold cannot be lower than 1-lawThreshold'')) (\<lambda>_.
     bindR (must (dSub L dec_one threshold)) (\<lambda>th.
     bindR (failIf (burn < th) (ErrText ''burnDepositNoThreshold cannot be lower than 1-threshold'')) (\<lambda>_.
     failIf (dec_one < burn) (ErrText ''burnDepositNoThreshold too large'')))))))))"

definition gov_Params_ValidateBasic :: "dec_lib \<Rightarrow> coins_lib \<Rightarrow> gov_params \<Rightarrow> unit res" where
  "gov_Params_ValidateBasic L C p =
     bindR (Params_deprecated L C p) (\<lambda>_.
     bindR (Params_quorums L C p) (\<lambda>_.
     bindR (Params_thresholds L C p) (\<lambda>thresholds.
     bindR (Params_voting L C p) (\<lambda>_.
     bindR (throttler_ok L C (gpVotingPeriod p) (gpMinDepositThrottler p)) (\<lambda>_.
     bindR (throttler_ok L C (gpVotingPeriod p) (gpMinInitialDepositThrottler p)) (\<lambda>_.
     burn_threshold_ok L p thresholds))))))"

section \<open>Signs of seconds\<close>

lemma float_shift_ge_1:
  assumes "0 < x"
  shows "1 \<le> x * 2 ^ float_shift x"
proof -
  obtain p q where pq: "quotient_of x = (p, q)" by force
  then have q: "0 < q" and x: "x = of_int p / of_int q"
    by (auto simp: quotient_of_denom_pos quotient_of_div)
  then have p: "0 < p" using assms by (simp add: zero_less_divide_iff)
  let ?fp = "floorlog 2 (nat p)" and ?fq = "floorlog 2 (nat q)"
  let ?s = "nat (53 - (int ?fp - int ?fq))"
  have bp: "2 ^ (?fp - 1) \<le> nat p" using floorlog_bounds [of "nat p" 2] p by simp
  have bq: "nat q < 2 ^ ?fq" using floorlog_bounds [of "nat q" 2] q by simp
  have "0 < ?fp" using bp p by (simp add: floorlog_def)
  then have e: "?fq \<le> ?s + (?fp - 1)" by linarith
  have "nat q < 2 ^ ?fq" by (rule bq)
  also have "\<dots> \<le> 2 ^ (?s + (?fp - 1))" using e by (intro power_increasing) auto
  also have "\<dots> = 2 ^ ?s * 2 ^ (?fp - 1)" by (rule power_add)
  also have "\<dots> \<le> 2 ^ ?s * nat p" using bp by simp
  finally have "int (nat q) < int (2 ^ ?s * nat p)" by (simp only: of_nat_less_iff)
  then have "q < 2 ^ ?s * p" using p q by simp
  then have "(of_int q :: rat) < of_int (2 ^ ?s * p)" by (simp only: of_int_less_iff)
  then have big: "1 \<le> x * 2 ^ ?s" using q by (simp add: x field_simps)
  show ?thesis
  proof (cases "x * 2 ^ ?s < 2 ^ 53")
    case True
    with big pq show ?thesis by (simp add: float_shift_def Let_def)
  next
    case False
    have "x * 2 ^ ?s \<le> x * 2 * 2 ^ (?s - 1)"
      using assms by (cases ?s) simp_all
    with False have "2 ^ 53 \<le> x * 2 * 2 ^ (?s - 1)" by linarith
    then have "1 \<le> x * 2 ^ (?s - 1)" by simp
    with False pq show ?thesis by (simp add: float_shift_def Let_def)
  qed
qed

lemma round64_sgn: "sgn (round64 x) = sgn x"
proof (cases "x = 0")
  case False
  then have "1 \<le> \<bar>x\<bar> * 2 ^ float_shift \<bar>x\<bar>" by (intro float_shift_ge_1) simp
  then have "1 \<le> round_half_even (\<bar>x\<bar> * 2 ^ float_shift \<bar>x\<bar>)"
    using le_floor_iff [of 1 "\<bar>x\<bar> * 2 ^ float_shift \<bar>x\<bar>"] by (simp add: round_half_even_def Let_def)
  then show ?thesis using False by (simp add: round64_def sgn_mult)
qed (simp add: round64_def)

lemma Seconds_pos [simp]: "0 < Seconds d \<longleftrightarrow> 0 < d"
  and Seconds_neg [simp]: "Seconds d < 0 \<longleftrightarrow> d < 0"
proof -
  let ?s = "sgn d * (\<bar>d\<bar> div second)" and ?n = "sgn d * (\<bar>d\<bar> mod second)"
  have split: "\<bar>d\<bar> div second * second + \<bar>d\<bar> mod second = \<bar>d\<bar>" by (rule div_mult_mod_eq)
  have parts: "0 \<le> \<bar>d\<bar> div second" "0 \<le> \<bar>d\<bar> mod second"
    by (simp_all add: second_def pos_imp_zdiv_nonneg_iff)
  let ?r = "round64 (of_int ?n / of_int second)"
  have r: "sgn ?r = of_int (sgn ?n)"
    unfolding round64_sgn by (simp add: sgn_if second_def)
  have "sgn (of_int ?s + ?r) = of_int (sgn d)"
  proof (cases "d = 0")
    case False
    consider "0 < \<bar>d\<bar> div second" | "0 < \<bar>d\<bar> mod second"
      using split parts False by (cases "\<bar>d\<bar> div second = 0") (auto simp: order_less_le)
    then show ?thesis using r parts False
      by cases (auto simp: sgn_if zero_less_mult_iff mult_less_0_iff split: if_splits)
  qed (simp add: round64_def)
  then have "sgn (Seconds d) = of_int (sgn d)" unfolding Seconds_def Let_def round64_sgn .
  then show "0 < Seconds d \<longleftrightarrow> 0 < d" "Seconds d < 0 \<longleftrightarrow> d < 0"
    by (auto simp: sgn_if split: if_splits)
qed

lemma Seconds_nonpos [simp]: "Seconds d \<le> 0 \<longleftrightarrow> d \<le> 0"
  using Seconds_pos [of d] by (simp add: not_less [symmetric] del: Seconds_pos)

text \<open>Whole seconds are exact.\<close>

lemma round64_int: "round64 (of_int n) = of_int n"
proof (cases "n = 0")
  case False
  let ?s = "float_shift \<bar>of_int n\<bar>"
  have "\<bar>of_int n\<bar> * 2 ^ ?s = (of_int (\<bar>n\<bar> * 2 ^ ?s) :: rat)" by simp
  then have "round_half_even (\<bar>of_int n\<bar> * 2 ^ ?s) = \<bar>n\<bar> * 2 ^ ?s"
    unfolding round_half_even_def by (simp only: floor_of_int) simp
  then show ?thesis using False by (simp add: round64_def sgn_mult_abs)
qed (simp add: round64_def)

lemma Seconds_whole: "Seconds (n * second) = of_int n"
proof -
  have "\<bar>n * second\<bar> div second = \<bar>n\<bar>" "\<bar>n * second\<bar> mod second = 0"
    by (simp_all add: abs_mult second_def)
  moreover have "sgn (n * second) * \<bar>n\<bar> = n" by (simp add: sgn_mult second_def sgn_mult_abs)
  ultimately show ?thesis using round64_int [of 0] round64_int [of n] by (simp add: Seconds_def Let_def)
qed

section \<open>What validation guarantees\<close>

definition range_ok :: "dec_lib \<Rightarrow> quorum_range option \<Rightarrow> bool" where
  "range_ok L r \<longleftrightarrow> (\<exists>q mn mx. r = Some q \<and> dOfStr L (qrMin q) = Some mn \<and> dOfStr L (qrMax q) = Some mx \<and>
     0 \<le> mn \<and> mn \<le> mx \<and> mx \<le> dec_one)"

definition throttler_facts :: "dec_lib \<Rightarrow> coins_lib \<Rightarrow> throttler option \<Rightarrow> bool" where
  "throttler_facts L C th \<longleftrightarrow> (\<exists>t up inc dcr. th = Some t \<and> thFloorValue t \<noteq> [] \<and> CoinsIsValid C (thFloorValue t) \<and>
     thUpdatePeriod t = Some up \<and> 0 < up \<and>
     0 < thDecreaseSensitivityTargetDistance t \<and> thDecreaseSensitivityTargetDistance t \<le> maxDecreaseSensitivity \<and>
     dOfStr L (thIncreaseRatio t) = Some inc \<and> 0 < inc \<and> inc < dec_one \<and>
     dOfStr L (thDecreaseRatio t) = Some dcr \<and> 0 < dcr \<and> dcr < dec_one)"

definition gov_params_ok :: "dec_lib \<Rightarrow> coins_lib \<Rightarrow> gov_params \<Rightarrow> bool" where
  "gov_params_ok L C p \<longleftrightarrow>
     (\<exists>mdp. gpMaxDepositPeriod p = Some mdp \<and> 0 < mdp) \<and>
     (\<exists>vp. gpVotingPeriod p = Some vp \<and> 0 < vp \<and>
        (0 < gpQuorumCheckCount p \<longrightarrow> (\<exists>qt ext. gpQuorumTimeout p = Some qt \<and> 0 \<le> qt \<and> qt < vp \<and>
           gpMaxVotingPeriodExtension p = Some ext \<and> wrap_int64 (vp - qt) \<le> ext))) \<and>
     range_ok L (gpQuorumRange p) \<and> range_ok L (gpConstitutionAmendmentQuorumRange p) \<and>
     range_ok L (gpLawQuorumRange p) \<and>
     (\<exists>th ca law burn. dOfStr L (gpThreshold p) = Some th \<and>
        dOfStr L (gpConstitutionAmendmentThreshold p) = Some ca \<and> dOfStr L (gpLawThreshold p) = Some law \<and>
        0 < th \<and> th \<le> law \<and> law \<le> ca \<and> ca \<le> dec_one \<and>
        dOfStr L (gpBurnDepositNoThreshold p) = Some burn \<and> dec_one - th \<le> burn \<and> burn \<le> dec_one) \<and>
     (\<exists>r. dOfStr L (gpMinDepositRatio p) = Some r \<and> 0 \<le> r \<and> r \<le> dec_one) \<and>
     throttler_facts L C (gpMinDepositThrottler p) \<and> throttler_facts L C (gpMinInitialDepositThrottler p)"

lemma quorum_value_ok_Ok: "quorum_value_ok L s = Ok () \<longleftrightarrow> (\<exists>v. dOfStr L s = Some v \<and> 0 \<le> v \<and> v \<le> dec_one)"
  by (auto simp: quorum_value_ok_def not_less)

lemma Params_quorums_facts:
  "Params_quorums L C p = Ok () \<Longrightarrow> range_ok L (gpQuorumRange p) \<and>
     range_ok L (gpConstitutionAmendmentQuorumRange p) \<and> range_ok L (gpLawQuorumRange p)"
  by (auto simp: Params_quorums_def quorum_value_ok_Ok range_order_ok_def range_ok_def not_less)

lemma throttler_ok_facts: "throttler_ok L C vp th = Ok () \<Longrightarrow> throttler_facts L C th"
  by (auto simp: throttler_ok_def throttler_facts_def not_less not_le word_gt_0)

lemma Params_voting_facts:
  assumes "Params_voting L C p = Ok ()"
  shows "\<exists>vp. gpVotingPeriod p = Some vp \<and> 0 < vp \<and>
        (0 < gpQuorumCheckCount p \<longrightarrow> (\<exists>qt ext. gpQuorumTimeout p = Some qt \<and> 0 \<le> qt \<and> qt < vp \<and>
           gpMaxVotingPeriodExtension p = Some ext \<and> wrap_int64 (vp - qt) \<le> ext))"
    and "\<exists>r. dOfStr L (gpMinDepositRatio p) = Some r \<and> 0 \<le> r \<and> r \<le> dec_one"
proof -
  from assms obtain vp r where vp: "gpVotingPeriod p = Some vp" "\<not> Seconds vp < Seconds minVotingPeriod"
      "dOfStr L (gpMinDepositRatio p) = Some r" "0 \<le> r" "r \<le> dec_one"
    by (auto simp: Params_voting_def not_less)
  have "0 < Seconds minVotingPeriod" by (simp add: minVotingPeriod_def hour_def second_def)
  then have "0 < Seconds vp" using vp(2) by linarith
  then have "0 < vp" by simp
  with assms vp(1) show "\<exists>vp. gpVotingPeriod p = Some vp \<and> 0 < vp \<and>
        (0 < gpQuorumCheckCount p \<longrightarrow> (\<exists>qt ext. gpQuorumTimeout p = Some qt \<and> 0 \<le> qt \<and> qt < vp \<and>
           gpMaxVotingPeriodExtension p = Some ext \<and> wrap_int64 (vp - qt) \<le> ext))"
    by (auto simp: Params_voting_def not_less not_le split: if_splits)
  show "\<exists>r. dOfStr L (gpMinDepositRatio p) = Some r \<and> 0 \<le> r \<and> r \<le> dec_one" using vp by blast
qed

text \<open>
  Parameters that pass \<open>ValidateBasic\<close> are complete and consistent: no nil pointer that the
  keeper follows, positive periods, quorum ranges and thresholds in order within \<open>[0, 1]\<close>,
  a burn threshold that cannot be crossed by a proposal that passes.
\<close>

lemma gov_Params_ValidateBasic_facts:
  assumes L: "dec_laws L" and ok: "gov_Params_ValidateBasic L C p = Ok ()"
  shows "gov_params_ok L C p"
proof -
  from ok obtain th where steps: "Params_deprecated L C p = Ok ()" "Params_quorums L C p = Ok ()"
      "Params_thresholds L C p = Ok th" "Params_voting L C p = Ok ()"
      "throttler_ok L C (gpVotingPeriod p) (gpMinDepositThrottler p) = Ok ()"
      "throttler_ok L C (gpVotingPeriod p) (gpMinInitialDepositThrottler p) = Ok ()"
      "burn_threshold_ok L p th = Ok ()"
    by (auto simp: gov_Params_ValidateBasic_def)
  have dep: "\<exists>mdp. gpMaxDepositPeriod p = Some mdp \<and> 0 < mdp"
    using steps(1) by (auto simp: Params_deprecated_def not_le)
  obtain t ca law where t: "th = (t, ca, law)" by (cases th)
  have thr: "dOfStr L (gpThreshold p) = Some t" "dOfStr L (gpConstitutionAmendmentThreshold p) = Some ca"
      "dOfStr L (gpLawThreshold p) = Some law" "0 < t" "t \<le> law" "law \<le> ca" "ca \<le> dec_one"
    using steps(3) by (auto simp: Params_thresholds_def t not_less)
  obtain burn where burn: "dOfStr L (gpBurnDepositNoThreshold p) = Some burn" "dec_one - t \<le> burn" "burn \<le> dec_one"
    using steps(7) dSub_exact [OF L] by (fastforce simp: burn_threshold_ok_def t not_less)
  show ?thesis
    unfolding gov_params_ok_def
    using dep Params_voting_facts [OF steps(4)] Params_quorums_facts [OF steps(2)] thr burn
      throttler_ok_facts [OF steps(5)] throttler_ok_facts [OF steps(6)] by blast
qed

end
