(* ===== verification/Unified_Diff.thy ===== *)
theory Unified_Diff
  imports Sdk_Instance
begin

text \<open>
  \<open>x/gov/types/unified_diff.go\<close>: parsing a unified diff and applying it to the constitution. Go
  strings are byte strings; the few functions of \<open>strings\<close> and \<open>strconv\<close> that the parser uses are
  written out, with the Unicode white space as its UTF-8 bytes.
\<close>

section \<open>Strings\<close>

definition newline :: char where "newline = CHR 0x0A"

text \<open>\<open>strings.Split(s, sep)\<close> and \<open>strings.Join(ss, sep)\<close> for a separator of one byte.\<close>

fun str_split :: "char \<Rightarrow> string \<Rightarrow> string list" where
  "str_split sep [] = [[]]"
| "str_split sep (c # s) =
     (if c = sep then [] # str_split sep s
      else case str_split sep s of [] \<Rightarrow> [[c]] | w # ws \<Rightarrow> (c # w) # ws)"

fun str_join :: "char \<Rightarrow> string list \<Rightarrow> string" where
  "str_join sep [] = []"
| "str_join sep [w] = w"
| "str_join sep (w # v # ws) = w @ sep # str_join sep (v # ws)"

definition has_prefix :: "string \<Rightarrow> string \<Rightarrow> bool" where
  "has_prefix s p \<longleftrightarrow> take (length p) s = p"

definition trim_prefix :: "string \<Rightarrow> string \<Rightarrow> string" where
  "trim_prefix s p = (if has_prefix s p then drop (length p) s else s)"

definition trim_suffix :: "string \<Rightarrow> string \<Rightarrow> string" where
  "trim_suffix s p = rev (trim_prefix (rev s) (rev p))"

text \<open>The encodings of the code points for which \<open>unicode.IsSpace\<close> holds.\<close>

definition space_runes :: "string list" where
  "space_runes = [[CHR 0x09], [CHR 0x0A], [CHR 0x0B], [CHR 0x0C], [CHR 0x0D], [CHR 0x20],
     [CHR 0xC2, CHR 0x85], [CHR 0xC2, CHR 0xA0], [CHR 0xE1, CHR 0x9A, CHR 0x80],
     [CHR 0xE2, CHR 0x80, CHR 0x80], [CHR 0xE2, CHR 0x80, CHR 0x81], [CHR 0xE2, CHR 0x80, CHR 0x82],
     [CHR 0xE2, CHR 0x80, CHR 0x83], [CHR 0xE2, CHR 0x80, CHR 0x84], [CHR 0xE2, CHR 0x80, CHR 0x85],
     [CHR 0xE2, CHR 0x80, CHR 0x86], [CHR 0xE2, CHR 0x80, CHR 0x87], [CHR 0xE2, CHR 0x80, CHR 0x88],
     [CHR 0xE2, CHR 0x80, CHR 0x89], [CHR 0xE2, CHR 0x80, CHR 0x8A], [CHR 0xE2, CHR 0x80, CHR 0xA8],
     [CHR 0xE2, CHR 0x80, CHR 0xA9], [CHR 0xE2, CHR 0x80, CHR 0xAF], [CHR 0xE2, CHR 0x81, CHR 0x9F],
     [CHR 0xE3, CHR 0x80, CHR 0x80]]"

text \<open>The length of a white-space character at the front of a string, zero if there is none.\<close>

definition space_at :: "string list \<Rightarrow> string \<Rightarrow> nat" where
  "space_at runes s = (case filter (has_prefix s) runes of [] \<Rightarrow> 0 | r # _ \<Rightarrow> length r)"

function trim_runes :: "string list \<Rightarrow> string \<Rightarrow> string" where
  "trim_runes runes s =
     (if s = [] \<or> space_at runes s = 0 then s else trim_runes runes (drop (space_at runes s) s))"
  by auto

termination by (relation "measure (\<lambda>(_, s). length s)") auto

declare trim_runes.simps [simp del]

definition trim_space :: "string \<Rightarrow> string" where
  "trim_space s = rev (trim_runes (map rev space_runes) (rev (trim_runes space_runes s)))"

text \<open>\<open>strings.Fields\<close>: the maximal pieces without white space; \<open>w\<close> is the piece being read.\<close>

function fields_from :: "string \<Rightarrow> string \<Rightarrow> string list" where
  "fields_from w s =
     (if s = [] then (if w = [] then [] else [w])
      else if space_at space_runes s = 0 then fields_from (w @ [hd s]) (tl s)
      else (if w = [] then [] else [w]) @ fields_from [] (drop (space_at space_runes s) s))"
  by auto

termination by (relation "measure (\<lambda>(_, s). length s)") auto

declare fields_from.simps [simp del]

definition str_fields :: "string \<Rightarrow> string list" where
  "str_fields s = fields_from [] s"

definition is_digit :: "char \<Rightarrow> bool" where
  "is_digit c \<longleftrightarrow> 48 \<le> (of_char c :: nat) \<and> (of_char c :: nat) \<le> 57"

text \<open>\<open>strconv.Atoi\<close>: an optional sign and decimal digits, within \<open>int64\<close>.\<close>

definition digits_val :: "string \<Rightarrow> int" where
  "digits_val s = foldl (\<lambda>n c. 10 * n + (of_char c - 48)) 0 s"

definition atoi :: "string \<Rightarrow> int option" where
  "atoi s =
     (let neg = has_prefix s ''-'';
          ds = (if neg \<or> has_prefix s ''+'' then tl s else s);
          n = (if neg then - digits_val ds else digits_val ds)
      in if ds \<noteq> [] \<and> list_all is_digit ds \<and> in_int64 n then Some n else None)"

section \<open>Parsing\<close>

record hunk =
  SrcLine :: int
  SrcSpan :: int
  DstLine :: int
  DstSpan :: int
  Lines :: "string list"

definition diff_err :: "string \<Rightarrow> err" where "diff_err s = ErrText s"

definition parseHunkRange :: "string \<Rightarrow> (int \<times> int) res" where
  "parseHunkRange rangeStr =
     (case rangeStr of
        [] \<Rightarrow> Err (diff_err ''empty range string'')
      | prefix # rest \<Rightarrow>
        if prefix \<noteq> CHR ''-'' \<and> prefix \<noteq> CHR ''+'' then Err (diff_err ''invalid range prefix'')
        else
          bindR (if CHR '','' \<in> set rest then
              (let parts = str_split (CHR '','') rest in
               bindR (failIf (length parts \<noteq> 2) (diff_err ''invalid range format'')) (\<lambda>_.
               bindR (orErr (diff_err ''invalid line number'') (atoi (parts ! 0))) (\<lambda>line.
               bindR (orErr (diff_err ''invalid span number'') (atoi (parts ! 1))) (\<lambda>span.
               Ok (line, span)))))
             else
               bindR (orErr (diff_err ''invalid line number'') (atoi rest)) (\<lambda>line. Ok (line, 1)))
          (\<lambda>(line, span).
          bindR (failIf (span < 0) (diff_err ''negative span'')) (\<lambda>_.
          Ok (wrap_int64 (line - 1), span))))"

definition parseHunkHeader :: "string \<Rightarrow> hunk res" where
  "parseHunkHeader header =
     (let header = trim_space (trim_suffix (trim_prefix header ''@@'') ''@@'');
          parts = str_fields header
      in bindR (failIf (length parts < 2) (diff_err ''invalid hunk header format'')) (\<lambda>_.
         bindR (parseHunkRange (parts ! 0)) (\<lambda>(srcLine, srcSpan).
         bindR (parseHunkRange (parts ! 1)) (\<lambda>(dstLine, dstSpan).
         Ok \<lparr>SrcLine = srcLine, SrcSpan = srcSpan, DstLine = dstLine, DstSpan = dstSpan, Lines = []\<rparr>))))"

text \<open>Counting the lines of each side; an unknown prefix is an error.\<close>

fun hunk_counts :: "string list \<Rightarrow> int \<times> int \<Rightarrow> (int \<times> int) res" where
  "hunk_counts [] cs = Ok cs"
| "hunk_counts ([] # ls) cs = hunk_counts ls cs"
| "hunk_counts ((p # l) # ls) (src, dst) =
     (if p = CHR '' '' then hunk_counts ls (src + 1, dst + 1)
      else if p = CHR ''-'' then hunk_counts ls (src + 1, dst)
      else if p = CHR ''+'' then hunk_counts ls (src, dst + 1)
      else Err (diff_err ''invalid line prefix''))"

definition validateHunk :: "hunk \<Rightarrow> unit res" where
  "validateHunk h =
     bindR (hunk_counts (Lines h) (0, 0)) (\<lambda>(srcCount, dstCount).
     bindR (failIf (srcCount \<noteq> SrcSpan h) (diff_err ''source line count does not match SrcSpan'')) (\<lambda>_.
     failIf (dstCount \<noteq> DstSpan h) (diff_err ''destination line count does not match DstSpan'')))"

text \<open>The loop over the lines: the hunks finished so far and the one being read, if any.\<close>

fun parse_lines :: "string list \<Rightarrow> hunk list \<times> hunk option \<Rightarrow> (hunk list \<times> hunk option) res" where
  "parse_lines [] acc = Ok acc"
| "parse_lines (line # ls) (hunks, current) =
     (if has_prefix line ''@@'' then
        bindR (parseHunkHeader line) (\<lambda>h.
        case current of
          None \<Rightarrow> parse_lines ls (hunks, Some h)
        | Some prev \<Rightarrow> bindR (validateHunk prev) (\<lambda>_. parse_lines ls (hunks @ [prev], Some h)))
      else case current of
        Some h \<Rightarrow>
          if line \<noteq> [] \<and> hd line \<notin> {CHR '' '', CHR ''-'', CHR ''+''} then Err (diff_err ''invalid line prefix'')
          else parse_lines ls (hunks, Some (h\<lparr>Lines := Lines h @ [line]\<rparr>))
      | None \<Rightarrow>
          if trim_space line \<noteq> [] \<and> \<not> has_prefix line ''---'' \<and> \<not> has_prefix line ''+++''
          then Err (diff_err ''unexpected content outside of hunks'')
          else parse_lines ls (hunks, None))"

definition drop_trailing_empty :: "string list \<Rightarrow> string list" where
  "drop_trailing_empty ls = rev (dropWhile (\<lambda>l. l = []) (rev ls))"

definition ParseUnifiedDiff :: "string \<Rightarrow> hunk list res" where
  "ParseUnifiedDiff diffStr =
     bindR (parse_lines (drop_trailing_empty (str_split newline diffStr)) ([], None)) (\<lambda>(hunks, current).
     bindR (case current of None \<Rightarrow> Ok hunks | Some h \<Rightarrow> bindR (validateHunk h) (\<lambda>_. Ok (hunks @ [h]))) (\<lambda>hunks.
     bindR (failIf (hunks = []) (diff_err ''no valid hunks found in the diff'')) (\<lambda>_. Ok hunks)))"

section \<open>Applying\<close>

text \<open>The loops of \<open>applyHunks\<close> thread the result and the index of the next source line.\<close>

function copy_until :: "string list \<Rightarrow> int \<Rightarrow> string list \<times> nat \<Rightarrow> (string list \<times> nat) res" where
  "copy_until srcLines srcLine (result, srcIndex) =
     (if int srcIndex < srcLine then
        if length srcLines \<le> srcIndex then Err (diff_err ''source index exceeds source length'')
        else copy_until srcLines srcLine (result @ [srcLines ! srcIndex], Suc srcIndex)
      else Ok (result, srcIndex))"
  by pat_completeness auto

termination by (relation "measure (\<lambda>(_, srcLine, _, i). nat (srcLine - int i))") auto

declare copy_until.simps [simp del]

definition apply_line :: "string list \<Rightarrow> string \<Rightarrow> string list \<times> nat \<Rightarrow> (string list \<times> nat) res" where
  "apply_line srcLines line = (\<lambda>(result, srcIndex).
     case line of
       [] \<Rightarrow> Ok (result, srcIndex)
     | prefix # content \<Rightarrow>
         if prefix = CHR '' '' then
           bindR (failIf (length srcLines \<le> srcIndex) (diff_err ''context line exceeds source length'')) (\<lambda>_.
           bindR (failIf (srcLines ! srcIndex \<noteq> content) (diff_err ''context line mismatch'')) (\<lambda>_.
           Ok (result @ [content], Suc srcIndex)))
         else if prefix = CHR ''-'' then
           bindR (failIf (length srcLines \<le> srcIndex) (diff_err ''deletion line exceeds source length'')) (\<lambda>_.
           bindR (failIf (srcLines ! srcIndex \<noteq> content) (diff_err ''deletion line mismatch'')) (\<lambda>_.
           Ok (result, Suc srcIndex)))
         else if prefix = CHR ''+'' then Ok (result @ [content], srcIndex)
         else Err (diff_err ''invalid diff line''))"

definition apply_hunk :: "string list \<Rightarrow> hunk \<Rightarrow> string list \<times> nat \<Rightarrow> (string list \<times> nat) res" where
  "apply_hunk srcLines h st =
     bindR (failIf (int (length srcLines) < SrcLine h) (diff_err ''hunk starts beyond the source'')) (\<lambda>_.
     bindR (copy_until srcLines (SrcLine h) st) (foldR (apply_line srcLines) (Lines h)))"

definition applyHunks :: "string \<Rightarrow> hunk list \<Rightarrow> string list res" where
  "applyHunks srcStr hunks =
     (let srcLines = str_split newline srcStr in
      bindR (foldR (apply_hunk srcLines) hunks ([], 0)) (\<lambda>(result, srcIndex).
      Ok (result @ drop srcIndex srcLines)))"

definition ApplyUnifiedDiff :: "string \<Rightarrow> string \<Rightarrow> string res" where
  "ApplyUnifiedDiff src diffStr =
     bindR (ParseUnifiedDiff diffStr) (\<lambda>hunks.
     bindR (applyHunks src hunks) (\<lambda>resultLines.
     Ok (str_join newline resultLines)))"

section \<open>What applying a diff does\<close>

definition valid_line :: "string \<Rightarrow> bool" where
  "valid_line l \<longleftrightarrow> l = [] \<or> hd l \<in> {CHR '' '', CHR ''-'', CHR ''+''}"

text \<open>The two sides of a hunk: the lines it replaces, and those it puts there.\<close>

definition hunk_side :: "char set \<Rightarrow> string list \<Rightarrow> string list" where
  "hunk_side ps ls = map tl (filter (\<lambda>l. l \<noteq> [] \<and> hd l \<in> ps) ls)"

abbreviation "src_side ls \<equiv> hunk_side {CHR '' '', CHR ''-''} ls"
abbreviation "dst_side ls \<equiv> hunk_side {CHR '' '', CHR ''+''} ls"

lemma hunk_side_simps [simp]:
  "hunk_side ps [] = []"
  "hunk_side ps ([] # ls) = hunk_side ps ls"
  "hunk_side ps ((c # l) # ls) = (if c \<in> ps then l # hunk_side ps ls else hunk_side ps ls)"
  by (simp_all add: hunk_side_def)

text \<open>
  The specification of a patch: the source is cut into untouched stretches and the source
  sides of the hunks, each at its line; the result has the destination sides instead.
\<close>

inductive patched :: "nat \<Rightarrow> hunk list \<Rightarrow> string list \<Rightarrow> string list \<Rightarrow> bool" where
  patched_end: "patched k [] s s"
| patched_hunk: "length pre = nat (SrcLine h - int k) \<Longrightarrow>
    patched (k + length pre + length (src_side (Lines h))) hs s t \<Longrightarrow>
    patched k (h # hs) (pre @ src_side (Lines h) @ s) (pre @ dst_side (Lines h) @ t)"

inductive_cases patched_NilE: "patched k [] s t"
inductive_cases patched_ConsE: "patched k (h # hs) s t"

lemma take_drop_Cons:
  "i < length xs \<Longrightarrow> take (Suc n) (drop i xs) = xs ! i # take n (drop (Suc i) xs)"
  by (metis Cons_nth_drop_Suc take_Suc_Cons)

lemma apply_lines_Ok:
  "foldR (apply_line src) ls (res, i) = Ok (res', j) \<Longrightarrow>
     res' = res @ dst_side ls \<and> j = i + length (src_side ls) \<and>
     take (length (src_side ls)) (drop i src) = src_side ls \<and> list_all valid_line ls"
proof (induction ls arbitrary: res i)
  case Nil
  then show ?case by simp
next
  case (Cons l ls)
  show ?case
  proof (cases l)
    case Nil
    with Cons show ?thesis by (simp add: apply_line_def valid_line_def)
  next
    case (Cons p c)
    from Cons.prems Cons obtain res1 i1 where
      step: "apply_line src (p # c) (res, i) = Ok (res1, i1)" "foldR (apply_line src) ls (res1, i1) = Ok (res', j)"
      by auto
    note IH = Cons.IH [OF step(2)]
    have cases: "p = CHR '' '' \<and> i < length src \<and> src ! i = c \<and> res1 = res @ [c] \<and> i1 = Suc i \<or>
        p = CHR ''-'' \<and> i < length src \<and> src ! i = c \<and> res1 = res \<and> i1 = Suc i \<or>
        p = CHR ''+'' \<and> res1 = res @ [c] \<and> i1 = i"
      using step(1) by (auto simp: apply_line_def split: if_splits)
    then show ?thesis using IH Cons by (auto simp: take_drop_Cons valid_line_def)
  qed
qed

lemma apply_lines_complete:
  assumes "list_all valid_line ls" "take (length (src_side ls)) (drop i src) = src_side ls"
  shows "foldR (apply_line src) ls (res, i) = Ok (res @ dst_side ls, i + length (src_side ls))"
  using assms
proof (induction ls arbitrary: res i)
  case Nil
  then show ?case by simp
next
  case (Cons l ls)
  show ?case
  proof (cases l)
    case Nil
    with Cons show ?thesis by (simp add: apply_line_def)
  next
    case l: (Cons p c)
    show ?thesis
    proof (cases "p = CHR ''+''")
      case True
      with Cons l show ?thesis by (simp add: apply_line_def)
    next
      case False
      then have p: "p = CHR '' '' \<or> p = CHR ''-''" using Cons.prems l by (auto simp: valid_line_def)
      have i: "i < length src"
      proof (rule ccontr)
        assume "\<not> i < length src"
        then have "drop i src = []" by simp
        with Cons.prems(2) p l show False by auto
      qed
      with Cons.prems p l have "src ! i = c" "take (length (src_side ls)) (drop (Suc i) src) = src_side ls"
        by (auto simp: take_drop_Cons)
      with Cons i p l show ?thesis by (auto simp: apply_line_def)
    qed
  qed
qed

lemma copy_until_eq:
  assumes "n \<le> int (length src)"
  shows "copy_until src n (res, i) = Ok (res @ take (nat (n - int i)) (drop i src), i + nat (n - int i))"
  using assms
proof (induction src n "(res, i)" arbitrary: res i rule: copy_until.induct)
  case (1 src n res i)
  show ?case
  proof (cases "int i < n")
    case True
    then have lt: "i < length src" and sn: "nat (n - int i) = Suc (nat (n - int (Suc i)))"
      using 1(2) by auto
    show ?thesis
      using 1 True lt by (simp add: copy_until.simps [of src n res i] sn take_drop_Cons)
  qed (simp add: copy_until.simps)
qed

lemma apply_hunks_patched:
  "foldR (apply_hunk src) hs (res, i) = Ok (res', j) \<Longrightarrow> i \<le> length src \<Longrightarrow>
     \<exists>t. res' @ drop j src = res @ t \<and> patched i hs (drop i src) t"
proof (induction hs arbitrary: res i)
  case Nil
  then show ?case by (auto intro: patched.intros)
next
  case (Cons h hs)
  let ?n = "nat (SrcLine h - int i)" and ?s = "src_side (Lines h)"
  from Cons.prems have le: "SrcLine h \<le> int (length src)" by (auto simp: apply_hunk_def)
  then have "apply_hunk src h (res, i) = foldR (apply_line src) (Lines h) (res @ take ?n (drop i src), i + ?n)"
    by (simp add: apply_hunk_def copy_until_eq)
  with Cons.prems obtain r1 k where
    step: "foldR (apply_line src) (Lines h) (res @ take ?n (drop i src), i + ?n) = Ok (r1, k)"
      "foldR (apply_hunk src) hs (r1, k) = Ok (res', j)"
    by auto
  note lines = apply_lines_Ok [OF step(1)]
  let ?pre = "take ?n (drop i src)"
  have n: "i + ?n \<le> length src" using le Cons.prems(2) by auto
  have pre: "length ?pre = ?n" using n by simp
  have side: "take (length ?s) (drop (i + ?n) src) = ?s" using lines by blast
  then have "length ?s \<le> length (drop (i + ?n) src)" by (metis length_take min.cobounded1)
  then have k: "k = i + ?n + length ?s" "k \<le> length src" using lines n by auto
  from Cons.IH [OF step(2) k(2)] obtain t where
    t: "res' @ drop j src = r1 @ t" "patched k hs (drop k src) t" by blast
  have "drop i src = ?pre @ drop (i + ?n) src"
    by (metis append_take_drop_id drop_drop add.commute)
  also have "drop (i + ?n) src = ?s @ drop k src"
    using side k(1) by (metis append_take_drop_id drop_drop add.commute)
  finally have "drop i src = ?pre @ ?s @ drop k src" .
  moreover have "patched i (h # hs) (?pre @ ?s @ drop k src) (?pre @ dst_side (Lines h) @ t)"
    using t(2) pre k(1) by (intro patched_hunk) auto
  ultimately show ?case using t(1) lines by auto
qed

lemma apply_hunks_complete:
  "patched i hs (drop i src) t \<Longrightarrow> i \<le> length src \<Longrightarrow> list_all (\<lambda>h. list_all valid_line (Lines h)) hs \<Longrightarrow>
     \<exists>r j. foldR (apply_hunk src) hs (res, i) = Ok (r, j) \<and> r @ drop j src = res @ t"
proof (induction hs arbitrary: i res t)
  case Nil
  then show ?case by (auto elim: patched_NilE)
next
  case (Cons h hs)
  from Cons.prems(1) obtain pre s t' where
    p: "drop i src = pre @ src_side (Lines h) @ s" "t = pre @ dst_side (Lines h) @ t'"
      "length pre = nat (SrcLine h - int i)" "patched (i + length pre + length (src_side (Lines h))) hs s t'"
    by (elim patched_ConsE) auto
  let ?k = "i + length pre + length (src_side (Lines h))"
  have len: "length src - i = length pre + length (src_side (Lines h)) + length s"
    using arg_cong [OF p(1), of length] by simp
  then have k: "?k \<le> length src" using Cons.prems(2) by linarith
  have n: "SrcLine h \<le> int (length src)" using p(3) k Cons.prems(2) by linarith
  have d1: "drop (i + length pre) src = src_side (Lines h) @ s"
    using p(1) by (metis append_eq_conv_conj drop_drop add.commute)
  then have d2: "drop ?k src = s" by (metis append_eq_conv_conj drop_drop add.commute)
  have lines: "foldR (apply_line src) (Lines h) (res @ pre, i + length pre) = Ok (res @ pre @ dst_side (Lines h), ?k)"
    using apply_lines_complete [of "Lines h" "i + length pre" src "res @ pre"] d1 Cons.prems(3) by simp
  have "take (nat (SrcLine h - int i)) (drop i src) = pre" using p(1,3) by simp
  then have step: "apply_hunk src h (res, i) = Ok (res @ pre @ dst_side (Lines h), ?k)"
    using n lines p(3) by (simp add: apply_hunk_def copy_until_eq)
  from Cons.IH [of ?k t' "res @ pre @ dst_side (Lines h)"] p(4) d2 k Cons.prems(3) step p(2)
  show ?case by auto
qed

lemma applyHunks_iff:
  assumes "list_all (\<lambda>h. list_all valid_line (Lines h)) hs"
  shows "applyHunks src hs = Ok res \<longleftrightarrow> patched 0 hs (str_split newline src) res"
proof
  assume "applyHunks src hs = Ok res"
  then show "patched 0 hs (str_split newline src) res"
    by (auto simp: applyHunks_def Let_def dest: apply_hunks_patched)
next
  assume "patched 0 hs (str_split newline src) res"
  then show "applyHunks src hs = Ok res"
    using apply_hunks_complete [of 0 hs "str_split newline src" res "[]"] assms
    by (auto simp: applyHunks_def Let_def)
qed

section \<open>Parsed hunks match their headers\<close>

lemma hunk_counts_Ok:
  "hunk_counts ls (a, b) = Ok (a', b') \<longleftrightarrow>
     list_all valid_line ls \<and> a' = a + int (length (src_side ls)) \<and> b' = b + int (length (dst_side ls))"
  by (induction ls "(a, b)" arbitrary: a b rule: hunk_counts.induct)
    (auto simp: valid_line_def split: if_splits)

definition hunk_ok :: "hunk \<Rightarrow> bool" where
  "hunk_ok h \<longleftrightarrow> list_all valid_line (Lines h) \<and>
     SrcSpan h = int (length (src_side (Lines h))) \<and> DstSpan h = int (length (dst_side (Lines h)))"

lemma validateHunk_Ok: "validateHunk h = Ok () \<longleftrightarrow> hunk_ok h"
  by (auto simp: validateHunk_def hunk_ok_def hunk_counts_Ok)

lemma parse_lines_ok:
  "parse_lines ls (hunks, cur) = Ok (hunks', cur') \<Longrightarrow> list_all hunk_ok hunks \<Longrightarrow> list_all hunk_ok hunks'"
  by (induction ls "(hunks, cur)" arbitrary: hunks cur rule: parse_lines.induct)
    (auto simp: validateHunk_Ok split: if_splits option.splits)

lemma ParseUnifiedDiff_ok: "ParseUnifiedDiff d = Ok hs \<Longrightarrow> hs \<noteq> [] \<and> list_all hunk_ok hs"
  by (auto simp: ParseUnifiedDiff_def validateHunk_Ok split: option.splits dest!: parse_lines_ok)

text \<open>
  C15: applying a diff returns a text exactly when the diff parses and the source decomposes
  into untouched stretches and the source sides of the hunks at their lines; the text is then
  the source with each source side replaced by its destination side, and every hunk has the
  numbers of lines its header announces.
\<close>

theorem ApplyUnifiedDiff_iff:
  "ApplyUnifiedDiff src d = Ok out \<longleftrightarrow>
     (\<exists>hs res. ParseUnifiedDiff d = Ok hs \<and> hs \<noteq> [] \<and> list_all hunk_ok hs \<and>
        patched 0 hs (str_split newline src) res \<and> out = str_join newline res)"
proof -
  have valid: "list_all (\<lambda>h. list_all valid_line (Lines h)) hs" if "list_all hunk_ok hs" for hs
    using that by (auto simp: list_all_iff hunk_ok_def)
  show ?thesis
    using ParseUnifiedDiff_ok [of d] applyHunks_iff [OF valid]
    by (auto simp: ApplyUnifiedDiff_def)
qed

section \<open>A written diff parses back\<close>

text \<open>Joining and splitting lines are inverse.\<close>

lemma str_split_plain: "sep \<notin> set w \<Longrightarrow> str_split sep w = [w]"
  by (induction w) auto

lemma str_split_append: "sep \<notin> set w \<Longrightarrow> str_split sep (w @ sep # s) = w # str_split sep s"
  by (induction w) auto

lemma str_split_join:
  "ws \<noteq> [] \<Longrightarrow> \<forall>w \<in> set ws. sep \<notin> set w \<Longrightarrow> str_split sep (str_join sep ws) = ws"
  by (induction ws rule: str_join.induct [of _ sep]) (auto simp: str_split_plain str_split_append)

lemma str_split_not_Nil [simp]: "str_split sep s \<noteq> []"
  by (induction s) (auto split: list.splits)

lemma str_join_Cons: "ws \<noteq> [] \<Longrightarrow> str_join sep (w # ws) = w @ sep # str_join sep ws"
  by (cases ws) auto

lemma str_join_split: "str_join sep (str_split sep s) = s"
proof (induction s)
  case (Cons c s)
  obtain w ws where w: "str_split sep s = w # ws" by (cases "str_split sep s") auto
  with Cons show ?case by (cases ws) (auto simp: str_join_Cons)
qed simp

text \<open>Visible ASCII characters are not white space, and not the end of one.\<close>

definition visible :: "char \<Rightarrow> bool" where
  "visible c \<longleftrightarrow> 33 \<le> (of_char c :: nat) \<and> (of_char c :: nat) < 128"

lemma space_runes_not_visible:
  "list_all (\<lambda>r. r \<noteq> [] \<and> \<not> visible (hd r)) space_runes"
  "list_all (\<lambda>r. r \<noteq> [] \<and> \<not> visible (hd r)) (map rev space_runes)"
  by (simp_all add: space_runes_def visible_def)

lemma space_at_none:
  assumes "list_all (\<lambda>r. r \<noteq> [] \<and> \<not> visible (hd r)) runes" "visible c"
  shows "space_at runes (c # s) = 0"
proof -
  have "\<not> has_prefix (c # s) r" if "r \<in> set runes" for r
  proof -
    have "r \<noteq> []" "hd r \<noteq> c" using that assms by (auto simp: list_all_iff)
    then show ?thesis by (cases r) (auto simp: has_prefix_def)
  qed
  then have "filter (has_prefix (c # s)) runes = []" by (simp add: filter_empty_conv)
  then show ?thesis by (simp add: space_at_def)
qed

lemmas space_at_visible [simp] = space_at_none [OF space_runes_not_visible(1)] space_at_none [OF space_runes_not_visible(2)]

lemma space_at_space [simp]:
  "space_at space_runes (CHR '' '' # s) = 1" "space_at (map rev space_runes) (CHR '' '' # s) = 1"
  by (simp_all add: space_at_def has_prefix_def space_runes_def)

lemma trim_runes_visible [simp]:
  "visible c \<Longrightarrow> trim_runes space_runes (c # s) = c # s"
  "visible c \<Longrightarrow> trim_runes (map rev space_runes) (c # s) = c # s"
  "trim_runes space_runes (CHR '' '' # s) = trim_runes space_runes s"
  "trim_runes (map rev space_runes) (CHR '' '' # s) = trim_runes (map rev space_runes) s"
  by (subst trim_runes.simps, simp)+

lemma trim_space_padded:
  "visible a \<Longrightarrow> visible z \<Longrightarrow> trim_space (CHR '' '' # a # m @ [z, CHR '' '']) = a # m @ [z]"
  by (simp add: trim_space_def)

lemma fields_from_visible:
  "list_all visible u \<Longrightarrow> fields_from w (u @ s) = fields_from (w @ u) s"
  by (induction u arbitrary: w) (simp_all add: fields_from.simps [of _ "_ # _"])

lemma fields_two:
  "list_all visible u \<Longrightarrow> list_all visible v \<Longrightarrow> u \<noteq> [] \<Longrightarrow> v \<noteq> [] \<Longrightarrow>
     str_fields (u @ CHR '' '' # v) = [u, v]"
  using fields_from_visible [of u "[]" "CHR '' '' # v"] fields_from_visible [of v "[]" "[]"]
  by (simp add: str_fields_def fields_from.simps [of _ "_ # _"] fields_from.simps [of _ "[]"])

text \<open>Decimal numbers.\<close>

lemma digits_of_digits: "list_all is_digit (digits_of n)"
proof (induction n rule: digits_of.induct)
  case (1 n)
  have d: "is_digit (char_of (48 + k :: nat))" if "k < 10" for k
    using of_char_digit [OF that] that by (simp add: is_digit_def)
  show ?case using 1 d [of n] d [of "n mod 10"] by (cases "n < 10") (simp_all add: digits_of.simps [of n])
qed

lemma is_digit_visible: "is_digit c \<Longrightarrow> visible c \<and> c \<noteq> CHR '','' \<and> c \<noteq> CHR ''-'' \<and> c \<noteq> CHR ''+'' \<and> c \<noteq> newline"
  by (auto simp: is_digit_def visible_def newline_def)

lemma digits_val_of: "digits_val (digits_of n) = int n"
proof -
  have "foldl (\<lambda>n c. 10 * n + (of_char c - 48)) (int a) ds = int (foldl (\<lambda>n c. 10 * n + (of_char c - 48)) a ds)"
    if "list_all is_digit ds" for a ds
    using that
  proof (induction ds arbitrary: a)
    case (Cons c ds)
    have "(of_char c :: int) = int (of_char c)" by (rule of_nat_of_char [symmetric])
    moreover have "48 \<le> (of_char c :: nat)" using Cons.prems by (simp add: is_digit_def)
    ultimately have "10 * int a + (of_char c - 48) = int (10 * a + (of_char c - 48))" by (simp add: of_nat_diff)
    then show ?case using Cons.IH [of "10 * a + (of_char c - 48)"] Cons.prems by (simp del: of_nat_add of_nat_mult)
  qed simp
  from this [OF digits_of_digits, of 0 n] show ?thesis
    using read_digits_of [of n] by (simp add: digits_val_def read_digits_def)
qed

lemma atoi_digits: "int n \<le> max_int64 \<Longrightarrow> atoi (digits_of n) = Some (int n)"
proof -
  assume n: "int n \<le> max_int64"
  obtain c cs where c: "digits_of n = c # cs" using digits_of_head by blast
  then have "is_digit c" using digits_of_digits [of n] by simp
  then have "\<not> has_prefix (digits_of n) ''-''" "\<not> has_prefix (digits_of n) ''+''"
    using c is_digit_visible by (auto simp: has_prefix_def)
  then show ?thesis
    using n c digits_of_digits [of n] digits_val_of [of n]
    by (simp add: atoi_def Let_def in_int64_def min_int64_def)
qed

text \<open>Writing hunks: \<open>@@ -line,span +line,span @@\<close> and the lines.\<close>

definition show_range :: "char \<Rightarrow> int \<Rightarrow> int \<Rightarrow> string" where
  "show_range c line span = c # digits_of (nat (line + 1)) @ CHR '','' # digits_of (nat span)"

definition show_hunk :: "hunk \<Rightarrow> string list" where
  "show_hunk h = (''@@ '' @ show_range (CHR ''-'') (SrcLine h) (SrcSpan h) @ CHR '' '' #
     show_range (CHR ''+'') (DstLine h) (DstSpan h) @ '' @@'') # Lines h"

definition show_diff :: "hunk list \<Rightarrow> string" where
  "show_diff hs = str_join newline (concat (map show_hunk hs))"

definition showable :: "hunk \<Rightarrow> bool" where
  "showable h \<longleftrightarrow> hunk_ok h \<and> [] \<notin> set (Lines h) \<and> (\<forall>l \<in> set (Lines h). newline \<notin> set l) \<and>
     - 1 \<le> SrcLine h \<and> SrcLine h < max_int64 \<and> - 1 \<le> DstLine h \<and> DstLine h < max_int64 \<and>
     SrcSpan h \<le> max_int64 \<and> DstSpan h \<le> max_int64"

lemma parse_show_range:
  assumes "- 1 \<le> line" "line < max_int64" "0 \<le> span" "span \<le> max_int64" "c \<in> {CHR ''-'', CHR ''+''}"
  shows "parseHunkRange (show_range c line span) = Ok (line, span)"
proof -
  have no: "CHR '','' \<notin> set (digits_of n)" for n
    using digits_of_digits [of n] is_digit_visible by (auto simp: list_all_iff)
  have parts: "str_split (CHR '','') (digits_of a @ CHR '','' # digits_of b) = [digits_of a, digits_of b]" for a b
    by (simp add: no str_split_append str_split_plain)
  have w: "wrap_int64 line = line"
    using assms by (intro wrap_int64_id) (simp add: in_int64_def min_int64_def)
  show ?thesis
    using assms w atoi_digits [of "nat (line + 1)"] atoi_digits [of "nat span"]
    by (auto simp: show_range_def parseHunkRange_def parts)
qed

lemma show_range_visible:
  assumes "visible c"
  shows "list_all visible (show_range c line span)" "show_range c line span \<noteq> []" "hd (show_range c line span) = c"
    "\<exists>m z. show_range c line span = c # m @ [z] \<and> visible z" "c \<noteq> newline \<Longrightarrow> newline \<notin> set (show_range c line span)"
proof -
  have d: "list_all visible (digits_of n)" for n
    using digits_of_digits [of n] is_digit_visible by (auto simp: list_all_iff)
  then show "list_all visible (show_range c line span)" "show_range c line span \<noteq> []" "hd (show_range c line span) = c"
    using assms by (auto simp: show_range_def visible_def)
  obtain ds z where "digits_of (nat span) = ds @ [z]"
    using digits_of_head [of "nat span"] by (metis list.distinct(1) rev_exhaust)
  moreover from this have "visible z" using d [of "nat span"] by simp
  ultimately show "\<exists>m z. show_range c line span = c # m @ [z] \<and> visible z"
    by (auto simp: show_range_def)
  have "newline \<notin> set (digits_of n)" for n
    using digits_of_digits [of n] is_digit_visible by (auto simp: list_all_iff)
  then show "c \<noteq> newline \<Longrightarrow> newline \<notin> set (show_range c line span)"
    by (auto simp: show_range_def newline_def)
qed

lemma parse_show_header:
  assumes "showable h"
  shows "parseHunkHeader (hd (show_hunk h)) = Ok (h\<lparr>Lines := []\<rparr>)" "has_prefix (hd (show_hunk h)) ''@@''"
    "newline \<notin> set (hd (show_hunk h))"
proof -
  have vis: "visible (CHR ''-'')" "visible (CHR ''+'')" by (simp_all add: visible_def)
  let ?u = "show_range (CHR ''-'') (SrcLine h) (SrcSpan h)" and ?v = "show_range (CHR ''+'') (DstLine h) (DstSpan h)"
  obtain m z where u: "?u = CHR ''-'' # m @ [z]" "visible z" using show_range_visible(4) [OF vis(1)] by blast
  obtain m' z' where v: "?v = CHR ''+'' # m' @ [z']" "visible z'" using show_range_visible(4) [OF vis(2)] by blast
  have "hd (show_hunk h) = ''@@'' @ CHR '' '' # CHR ''-'' # (m @ [z] @ CHR '' '' # CHR ''+'' # m') @ [z', CHR '' ''] @ ''@@''"
    using u v by (simp add: show_hunk_def)
  then have t: "trim_suffix (trim_prefix (hd (show_hunk h)) ''@@'') ''@@'' =
      CHR '' '' # CHR ''-'' # (m @ [z] @ CHR '' '' # CHR ''+'' # m') @ [z', CHR '' '']"
    by (simp add: trim_prefix_def trim_suffix_def has_prefix_def)
  have "trim_space \<dots> = CHR ''-'' # (m @ [z] @ CHR '' '' # CHR ''+'' # m') @ [z']"
    by (rule trim_space_padded [OF vis(1) v(2)])
  also have "\<dots> = ?u @ CHR '' '' # ?v" using u v by simp
  finally have "str_fields (trim_space (trim_suffix (trim_prefix (hd (show_hunk h)) ''@@'') ''@@'')) = [?u, ?v]"
    using t fields_two show_range_visible [OF vis(1)] show_range_visible [OF vis(2)] by simp
  moreover have "0 \<le> SrcSpan h" "0 \<le> DstSpan h" using assms by (auto simp: showable_def hunk_ok_def)
  ultimately show "parseHunkHeader (hd (show_hunk h)) = Ok (h\<lparr>Lines := []\<rparr>)"
    using assms by (simp add: parseHunkHeader_def parse_show_range showable_def)
  show "has_prefix (hd (show_hunk h)) ''@@''" by (simp add: show_hunk_def has_prefix_def)
  show "newline \<notin> set (hd (show_hunk h))"
    using show_range_visible(5) [OF vis(1)] show_range_visible(5) [OF vis(2)]
    by (simp add: show_hunk_def newline_def)
qed

lemma parse_hunk_lines:
  assumes "list_all valid_line ls" "[] \<notin> set ls"
  shows "parse_lines (ls @ rest) (hunks, Some h) = parse_lines rest (hunks, Some (h\<lparr>Lines := Lines h @ ls\<rparr>))"
  using assms
proof (induction ls arbitrary: h)
  case (Cons l ls)
  then have "l \<noteq> []" "hd l \<in> {CHR '' '', CHR ''-'', CHR ''+''}" by (auto simp: valid_line_def)
  then have "\<not> has_prefix l ''@@''" by (cases l) (auto simp: has_prefix_def)
  with Cons \<open>l \<noteq> []\<close> \<open>hd l \<in> _\<close> show ?case by simp
qed simp

lemma parse_show_hunks:
  assumes "list_all showable hs" "hs \<noteq> []" "case cur of None \<Rightarrow> pre = hunks | Some h \<Rightarrow> hunk_ok h \<and> pre = hunks @ [h]"
  shows "parse_lines (concat (map show_hunk hs)) (hunks, cur) = Ok (pre @ butlast hs, Some (last hs))"
  using assms
proof (induction hs arbitrary: hunks cur pre)
  case (Cons h hs)
  have lines: "list_all valid_line (Lines h)" "[] \<notin> set (Lines h)" "hunk_ok h"
    using Cons.prems(1) by (auto simp: showable_def hunk_ok_def)
  have h: "show_hunk h = hd (show_hunk h) # Lines h" by (simp add: show_hunk_def)
  have "parse_lines (show_hunk h @ concat (map show_hunk hs)) (hunks, cur) =
      parse_lines (concat (map show_hunk hs)) (pre, Some h)"
    using Cons.prems parse_show_header [of h] lines parse_hunk_lines [OF lines(1,2)]
    by (subst h) (auto simp: validateHunk_Ok [THEN iffD2] split: option.splits)
  with Cons.IH [where cur = "Some h" and pre = "pre @ [h]" and hunks = pre] Cons.prems(1) lines(3) show ?case by (cases hs) auto
qed simp

text \<open>
  C16: the parser reads back what it is given: hunks written in the unified format (positions
  from one, spans, a line for each change) parse to these hunks.
\<close>

theorem ParseUnifiedDiff_show:
  assumes "list_all showable hs" "hs \<noteq> []"
  shows "ParseUnifiedDiff (show_diff hs) = Ok hs"
proof -
  let ?ls = "concat (map show_hunk hs)"
  obtain hs' h where hs: "hs = hs' @ [h]" using assms(2) by (metis rev_exhaust)
  have ne: "?ls \<noteq> []" using assms(2) by (cases hs) (simp_all add: show_hunk_def)
  have "newline \<notin> set w" if "w \<in> set ?ls" for w
    using that assms(1) parse_show_header(3) by (fastforce simp: list_all_iff show_hunk_def showable_def)
  then have split: "str_split newline (show_diff hs) = ?ls"
    using ne by (simp add: show_diff_def str_split_join)
  have "[] \<notin> set (show_hunk h)" using assms(1) by (auto simp: hs show_hunk_def showable_def)
  then have "last ?ls \<noteq> []"
    using last_in_set [of "show_hunk h"] by (auto simp: hs show_hunk_def)
  then have "drop_trailing_empty ?ls = ?ls"
    using ne by (cases ?ls rule: rev_cases) (auto simp: drop_trailing_empty_def)
  moreover have "parse_lines ?ls ([], None) = Ok (butlast hs, Some (last hs))"
    using parse_show_hunks [OF assms, where cur = None and hunks = "[]" and pre = "[]"] by simp
  moreover have "hunk_ok (last hs)" using assms by (auto simp: hs showable_def)
  ultimately show ?thesis using assms(2) split by (simp add: ParseUnifiedDiff_def validateHunk_Ok)
qed

theorem ParseUnifiedDiff_show_witness:
  "ParseUnifiedDiff (show_diff [\<lparr>SrcLine = 4, SrcSpan = 2, DstLine = 4, DstSpan = 2,
     Lines = ['' kept'', ''-gone'', ''+new'']\<rparr>]) =
   Ok [\<lparr>SrcLine = 4, SrcSpan = 2, DstLine = 4, DstSpan = 2, Lines = ['' kept'', ''-gone'', ''+new'']\<rparr>]"
  by (rule ParseUnifiedDiff_show)
    (simp_all add: showable_def hunk_ok_def valid_line_def newline_def max_int64_def)

end
