(* ===== verification/Gov_Types.thy ===== *)
theory Gov_Types
  imports Gov_Params Unified_Diff
begin

text \<open>
  \<open>x/gov/types/v1\<close>: votes, deposits, proposals, messages and their validation, the kinds of a
  proposal, the next minimum deposit, and the genesis state. A message packed in an \<open>Any\<close>
  either unpacks or does not; messages of other modules are of type \<open>'m\<close>.
\<close>

unbundle bit_operations_syntax

section \<open>Votes and deposits\<close>

datatype vote_option = OptionEmpty | OptionYes | OptionAbstain | OptionNo | OptionOther int

text \<open>The option of an enum number.\<close>

definition option_of_int :: "int \<Rightarrow> vote_option" where
  "option_of_int n = (if n = 0 then OptionEmpty else if n = 1 then OptionYes else if n = 2 then OptionAbstain
     else if n = 3 then OptionNo else OptionOther n)"

record weighted_option =
  woOption :: vote_option
  woWeight :: string

record vote =
  vProposalId :: u64
  vVoter :: string
  vOptions :: "weighted_option list"
  vMetadata :: string

definition NewVote :: "addr_lib \<Rightarrow> u64 \<Rightarrow> addr \<Rightarrow> weighted_option list \<Rightarrow> string \<Rightarrow> vote" where
  "NewVote A proposalID voter options metadata =
     \<lparr>vProposalId = proposalID, vVoter = ToBech32 A voter, vOptions = options, vMetadata = metadata\<rparr>"

definition ValidVoteOption :: "vote_option \<Rightarrow> bool" where
  "ValidVoteOption opt \<longleftrightarrow> opt = OptionYes \<or> opt = OptionAbstain \<or> opt = OptionNo"

text \<open>\<open>IsValid\<close> and \<open>ValidWeightedVoteOption\<close>, which are the same check.\<close>

definition ValidWeightedVoteOption :: "dec_lib \<Rightarrow> weighted_option \<Rightarrow> bool" where
  "ValidWeightedVoteOption L opt =
     (case dOfStr L (woWeight opt) of
        None \<Rightarrow> False
      | Some weight \<Rightarrow> if \<not> 0 < weight \<or> dec_one < weight then False else ValidVoteOption (woOption opt))"

definition NewWeightedVoteOption :: "dec_lib \<Rightarrow> vote_option \<Rightarrow> dec \<Rightarrow> weighted_option" where
  "NewWeightedVoteOption L opt weight = \<lparr>woOption = opt, woWeight = dStr L weight\<rparr>"

definition NewNonSplitVoteOption :: "dec_lib \<Rightarrow> vote_option \<Rightarrow> weighted_option list" where
  "NewNonSplitVoteOption L opt = [\<lparr>woOption = opt, woWeight = dStr L dec_one\<rparr>]"

definition VoteOptionFromString :: "string \<Rightarrow> vote_option res" where
  "VoteOptionFromString str =
     (if str = ''VOTE_OPTION_UNSPECIFIED'' then Ok OptionEmpty
      else if str = ''VOTE_OPTION_YES'' then Ok OptionYes
      else if str = ''VOTE_OPTION_ABSTAIN'' then Ok OptionAbstain
      else if str = ''VOTE_OPTION_NO'' then Ok OptionNo
      else Err (ErrText ''not a valid vote option''))"

definition WeightedVoteOptionsFromString :: "dec_lib \<Rightarrow> string \<Rightarrow> weighted_option list res" where
  "WeightedVoteOptionsFromString L str =
     foldR (\<lambda>field options.
        let fields = str_split (CHR ''='') field in
        bindR (hdR fields) (\<lambda>name.
        bindR (VoteOptionFromString name) (\<lambda>opt.
        bindR (failIf (length fields < 2) (ErrText ''weight field does not exist'')) (\<lambda>_.
        bindR (orErr (ErrText ''invalid weight'') (dOfStr L (fields ! 1))) (\<lambda>weight.
        Ok (options @ [NewWeightedVoteOption L opt weight]))))))
       (str_split (CHR '','') str) []"

record deposit =
  dProposalId :: u64
  dDepositor :: string
  dAmount :: coins

definition NewDeposit :: "addr_lib \<Rightarrow> u64 \<Rightarrow> addr \<Rightarrow> coins \<Rightarrow> deposit" where
  "NewDeposit A proposalID depositor amount =
     \<lparr>dProposalId = proposalID, dDepositor = ToBech32 A depositor, dAmount = amount\<rparr>"

text \<open>
  The counts are stored as the decimal strings of integers; \<open>None\<close> is the empty string, of a
  tally that ended with an error.
\<close>

record tally_result =
  trYes :: "int option"
  trAbstain :: "int option"
  trNo :: "int option"

definition NewTallyResult :: "int \<Rightarrow> int \<Rightarrow> int \<Rightarrow> tally_result" where
  "NewTallyResult yes abstain no = \<lparr>trYes = Some yes, trAbstain = Some abstain, trNo = Some no\<rparr>"

definition no_tally_result :: tally_result where
  "no_tally_result = \<lparr>trYes = None, trAbstain = None, trNo = None\<rparr>"

definition NewTallyResultFromMap :: "dec_lib \<Rightarrow> (vote_option \<Rightarrow> dec) \<Rightarrow> tally_result" where
  "NewTallyResultFromMap L results = NewTallyResult (dTruncateInt L (results OptionYes))
     (dTruncateInt L (results OptionAbstain)) (dTruncateInt L (results OptionNo))"

definition EmptyTallyResult :: tally_result where
  "EmptyTallyResult = NewTallyResult 0 0 0"

record quorum_entry =
  qeTimeoutTime :: "time option"
  qeCheckCount :: u64
  qeChecksDone :: u64

definition NewQuorumCheckQueueEntry :: "time \<Rightarrow> u64 \<Rightarrow> quorum_entry" where
  "NewQuorumCheckQueueEntry quorumTimeoutTime quorumCheckCount =
     \<lparr>qeTimeoutTime = Some quorumTimeoutTime, qeCheckCount = quorumCheckCount, qeChecksDone = 0\<rparr>"

section \<open>Messages\<close>

datatype 'a any = Unpacked 'a | Broken

text \<open>The contents of legacy proposals: text, or one of another module (route, type, title, description).\<close>

datatype content =
    TextProposal string string
  | OtherContent (ocRoute: string) (ocType: string) (ocTitle: string) (ocDescription: string) (ocId: nat)

datatype 'm gov_msg =
    MsgSubmitProposal (smMessages: "'m gov_msg any list") (smInitialDeposit: coins) (smProposer: string)
      (smMetadata: string) (smTitle: string) (smSummary: string)
  | MsgDeposit (mdProposalId: u64) (mdDepositor: string) (mdAmount: coins)
  | MsgVote (mvProposalId: u64) (mvVoter: string) (mvOption: vote_option) (mvMetadata: string)
  | MsgVoteWeighted (mwProposalId: u64) (mwVoter: string) (mwOptions: "weighted_option list") (mwMetadata: string)
  | MsgExecLegacyContent (mlContent: "content any") (mlAuthority: string)
  | MsgUpdateParams (muAuthority: string) (muParams: gov_params)
  | MsgProposeLaw (lwAuthority: string)
  | MsgProposeConstitutionAmendment (caAuthority: string) (caAmendment: string)
  | MsgOther 'm

text \<open>\<open>sdktx.GetMsgs\<close>: an error if one of the messages does not unpack.\<close>

definition unpacked :: "'a any list \<Rightarrow> 'a list" where
  "unpacked ms = concat (map (\<lambda>m. case m of Unpacked x \<Rightarrow> [x] | Broken \<Rightarrow> []) ms)"

definition GetMsgs :: "'a any list \<Rightarrow> 'a list res" where
  "GetMsgs ms = (if Broken \<in> set ms then Err (ErrExternal 10) else Ok (unpacked ms))"

definition valid_address :: "addr_lib \<Rightarrow> string \<Rightarrow> unit res" where
  "valid_address A s = bindR (orErr ErrInvalidAddress (FromBech32 A s)) (\<lambda>_. Ok ())"

definition MsgDeposit_ValidateBasic :: "coins_lib \<Rightarrow> addr_lib \<Rightarrow> string \<Rightarrow> coins \<Rightarrow> unit res" where
  "MsgDeposit_ValidateBasic C A depositor amount =
     bindR (valid_address A depositor) (\<lambda>_.
     bindR (must (NewCoins C amount)) (\<lambda>amount.
     bindR (failIf (\<not> CoinsIsValid C amount) ErrInvalidCoins) (\<lambda>_.
     failIf (IsAnyNegative C amount) ErrInvalidCoins)))"

definition MsgVote_ValidateBasic :: "addr_lib \<Rightarrow> string \<Rightarrow> vote_option \<Rightarrow> unit res" where
  "MsgVote_ValidateBasic A voter opt =
     bindR (valid_address A voter) (\<lambda>_. failIf (\<not> ValidVoteOption opt) Gov_ErrInvalidVote)"

definition MsgVoteWeighted_ValidateBasic ::
  "dec_lib \<Rightarrow> addr_lib \<Rightarrow> string \<Rightarrow> weighted_option list \<Rightarrow> unit res" where
  "MsgVoteWeighted_ValidateBasic L A voter options =
     bindR (valid_address A voter) (\<lambda>_.
     bindR (failIf (options = []) ErrInvalidRequest) (\<lambda>_.
     bindR (foldR (\<lambda>opt (totalWeight, usedOptions).
         bindR (failIf (\<not> ValidWeightedVoteOption L opt) Gov_ErrInvalidVote) (\<lambda>_.
         bindR (orErr Gov_ErrInvalidVote (dOfStr L (woWeight opt))) (\<lambda>weight.
         bindR (must (dAdd L totalWeight weight)) (\<lambda>totalWeight.
         bindR (failIf (woOption opt \<in> set usedOptions) Gov_ErrInvalidVote) (\<lambda>_.
         Ok (totalWeight, woOption opt # usedOptions)))))) options (0, [])) (\<lambda>(totalWeight, _).
     bindR (failIf (dec_one < totalWeight) Gov_ErrInvalidVote) (\<lambda>_.
     failIf (totalWeight < dec_one) Gov_ErrInvalidVote))))"

definition MsgProposeConstitutionAmendment_ValidateBasic :: "addr_lib \<Rightarrow> string \<Rightarrow> string \<Rightarrow> unit res" where
  "MsgProposeConstitutionAmendment_ValidateBasic A authority amendment =
     bindR (valid_address A authority) (\<lambda>_.
     bindR (failIf (amendment = []) Gov_ErrInvalidProposalContent) (\<lambda>_.
     case ParseUnifiedDiff amendment of
       Ok _ \<Rightarrow> Ok () | Err _ \<Rightarrow> Err Gov_ErrInvalidProposalContent | Panic \<Rightarrow> Panic))"

text \<open>
  \<open>ValidateBasic\<close> of a message, and of the messages inside a proposal. \<open>ov\<close> validates the
  messages of other modules (and accepts those without a \<open>ValidateBasic\<close>).
\<close>

function (sequential) msg_ValidateBasic :: "dec_lib \<Rightarrow> coins_lib \<Rightarrow> addr_lib \<Rightarrow> ('m \<Rightarrow> unit res) \<Rightarrow> 'm gov_msg \<Rightarrow> unit res"
and msgs_ValidateBasic :: "dec_lib \<Rightarrow> coins_lib \<Rightarrow> addr_lib \<Rightarrow> ('m \<Rightarrow> unit res) \<Rightarrow> 'm gov_msg any list \<Rightarrow> unit res"
where
  "msg_ValidateBasic L C A ov (MsgSubmitProposal messages initialDeposit proposer metadata title summary) =
     bindR (failIf (title = []) ErrInvalidRequest) (\<lambda>_.
     bindR (failIf (summary = []) ErrInvalidRequest) (\<lambda>_.
     bindR (valid_address A proposer) (\<lambda>_.
     bindR (must (NewCoins C initialDeposit)) (\<lambda>deposit.
     bindR (failIf (\<not> CoinsIsValid C deposit) ErrInvalidCoins) (\<lambda>_.
     bindR (failIf (IsAnyNegative C deposit) ErrInvalidCoins) (\<lambda>_.
     bindR (failIf (messages = [] \<and> metadata = []) Gov_ErrNoProposalMsgs) (\<lambda>_.
     bindR (failIf (Broken \<in> set messages) (ErrExternal 10)) (\<lambda>_.
     msgs_ValidateBasic L C A ov messages))))))))"
| "msg_ValidateBasic L C A ov (MsgDeposit _ depositor amount) = MsgDeposit_ValidateBasic C A depositor amount"
| "msg_ValidateBasic L C A ov (MsgVote _ voter opt _) = MsgVote_ValidateBasic A voter opt"
| "msg_ValidateBasic L C A ov (MsgVoteWeighted _ voter options _) = MsgVoteWeighted_ValidateBasic L A voter options"
| "msg_ValidateBasic L C A ov (MsgExecLegacyContent _ authority) =
     bindR (orErr ErrInvalidAddress (FromBech32 A authority)) (\<lambda>_. Ok ())"
| "msg_ValidateBasic L C A ov (MsgUpdateParams authority params) =
     bindR (valid_address A authority) (\<lambda>_. gov_Params_ValidateBasic L C params)"
| "msg_ValidateBasic L C A ov (MsgProposeLaw authority) = valid_address A authority"
| "msg_ValidateBasic L C A ov (MsgProposeConstitutionAmendment authority amendment) =
     MsgProposeConstitutionAmendment_ValidateBasic A authority amendment"
| "msg_ValidateBasic L C A ov (MsgOther m) = ov m"
| "msgs_ValidateBasic L C A ov [] = Ok ()"
| "msgs_ValidateBasic L C A ov (Broken # ms) = msgs_ValidateBasic L C A ov ms"
| "msgs_ValidateBasic L C A ov (Unpacked m # ms) =
     (case msg_ValidateBasic L C A ov m of
        Ok _ \<Rightarrow> msgs_ValidateBasic L C A ov ms
      | Err _ \<Rightarrow> Err Gov_ErrInvalidProposalMsg
      | Panic \<Rightarrow> Panic)"
  by pat_completeness auto

termination
  by (relation "measure (case_sum (\<lambda>(_, _, _, _, m). size m) (\<lambda>(_, _, _, _, ms). size_list (size_any size) ms))") auto

section \<open>Proposals\<close>

datatype proposal_status =
    StatusNil | StatusDepositPeriod | StatusVotingPeriod | StatusPassed | StatusRejected
  | StatusFailed | StatusVetoed | StatusOther int

definition ValidProposalStatus :: "proposal_status \<Rightarrow> bool" where
  "ValidProposalStatus status \<longleftrightarrow> status = StatusDepositPeriod \<or> status = StatusVotingPeriod \<or>
     status = StatusPassed \<or> status = StatusRejected \<or> status = StatusFailed \<or> status = StatusVetoed"

record 'm proposal =
  prId :: u64
  prMessages :: "'m gov_msg any list"
  prStatus :: proposal_status
  prFinalTallyResult :: "tally_result option"
  prSubmitTime :: "time option"
  prDepositEndTime :: "time option"
  prTotalDeposit :: coins
  prVotingStartTime :: "time option"
  prVotingEndTime :: "time option"
  prMetadata :: string
  prTitle :: string
  prSummary :: string
  prProposer :: string
  prEndorsed :: bool
  prAnnotation :: string
  prTimesVotingPeriodExtended :: u32

definition NewProposal ::
  "addr_lib \<Rightarrow> 'm gov_msg list \<Rightarrow> u64 \<Rightarrow> time \<Rightarrow> time \<Rightarrow> string \<Rightarrow> string \<Rightarrow> string \<Rightarrow> addr \<Rightarrow> 'm proposal" where
  "NewProposal A messages proposalID submitTime depositEndTime metadata title summary proposer =
     \<lparr> prId = proposalID, prMessages = map Unpacked messages, prStatus = StatusDepositPeriod,
       prFinalTallyResult = Some EmptyTallyResult, prSubmitTime = Some submitTime,
       prDepositEndTime = Some depositEndTime, prTotalDeposit = [],
       prVotingStartTime = None, prVotingEndTime = None, prMetadata = metadata, prTitle = title,
       prSummary = summary, prProposer = ToBech32 A proposer, prEndorsed = False, prAnnotation = [],
       prTimesVotingPeriodExtended = 0 \<rparr>"

text \<open>The kinds of a proposal are a bit mask.\<close>

definition ProposalKindAny :: int where "ProposalKindAny = 1"
definition ProposalKindLaw :: int where "ProposalKindLaw = 2"
definition ProposalKindConstitutionAmendment :: int where "ProposalKindConstitutionAmendment = 4"

definition HasKindAny :: "int \<Rightarrow> bool" where "HasKindAny pk \<longleftrightarrow> pk AND ProposalKindAny \<noteq> 0"
definition HasKindLaw :: "int \<Rightarrow> bool" where "HasKindLaw pk \<longleftrightarrow> pk AND ProposalKindLaw \<noteq> 0"
definition HasKindConstitutionAmendment :: "int \<Rightarrow> bool" where
  "HasKindConstitutionAmendment pk \<longleftrightarrow> pk AND ProposalKindConstitutionAmendment \<noteq> 0"

definition kind_of_msg :: "'m gov_msg any \<Rightarrow> int" where
  "kind_of_msg m = (case m of
     Unpacked (MsgProposeConstitutionAmendment _ _) \<Rightarrow> ProposalKindConstitutionAmendment
   | Unpacked (MsgProposeLaw _) \<Rightarrow> ProposalKindLaw
   | _ \<Rightarrow> ProposalKindAny)"

definition ProposalKinds :: "'m proposal \<Rightarrow> int" where
  "ProposalKinds p =
     (if prMessages p = [] then ProposalKindAny
      else fold (\<lambda>m kinds. kinds OR kind_of_msg m) (prMessages p) 0)"

lemma kinds_fold_bit:
  "bit (fold (\<lambda>m kinds. kinds OR kind_of_msg m) ms k) n \<longleftrightarrow> bit k n \<or> (\<exists>m \<in> set ms. bit (kind_of_msg m) n)"
  by (induction ms arbitrary: k) (auto simp: bit_or_iff)

lemma kind_bits:
  "HasKindAny k \<longleftrightarrow> bit k 0" "HasKindLaw k \<longleftrightarrow> bit k 1" "HasKindConstitutionAmendment k \<longleftrightarrow> bit k 2"
  by (simp_all add: HasKindAny_def HasKindLaw_def HasKindConstitutionAmendment_def ProposalKindAny_def
      ProposalKindLaw_def ProposalKindConstitutionAmendment_def bit_iff_and_push_bit_not_eq_0 push_bit_eq_mult)

section \<open>The next minimum deposit\<close>

definition scaled_amount :: "dec_lib \<Rightarrow> int \<Rightarrow> dec \<Rightarrow> int res" where
  "scaled_amount L n percChange =
     bindR (must (dMul L (dec_of_int n) percChange)) (\<lambda>d. Ok (dTruncateInt L d))"

definition GetNewMinDeposit :: "dec_lib \<Rightarrow> coins_lib \<Rightarrow> coins \<Rightarrow> coins \<Rightarrow> dec \<Rightarrow> coins res" where
  "GetNewMinDeposit L C minDepositFloor lastMinDeposit percChange =
     bindR (foldR (\<lambda>lastCoin (newMinDeposit, seen).
         bindR (must (AmountOf C minDepositFloor (Denom lastCoin))) (\<lambda>floorAmt.
         if floorAmt = 0 then Ok (newMinDeposit, seen)
         else
           bindR (scaled_amount L (Amount lastCoin) percChange) (\<lambda>amt.
           bindR (must (NewCoin C (Denom lastCoin) (if amt < floorAmt then floorAmt else amt))) (\<lambda>coin.
           Ok (newMinDeposit @ [coin], Denom lastCoin # seen))))) lastMinDeposit ([], [])) (\<lambda>(newMinDeposit, seen).
     foldR (\<lambda>floorCoin newMinDeposit.
         if Denom floorCoin \<in> set seen then Ok newMinDeposit
         else
           bindR (scaled_amount L (Amount floorCoin) percChange) (\<lambda>amt.
           if amt < Amount floorCoin then Ok (newMinDeposit @ [floorCoin])
           else bindR (must (NewCoin C (Denom floorCoin) amt)) (\<lambda>coin. Ok (newMinDeposit @ [coin]))))
       minDepositFloor newMinDeposit)"

section \<open>Genesis\<close>

type_synonym last_min_deposit = "coins \<times> time"

record 'm gov_genesis =
  ggStartingProposalId :: u64
  ggDeposits :: "deposit list"
  ggVotes :: "vote list"
  ggProposals :: "'m proposal list"
  ggParams :: "gov_params option"
  ggConstitution :: string
  ggLastMinDeposit :: "(coins \<times> time option) option"
  ggLastMinInitialDeposit :: "(coins \<times> time option) option"
  ggParticipationEma :: string
  ggConstitutionAmendmentParticipationEma :: string
  ggLawParticipationEma :: string

text \<open>The checks of the error group run concurrently; here they run in the order of the code.\<close>

definition no_duplicates :: "err \<Rightarrow> 'a list \<Rightarrow> unit res" where
  "no_duplicates e xs =
     bindR (foldR (\<lambda>x seen. if x \<in> set seen then Err e else Ok (x # seen)) xs []) (\<lambda>_. Ok ())"

definition gov_ValidateGenesis :: "dec_lib \<Rightarrow> coins_lib \<Rightarrow> 'm gov_genesis \<Rightarrow> unit res" where
  "gov_ValidateGenesis L C data =
     bindR (failIf (ggStartingProposalId data = 0) (ErrText ''starting proposal id must be greater than 0'')) (\<lambda>_.
     let ids = map prId (ggProposals data) in
     bindR (no_duplicates (ErrText ''duplicate proposal id'') ids) (\<lambda>_.
     bindR (foldR (\<lambda>d _. failIf (dProposalId d \<notin> set ids) (ErrText ''deposit has non-existent proposal id''))
       (ggDeposits data) ()) (\<lambda>_.
     bindR (no_duplicates (ErrText ''duplicate deposit'')
       (map (\<lambda>d. (dProposalId d, dDepositor d)) (ggDeposits data))) (\<lambda>_.
     bindR (foldR (\<lambda>v _. failIf (vProposalId v \<notin> set ids) (ErrText ''vote has non-existent proposal id''))
       (ggVotes data) ()) (\<lambda>_.
     bindR (no_duplicates (ErrText ''duplicate vote'')
       (map (\<lambda>v. (vProposalId v, vVoter v)) (ggVotes data))) (\<lambda>_.
     bindR (must (ggParams data)) (gov_Params_ValidateBasic L C)))))))"

end
