(* ===== verification/Gov_Keeper.thy ===== *)
theory Gov_Keeper
  imports Gov_Types
begin

text \<open>
  \<open>x/gov/keeper\<close>, first part: the store of the module and what the keeper is built from, the
  parameters, the constitution, the proposal queues and counters, the participation averages
  with the quorums they give, and the two throttlers of the minimum deposits. The rest of the
  chain state is of type \<open>'x\<close>.
\<close>

section \<open>Store\<close>

text \<open>
  One field per key prefix of \<open>types/keys.go\<close>. The queues are ordered by time and then by
  proposal, deposits and votes by proposal and then by the length-prefixed address.
\<close>

type_synonym queue_key = "time \<times> u64"

record 'm gov_store =
  gProposals :: "(u64, 'm proposal) kv"
  gActiveQueue :: "(queue_key, unit) kv"
  gInactiveQueue :: "(queue_key, unit) kv"
  gProposalID :: "u64 option"
  gVotingPeriod :: "(u64, unit) kv"
  gQuorumQueue :: "(queue_key, quorum_entry) kv"
  gActiveNumber :: "u64 option"
  gLastMinDeposit :: "last_min_deposit option"
  gInactiveNumber :: "u64 option"
  gLastMinInitialDeposit :: "last_min_deposit option"
  gDeposits :: "(u64 \<times> addr, deposit) kv"
  gVotes :: "(u64 \<times> addr, vote) kv"
  gParams :: "gov_params option"
  gConstitution :: string
  gEma :: string
  gConstitutionAmendmentEma :: string
  gLawEma :: string

record ('m, 'x) world =
  wGov :: "'m gov_store"
  wExt :: 'x

section \<open>What the keeper is built from\<close>

record validator =
  valBondedTokens :: int
  valDelegatorShares :: dec

text \<open>The calls of the gov hooks.\<close>

datatype gov_hook =
    AfterProposalSubmission u64
  | AfterProposalDeposit u64 addr
  | AfterProposalVote u64 addr
  | AfterProposalFailedMinDeposit u64
  | AfterProposalVotingPeriodEnded u64

text \<open>
  \<open>geBeforeHandler\<close> is what the message router checks before it calls the handler of a message.
  \<open>geLengthPrefix\<close> is \<open>address.LengthPrefix\<close> (\<open>None\<close> when the address is too long);
  \<open>geSigners\<close> the signers the codec finds in a message; \<open>geOtherHandler\<close> and
  \<open>geLegacyHandler\<close> the routers, \<open>None\<close> without a route; \<open>geChargeProposal\<close> the gas consumed for
  the bytes of a new proposal (\<open>None\<close> when it runs out); \<open>geDelegations\<close> the delegations an iteration visits and the
  error it may end with.
\<close>

record ('m, 'x) gov_env =
  geDec :: dec_lib
  geCoins :: coins_lib
  geAddr :: addr_lib
  geLengthPrefix :: "addr \<Rightarrow> addr option"
  geBank :: "'x bank_lib"
  geAuthority :: string
  geMaxMetadataLen :: nat
  geGovAddr :: addr
  geSigners :: "'m gov_msg \<Rightarrow> addr list res"
  geOtherValidate :: "'m \<Rightarrow> unit res"
  geOtherHandler :: "'m \<Rightarrow> ('x \<Rightarrow> 'x res) option"
  geLegacyHandler :: "string \<Rightarrow> (content \<Rightarrow> 'x \<Rightarrow> 'x res) option"
  geBeforeHandler :: "'m gov_msg \<Rightarrow> unit res"
  geChargeProposal :: "'m proposal \<Rightarrow> 'x \<Rightarrow> 'x option"
  geBondedValidators :: "'x \<Rightarrow> (string \<Rightarrow> validator option) res"
  geTotalBonded :: "'x \<Rightarrow> int res"
  geDelegations :: "'x \<Rightarrow> addr \<Rightarrow> (string \<times> dec) list \<times> err option"
  geHook :: "gov_hook \<Rightarrow> 'x \<Rightarrow> 'x option"

definition gov_ModuleName :: string where "gov_ModuleName = ''gov''"

definition on_ext :: "('x \<Rightarrow> 'x res) \<Rightarrow> ('m, 'x) world \<Rightarrow> ('m, 'x) world res" where
  "on_ext f w = bindR (f (wExt w)) (\<lambda>x. Ok (w\<lparr>wExt := x\<rparr>))"

text \<open>The hooks return no error: a call ends, or panics.\<close>

definition run_hook :: "('m, 'x) gov_env \<Rightarrow> gov_hook \<Rightarrow> ('m, 'x) world \<Rightarrow> ('m, 'x) world res" where
  "run_hook E h = on_ext (\<lambda>x. must (geHook E h x))"

definition on_gov :: "('m gov_store \<Rightarrow> 'm gov_store) \<Rightarrow> ('m, 'x) world \<Rightarrow> ('m, 'x) world" where
  "on_gov f w = w\<lparr>wGov := f (wGov w)\<rparr>"

text \<open>\<open>MustLengthPrefix\<close> and \<open>MustAccAddressFromBech32\<close> panic.\<close>

definition addr_key :: "('m, 'x) gov_env \<Rightarrow> addr \<Rightarrow> addr res" where
  "addr_key E a = must (geLengthPrefix E a)"

definition must_addr :: "('m, 'x) gov_env \<Rightarrow> string \<Rightarrow> addr res" where
  "must_addr E s = must (FromBech32 (geAddr E) s)"

definition assertMetadataLength :: "('m, 'x) gov_env \<Rightarrow> string \<Rightarrow> unit res" where
  "assertMetadataLength E metadata =
     failIf (metadata \<noteq> [] \<and> geMaxMetadataLen E < length metadata) Gov_ErrMetadataTooLong"

section \<open>Parameters, constitution and proposals\<close>

definition gov_GetParams :: "('m, 'x) world \<Rightarrow> gov_params" where
  "gov_GetParams w = (case gParams (wGov w) of None \<Rightarrow> gov_zero_params | Some p \<Rightarrow> p)"

definition gov_SetParams :: "gov_params \<Rightarrow> ('m, 'x) world \<Rightarrow> ('m, 'x) world" where
  "gov_SetParams p = on_gov (gParams_update (\<lambda>_. Some p))"

definition GetConstitution :: "('m, 'x) world \<Rightarrow> string" where
  "GetConstitution w = gConstitution (wGov w)"

definition SetConstitution :: "string \<Rightarrow> ('m, 'x) world \<Rightarrow> ('m, 'x) world" where
  "SetConstitution c = on_gov (gConstitution_update (\<lambda>_. c))"

definition ApplyConstitutionAmendment :: "string \<Rightarrow> ('m, 'x) world \<Rightarrow> string res" where
  "ApplyConstitutionAmendment amendment w =
     bindR (failIf (amendment = []) Gov_ErrInvalidConstitutionAmendment) (\<lambda>_.
     case ApplyUnifiedDiff (GetConstitution w) amendment of
       Ok updated \<Rightarrow> Ok updated | Err _ \<Rightarrow> Err Gov_ErrInvalidConstitutionAmendment | Panic \<Rightarrow> Panic)"

definition GetProposal :: "('m, 'x) world \<Rightarrow> u64 \<Rightarrow> 'm proposal option" where
  "GetProposal w proposalID = kv_get (gProposals (wGov w)) proposalID"

definition SetProposal :: "'m proposal \<Rightarrow> ('m, 'x) world \<Rightarrow> ('m, 'x) world" where
  "SetProposal p = on_gov (\<lambda>g.
     g\<lparr>gVotingPeriod := (if prStatus p = StatusVotingPeriod then kv_set (prId p) () (gVotingPeriod g)
         else kv_del (prId p) (gVotingPeriod g)),
       gProposals := kv_set (prId p) p (gProposals g)\<rparr>)"

definition GetProposals :: "('m, 'x) world \<Rightarrow> 'm proposal list" where
  "GetProposals w = map snd (gProposals (wGov w))"

definition GetProposalID :: "('m, 'x) world \<Rightarrow> u64 res" where
  "GetProposalID w = orErr Gov_ErrInvalidGenesis (gProposalID (wGov w))"

definition SetProposalID :: "u64 \<Rightarrow> ('m, 'x) world \<Rightarrow> ('m, 'x) world" where
  "SetProposalID n = on_gov (gProposalID_update (\<lambda>_. Some n))"

section \<open>Queues\<close>

definition InsertActiveProposalQueue :: "u64 \<Rightarrow> time \<Rightarrow> ('m, 'x) world \<Rightarrow> ('m, 'x) world" where
  "InsertActiveProposalQueue proposalID endTime = on_gov (gActiveQueue_update (kv_set (endTime, proposalID) ()))"

definition RemoveFromActiveProposalQueue :: "u64 \<Rightarrow> time \<Rightarrow> ('m, 'x) world \<Rightarrow> ('m, 'x) world" where
  "RemoveFromActiveProposalQueue proposalID endTime = on_gov (gActiveQueue_update (kv_del (endTime, proposalID)))"

definition InsertInactiveProposalQueue :: "u64 \<Rightarrow> time \<Rightarrow> ('m, 'x) world \<Rightarrow> ('m, 'x) world" where
  "InsertInactiveProposalQueue proposalID endTime = on_gov (gInactiveQueue_update (kv_set (endTime, proposalID) ()))"

definition RemoveFromInactiveProposalQueue :: "u64 \<Rightarrow> time \<Rightarrow> ('m, 'x) world \<Rightarrow> ('m, 'x) world" where
  "RemoveFromInactiveProposalQueue proposalID endTime = on_gov (gInactiveQueue_update (kv_del (endTime, proposalID)))"

definition InsertQuorumCheckQueue :: "u64 \<Rightarrow> time \<Rightarrow> quorum_entry \<Rightarrow> ('m, 'x) world \<Rightarrow> ('m, 'x) world" where
  "InsertQuorumCheckQueue proposalID endTime q = on_gov (gQuorumQueue_update (kv_set (endTime, proposalID) q))"

definition RemoveFromQuorumCheckQueue :: "u64 \<Rightarrow> time \<Rightarrow> ('m, 'x) world \<Rightarrow> ('m, 'x) world" where
  "RemoveFromQuorumCheckQueue proposalID endTime = on_gov (gQuorumQueue_update (kv_del (endTime, proposalID)))"

text \<open>
  The iterators: the entries with a time up to \<open>endTime\<close>, in key order, as they are when the
  iterator is created. The callback returns the new state and whether to stop; a queued
  proposal that does not exist is a panic.
\<close>

definition due :: "time \<Rightarrow> (queue_key, 'v) kv \<Rightarrow> (queue_key \<times> 'v) list" where
  "due endTime q = filter (\<lambda>((t, _), _). t \<le> endTime) q"

fun iterate_queue ::
  "(queue_key \<times> 'v) list \<Rightarrow> ('m proposal \<Rightarrow> time \<Rightarrow> 'v \<Rightarrow> ('m, 'x) world \<Rightarrow> (bool \<times> ('m, 'x) world) res) \<Rightarrow>
     ('m, 'x) world \<Rightarrow> ('m, 'x) world res" where
  "iterate_queue [] cb w = Ok w"
| "iterate_queue (((t, proposalID), v) # es) cb w =
     bindR (must (GetProposal w proposalID)) (\<lambda>proposal.
     bindR (cb proposal t v w) (\<lambda>(stop, w). if stop then Ok w else iterate_queue es cb w))"

definition IterateActiveProposalsQueue ::
  "time \<Rightarrow> ('m proposal \<Rightarrow> ('m, 'x) world \<Rightarrow> (bool \<times> ('m, 'x) world) res) \<Rightarrow> ('m, 'x) world \<Rightarrow> ('m, 'x) world res" where
  "IterateActiveProposalsQueue endTime cb w =
     iterate_queue (due endTime (gActiveQueue (wGov w))) (\<lambda>p _ _. cb p) w"

definition IterateInactiveProposalsQueue ::
  "time \<Rightarrow> ('m proposal \<Rightarrow> ('m, 'x) world \<Rightarrow> (bool \<times> ('m, 'x) world) res) \<Rightarrow> ('m, 'x) world \<Rightarrow> ('m, 'x) world res" where
  "IterateInactiveProposalsQueue endTime cb w =
     iterate_queue (due endTime (gInactiveQueue (wGov w))) (\<lambda>p _ _. cb p) w"

definition IterateQuorumCheckQueue ::
  "time \<Rightarrow> ('m proposal \<Rightarrow> time \<Rightarrow> quorum_entry \<Rightarrow> ('m, 'x) world \<Rightarrow> (bool \<times> ('m, 'x) world) res) \<Rightarrow>
     ('m, 'x) world \<Rightarrow> ('m, 'x) world res" where
  "IterateQuorumCheckQueue endTime cb w = iterate_queue (due endTime (gQuorumQueue (wGov w))) cb w"

section \<open>Participation and quorum\<close>

definition ema_get :: "('m, 'x) gov_env \<Rightarrow> ('m gov_store \<Rightarrow> string) \<Rightarrow> ('m, 'x) world \<Rightarrow> dec res" where
  "ema_get E key w = must (dOfStr (geDec E) (key (wGov w)))"

definition GetParticipationEMA where "GetParticipationEMA E = ema_get E gEma"
definition GetConstitutionAmendmentParticipationEMA where
  "GetConstitutionAmendmentParticipationEMA E = ema_get E gConstitutionAmendmentEma"
definition GetLawParticipationEMA where "GetLawParticipationEMA E = ema_get E gLawEma"

definition SetParticipationEMA :: "('m, 'x) gov_env \<Rightarrow> dec \<Rightarrow> ('m, 'x) world \<Rightarrow> ('m, 'x) world" where
  "SetParticipationEMA E d = on_gov (gEma_update (\<lambda>_. dStr (geDec E) d))"
definition SetConstitutionAmendmentParticipationEMA :: "('m, 'x) gov_env \<Rightarrow> dec \<Rightarrow> ('m, 'x) world \<Rightarrow> ('m, 'x) world" where
  "SetConstitutionAmendmentParticipationEMA E d = on_gov (gConstitutionAmendmentEma_update (\<lambda>_. dStr (geDec E) d))"
definition SetLawParticipationEMA :: "('m, 'x) gov_env \<Rightarrow> dec \<Rightarrow> ('m, 'x) world \<Rightarrow> ('m, 'x) world" where
  "SetLawParticipationEMA E d = on_gov (gLawEma_update (\<lambda>_. dStr (geDec E) d))"

text \<open>The new average: \<open>0.8\<close> of the old one plus \<open>0.2\<close> of the participation.\<close>

definition ema_next :: "dec_lib \<Rightarrow> dec \<Rightarrow> dec \<Rightarrow> dec res" where
  "ema_next L old participation =
     bindR (must (dMul L old (dec_with_prec 8 1))) (\<lambda>a.
     bindR (must (dMul L participation (dec_with_prec 2 1))) (\<lambda>b.
     must (dAdd L a b)))"

definition UpdateParticipationEMA ::
  "('m, 'x) gov_env \<Rightarrow> 'm proposal \<Rightarrow> dec \<Rightarrow> ('m, 'x) world \<Rightarrow> ('m, 'x) world res" where
  "UpdateParticipationEMA E proposal participation w =
     (let kinds = ProposalKinds proposal in
      bindR (if HasKindConstitutionAmendment kinds
        then bindR (GetConstitutionAmendmentParticipationEMA E w) (\<lambda>old.
             bindR (ema_next (geDec E) old participation) (\<lambda>d.
             Ok (SetConstitutionAmendmentParticipationEMA E d w)))
        else Ok w) (\<lambda>w.
      bindR (if HasKindLaw kinds
        then bindR (GetLawParticipationEMA E w) (\<lambda>old.
             bindR (ema_next (geDec E) old participation) (\<lambda>d. Ok (SetLawParticipationEMA E d w)))
        else Ok w) (\<lambda>w.
      if HasKindAny kinds
        then bindR (GetParticipationEMA E w) (\<lambda>old.
             bindR (ema_next (geDec E) old participation) (\<lambda>d. Ok (SetParticipationEMA E d w)))
        else Ok w)))"

definition computeQuorum :: "dec_lib \<Rightarrow> dec \<Rightarrow> dec \<Rightarrow> dec \<Rightarrow> dec res" where
  "computeQuorum L participationEma minQuorum maxQuorum =
     bindR (must (dSub L maxQuorum minQuorum)) (\<lambda>d.
     bindR (must (dMul L d participationEma)) (\<lambda>d.
     must (dAdd L minQuorum d)))"

definition quorum_from :: "dec_lib \<Rightarrow> dec res \<Rightarrow> quorum_range option \<Rightarrow> dec res" where
  "quorum_from L ema rng =
     bindR ema (\<lambda>participation.
     bindR (must rng) (\<lambda>r.
     bindR (must (dOfStr L (qrMin r))) (\<lambda>minQuorum.
     bindR (must (dOfStr L (qrMax r))) (\<lambda>maxQuorum.
     computeQuorum L participation minQuorum maxQuorum))))"

definition GetQuorum :: "('m, 'x) gov_env \<Rightarrow> ('m, 'x) world \<Rightarrow> dec res" where
  "GetQuorum E w = quorum_from (geDec E) (GetParticipationEMA E w) (gpQuorumRange (gov_GetParams w))"

definition GetConstitutionAmendmentQuorum :: "('m, 'x) gov_env \<Rightarrow> ('m, 'x) world \<Rightarrow> dec res" where
  "GetConstitutionAmendmentQuorum E w = quorum_from (geDec E) (GetConstitutionAmendmentParticipationEMA E w)
     (gpConstitutionAmendmentQuorumRange (gov_GetParams w))"

definition GetLawQuorum :: "('m, 'x) gov_env \<Rightarrow> ('m, 'x) world \<Rightarrow> dec res" where
  "GetLawQuorum E w = quorum_from (geDec E) (GetLawParticipationEMA E w) (gpLawQuorumRange (gov_GetParams w))"

section \<open>Counters and throttlers\<close>

text \<open>\<open>time.Time{}\<close>: the first instant of the year one.\<close>

definition zero_time :: time where "zero_time = - 62135596800 * 1000000000"

definition GetActiveProposalsNumber :: "('m, 'x) world \<Rightarrow> u64" where
  "GetActiveProposalsNumber w = (case gActiveNumber (wGov w) of None \<Rightarrow> 0 | Some n \<Rightarrow> n)"

definition SetActiveProposalsNumber :: "u64 \<Rightarrow> ('m, 'x) world \<Rightarrow> ('m, 'x) world" where
  "SetActiveProposalsNumber n = on_gov (gActiveNumber_update (\<lambda>_. Some n))"

definition GetInactiveProposalsNumber :: "('m, 'x) world \<Rightarrow> u64" where
  "GetInactiveProposalsNumber w = (case gInactiveNumber (wGov w) of None \<Rightarrow> 0 | Some n \<Rightarrow> n)"

definition SetInactiveProposalsNumber :: "u64 \<Rightarrow> ('m, 'x) world \<Rightarrow> ('m, 'x) world" where
  "SetInactiveProposalsNumber n = on_gov (gInactiveNumber_update (\<lambda>_. Some n))"

definition GetLastMinDeposit :: "('m, 'x) world \<Rightarrow> last_min_deposit" where
  "GetLastMinDeposit w = (case gLastMinDeposit (wGov w) of None \<Rightarrow> ([], zero_time) | Some l \<Rightarrow> l)"

definition SetLastMinDeposit :: "coins \<Rightarrow> time \<Rightarrow> ('m, 'x) world \<Rightarrow> ('m, 'x) world" where
  "SetLastMinDeposit v t = on_gov (gLastMinDeposit_update (\<lambda>_. Some (v, t)))"

definition GetLastMinInitialDeposit :: "('m, 'x) world \<Rightarrow> last_min_deposit" where
  "GetLastMinInitialDeposit w = (case gLastMinInitialDeposit (wGov w) of None \<Rightarrow> ([], zero_time) | Some l \<Rightarrow> l)"

definition SetLastMinInitialDeposit :: "coins \<Rightarrow> time \<Rightarrow> ('m, 'x) world \<Rightarrow> ('m, 'x) world" where
  "SetLastMinInitialDeposit v t = on_gov (gLastMinInitialDeposit_update (\<lambda>_. Some (v, t)))"

definition GetFloorValue :: "throttler option \<Rightarrow> coins" where
  "GetFloorValue th = (case th of None \<Rightarrow> [] | Some t \<Rightarrow> thFloorValue t)"

definition GetMinDeposit :: "('m, 'x) world \<Rightarrow> coins" where
  "GetMinDeposit w = (let minDeposit = fst (GetLastMinDeposit w) in
     if minDeposit = [] then GetFloorValue (gpMinDepositThrottler (gov_GetParams w)) else minDeposit)"

definition GetMinInitialDeposit :: "('m, 'x) world \<Rightarrow> coins" where
  "GetMinInitialDeposit w = (let minInitialDeposit = fst (GetLastMinInitialDeposit w) in
     if minInitialDeposit = [] then GetFloorValue (gpMinInitialDepositThrottler (gov_GetParams w))
     else minInitialDeposit)"

text \<open>
  The common body of \<open>UpdateMinDeposit\<close> and \<open>UpdateMinInitialDeposit\<close>, which differ in the
  throttler, the counter and the stored value they use: the new value, or \<open>None\<close> where the code
  returns without an update.
\<close>

definition next_min_deposit ::
  "dec_lib \<Rightarrow> coins_lib \<Rightarrow> throttler option \<Rightarrow> u64 \<Rightarrow> last_min_deposit \<Rightarrow> time \<Rightarrow> bool \<Rightarrow> coins option res" where
  "next_min_deposit L C th_opt number lastDep blockTime checkElapsedTime =
     bindR (must th_opt) (\<lambda>th.
     bindR (if checkElapsedTime then bindR (must (thUpdatePeriod th)) (\<lambda>tick.
              Ok (time_sub blockTime (snd lastDep) < tick)) else Ok False) (\<lambda>tooSoon.
     if tooSoon then Ok None
     else
       let target = uint (thTarget th); n = uint number in
       bindR (if target \<le> n then
           (if checkElapsedTime then Ok None
            else bindR (must (dOfStr L (thIncreaseRatio th))) (\<lambda>alpha. Ok (Some alpha)))
         else
           (if \<not> checkElapsedTime then Ok None
            else
              let distance = dec_of_int (n - target);
                  b = (case dApproxRoot L distance (thDecreaseSensitivityTargetDistance th) of
                         None \<Rightarrow> distance | Some r \<Rightarrow> r) in
              bindR (must (dOfStr L (thDecreaseRatio th))) (\<lambda>alpha.
              bindR (must (dMul L alpha b)) (\<lambda>alpha. Ok (Some alpha))))) (\<lambda>alpha.
       case alpha of None \<Rightarrow> Ok None
       | Some alpha \<Rightarrow>
           bindR (must (dAdd L dec_one alpha)) (\<lambda>percChange.
           bindR (GetNewMinDeposit L C (thFloorValue th) (fst lastDep) percChange) (\<lambda>v. Ok (Some v))))))"

definition UpdateMinDeposit :: "('m, 'x) gov_env \<Rightarrow> time \<Rightarrow> bool \<Rightarrow> ('m, 'x) world \<Rightarrow> ('m, 'x) world res" where
  "UpdateMinDeposit E blockTime checkElapsedTime w =
     bindR (next_min_deposit (geDec E) (geCoins E) (gpMinDepositThrottler (gov_GetParams w))
       (GetActiveProposalsNumber w) (GetLastMinDeposit w) blockTime checkElapsedTime) (\<lambda>v.
     Ok (case v of None \<Rightarrow> w | Some cs \<Rightarrow> SetLastMinDeposit cs blockTime w))"

definition UpdateMinInitialDeposit :: "('m, 'x) gov_env \<Rightarrow> time \<Rightarrow> bool \<Rightarrow> ('m, 'x) world \<Rightarrow> ('m, 'x) world res" where
  "UpdateMinInitialDeposit E blockTime checkElapsedTime w =
     bindR (next_min_deposit (geDec E) (geCoins E) (gpMinInitialDepositThrottler (gov_GetParams w))
       (GetInactiveProposalsNumber w) (GetLastMinInitialDeposit w) blockTime checkElapsedTime) (\<lambda>v.
     Ok (case v of None \<Rightarrow> w | Some cs \<Rightarrow> SetLastMinInitialDeposit cs blockTime w))"

definition IncrementActiveProposalsNumber :: "('m, 'x) gov_env \<Rightarrow> time \<Rightarrow> ('m, 'x) world \<Rightarrow> ('m, 'x) world res" where
  "IncrementActiveProposalsNumber E blockTime w =
     UpdateMinDeposit E blockTime False (SetActiveProposalsNumber (GetActiveProposalsNumber w + 1) w)"

definition DecrementActiveProposalsNumber :: "('m, 'x) world \<Rightarrow> ('m, 'x) world res" where
  "DecrementActiveProposalsNumber w =
     (let n = GetActiveProposalsNumber w in
      if 0 < n then Ok (SetActiveProposalsNumber (n - 1) w) else Panic)"

definition IncrementInactiveProposalsNumber :: "('m, 'x) gov_env \<Rightarrow> time \<Rightarrow> ('m, 'x) world \<Rightarrow> ('m, 'x) world res" where
  "IncrementInactiveProposalsNumber E blockTime w =
     UpdateMinInitialDeposit E blockTime False (SetInactiveProposalsNumber (GetInactiveProposalsNumber w + 1) w)"

definition DecrementInactiveProposalsNumber :: "('m, 'x) world \<Rightarrow> ('m, 'x) world res" where
  "DecrementInactiveProposalsNumber w =
     (let n = GetInactiveProposalsNumber w in
      if 0 < n then Ok (SetInactiveProposalsNumber (n - 1) w) else Panic)"

end
