(* ===== verification/Gov_Proposal.thy ===== *)
theory Gov_Proposal
  imports Gov_Keeper
begin

text \<open>
  \<open>x/gov/keeper/proposal.go\<close> and \<open>deposit.go\<close>: submission, activation and deletion of proposals;
  deposits, their refund and their burning.
\<close>

section \<open>Legacy content\<close>

definition content_route :: "content \<Rightarrow> string" where
  "content_route c = (case c of TextProposal _ _ \<Rightarrow> ''gov'' | OtherContent r _ _ _ _ \<Rightarrow> r)"

text \<open>The handler of \<open>MsgExecLegacyContent\<close> (\<open>msg_server.go\<close>), which submission tries out.\<close>

definition ExecLegacyContent ::
  "('m, 'x) gov_env \<Rightarrow> content any \<Rightarrow> string \<Rightarrow> ('m, 'x) world \<Rightarrow> ('m, 'x) world res" where
  "ExecLegacyContent E content authority w =
     bindR (failIf (ToBech32 (geAddr E) (geGovAddr E) \<noteq> authority) Gov_ErrInvalidSigner) (\<lambda>_.
     case content of Broken \<Rightarrow> Err Gov_ErrInvalidProposalContent
     | Unpacked c \<Rightarrow>
       bindR (orErr Gov_ErrNoProposalHandlerExists (geLegacyHandler E (content_route c))) (\<lambda>handler.
       case on_ext (handler c) w of
         Ok w \<Rightarrow> Ok w | Err _ \<Rightarrow> Err Gov_ErrInvalidProposalContent | Panic \<Rightarrow> Panic))"

section \<open>Submission\<close>

definition has_route :: "('m, 'x) gov_env \<Rightarrow> 'm gov_msg \<Rightarrow> bool" where
  "has_route E msg = (case msg of MsgOther m \<Rightarrow> geOtherHandler E m \<noteq> None | _ \<Rightarrow> True)"

text \<open>The checks of one message of a proposal; the cached context of the trial run is dropped.\<close>

definition check_proposal_msg :: "('m, 'x) gov_env \<Rightarrow> ('m, 'x) world \<Rightarrow> 'm gov_msg \<Rightarrow> unit res" where
  "check_proposal_msg E w msg =
     bindR (case msg_ValidateBasic (geDec E) (geCoins E) (geAddr E) (geOtherValidate E) msg of
         Ok _ \<Rightarrow> Ok () | Err _ \<Rightarrow> Err Gov_ErrInvalidProposalMsg | Panic \<Rightarrow> Panic) (\<lambda>_.
     bindR (geSigners E msg) (\<lambda>signers.
     bindR (failIf (length signers \<noteq> 1) Gov_ErrInvalidSigner) (\<lambda>_.
     bindR (failIf (hd signers \<noteq> geGovAddr E) Gov_ErrInvalidSigner) (\<lambda>_.
     bindR (failIf (\<not> has_route E msg) Gov_ErrUnroutableProposalMsg) (\<lambda>_.
     case msg of
       MsgExecLegacyContent content authority \<Rightarrow>
         (case bindR (geBeforeHandler E msg) (\<lambda>_. ExecLegacyContent E content authority w) of
            Ok _ \<Rightarrow> Ok ()
          | Err e \<Rightarrow> Err (if e = Gov_ErrNoProposalHandlerExists then e else Gov_ErrInvalidProposalContent)
          | Panic \<Rightarrow> Panic)
     | _ \<Rightarrow> Ok ())))))"

definition SubmitProposal ::
  "('m, 'x) gov_env \<Rightarrow> time \<Rightarrow> 'm gov_msg list \<Rightarrow> string \<Rightarrow> string \<Rightarrow> string \<Rightarrow> addr \<Rightarrow> ('m, 'x) world \<Rightarrow>
     ('m proposal \<times> ('m, 'x) world) res" where
  "SubmitProposal E blockTime messages metadata title summary proposer w =
     bindR (assertMetadataLength E metadata) (\<lambda>_.
     bindR (assertMetadataLength E summary) (\<lambda>_.
     bindR (assertMetadataLength E title) (\<lambda>_.
     bindR (foldR (\<lambda>msg _. check_proposal_msg E w msg) messages ()) (\<lambda>_.
     bindR (GetProposalID w) (\<lambda>proposalID.
     let submitTime = blockTime in
     bindR (must (gpMaxDepositPeriod (gov_GetParams w))) (\<lambda>depositPeriod.
     let endTime = time_add submitTime depositPeriod;
         proposal = NewProposal (geAddr E) messages proposalID submitTime endTime metadata title summary proposer;
         w = SetProposal proposal w;
         w = InsertInactiveProposalQueue proposalID endTime w;
         w = SetProposalID (proposalID + 1) w in
     bindR (IncrementInactiveProposalsNumber E blockTime w) (\<lambda>w.
     bindR (run_hook E (AfterProposalSubmission proposalID) w) (\<lambda>w.
     Ok (proposal, w)))))))))"

section \<open>Deletion and activation\<close>

definition DeleteProposal :: "('m, 'x) gov_env \<Rightarrow> u64 \<Rightarrow> ('m, 'x) world \<Rightarrow> ('m, 'x) world res" where
  "DeleteProposal E proposalID w =
     bindR (must (GetProposal w proposalID)) (\<lambda>proposal.
     let w = (case prDepositEndTime proposal of None \<Rightarrow> w
              | Some t \<Rightarrow> RemoveFromInactiveProposalQueue proposalID t w) in
     bindR (case prVotingEndTime proposal of None \<Rightarrow> Ok w
       | Some t \<Rightarrow>
           let w = RemoveFromActiveProposalQueue proposalID t w;
               w = on_gov (gVotingPeriod_update (kv_del proposalID)) w in
           bindR (must (prVotingStartTime proposal)) (\<lambda>start.
           IterateQuorumCheckQueue start (\<lambda>p t _ w.
             if prId p = proposalID then Ok (True, RemoveFromQuorumCheckQueue (prId p) t w) else Ok (False, w)) w))
     (\<lambda>w. Ok (on_gov (gProposals_update (kv_del proposalID)) w)))"

definition ActivateVotingPeriod ::
  "('m, 'x) gov_env \<Rightarrow> time \<Rightarrow> 'm proposal \<Rightarrow> ('m, 'x) world \<Rightarrow> ('m, 'x) world res" where
  "ActivateVotingPeriod E blockTime proposal w =
     (let startTime = blockTime; p = gov_GetParams w in
      bindR (must (gpVotingPeriod p)) (\<lambda>votingPeriod.
      let endTime = time_add startTime votingPeriod;
          proposal = proposal\<lparr>prVotingStartTime := Some startTime, prVotingEndTime := Some endTime,
            prStatus := StatusVotingPeriod\<rparr>;
          w = SetProposal proposal w in
      bindR (must (prDepositEndTime proposal)) (\<lambda>depositEndTime.
      let w = RemoveFromInactiveProposalQueue (prId proposal) depositEndTime w in
      bindR (DecrementInactiveProposalsNumber w) (\<lambda>w.
      let w = InsertActiveProposalQueue (prId proposal) endTime w in
      bindR (if 0 < gpQuorumCheckCount p
        then bindR (must (gpQuorumTimeout p)) (\<lambda>timeout.
             let quorumTimeoutTime = time_add startTime timeout in
             Ok (InsertQuorumCheckQueue (prId proposal) quorumTimeoutTime
                  (NewQuorumCheckQueueEntry quorumTimeoutTime (gpQuorumCheckCount p)) w))
        else Ok w) (\<lambda>w.
      IncrementActiveProposalsNumber E blockTime w)))))"

section \<open>Deposits\<close>

definition GetDeposit :: "('m, 'x) gov_env \<Rightarrow> ('m, 'x) world \<Rightarrow> u64 \<Rightarrow> addr \<Rightarrow> deposit option res" where
  "GetDeposit E w proposalID depositor =
     bindR (addr_key E depositor) (\<lambda>k. Ok (kv_get (gDeposits (wGov w)) (proposalID, k)))"

definition SetDeposit :: "('m, 'x) gov_env \<Rightarrow> deposit \<Rightarrow> ('m, 'x) world \<Rightarrow> ('m, 'x) world res" where
  "SetDeposit E d w =
     bindR (must_addr E (dDepositor d)) (\<lambda>depositor.
     bindR (addr_key E depositor) (\<lambda>k.
     Ok (on_gov (gDeposits_update (kv_set (dProposalId d, k) d)) w)))"

definition GetDeposits :: "('m, 'x) world \<Rightarrow> u64 \<Rightarrow> deposit list" where
  "GetDeposits w proposalID = map snd (kv_under proposalID (gDeposits (wGov w)))"

definition GetAllDeposits :: "('m, 'x) world \<Rightarrow> deposit list" where
  "GetAllDeposits w = map snd (gDeposits (wGov w))"

definition delete_deposit :: "('m, 'x) gov_env \<Rightarrow> u64 \<Rightarrow> addr \<Rightarrow> ('m, 'x) world \<Rightarrow> ('m, 'x) world res" where
  "delete_deposit E proposalID depositor w =
     bindR (addr_key E depositor) (\<lambda>k. Ok (on_gov (gDeposits_update (kv_del (proposalID, k))) w))"

definition DeleteAndBurnDeposits :: "('m, 'x) gov_env \<Rightarrow> u64 \<Rightarrow> ('m, 'x) world \<Rightarrow> ('m, 'x) world res" where
  "DeleteAndBurnDeposits E proposalID w =
     foldR (\<lambda>d w.
       bindR (panicOnErr (on_ext (BurnCoins (geBank E) gov_ModuleName (dAmount d)) w)) (\<lambda>w.
       bindR (must_addr E (dDepositor d)) (\<lambda>depositor.
       delete_deposit E proposalID depositor w))) (GetDeposits w proposalID) w"

definition RefundAndDeleteDeposits :: "('m, 'x) gov_env \<Rightarrow> u64 \<Rightarrow> ('m, 'x) world \<Rightarrow> ('m, 'x) world res" where
  "RefundAndDeleteDeposits E proposalID w =
     foldR (\<lambda>d w.
       bindR (must_addr E (dDepositor d)) (\<lambda>depositor.
       bindR (panicOnErr (on_ext (SendFromModule (geBank E) gov_ModuleName depositor (dAmount d)) w)) (\<lambda>w.
       delete_deposit E proposalID depositor w))) (GetDeposits w proposalID) w"

text \<open>Whether the total deposit reaches the minimum; only asked of a proposal in its deposit period.\<close>

definition reaches_min_deposit :: "('m, 'x) gov_env \<Rightarrow> 'm proposal \<Rightarrow> coins \<Rightarrow> bool res" where
  "reaches_min_deposit E proposal minDeposit =
     (if prStatus proposal = StatusDepositPeriod
      then bindR (must (NewCoins (geCoins E) (prTotalDeposit proposal))) (\<lambda>total.
           Ok (IsAllGTE (geCoins E) total minDeposit))
      else Ok False)"

text \<open>
  The loop over the minimum deposit: met if the deposit holds at least the ratio of the minimum
  in one denomination.
\<close>

fun deposit_threshold_met :: "dec_lib \<Rightarrow> coins_lib \<Rightarrow> dec \<Rightarrow> coins \<Rightarrow> coins \<Rightarrow> bool res" where
  "deposit_threshold_met L C minDepositRatio depositAmount [] = Ok False"
| "deposit_threshold_met L C minDepositRatio depositAmount (minDep # minDeps) =
     bindR (must (dMul L (dec_of_int (Amount minDep)) minDepositRatio)) (\<lambda>product.
     bindR (must (NewCoin C (Denom minDep) (dTruncateInt L product))) (\<lambda>threshold.
     case CoinsFind C depositAmount (Denom minDep) of
       None \<Rightarrow> deposit_threshold_met L C minDepositRatio depositAmount minDeps
     | Some d \<Rightarrow>
         bindR (must (CoinIsGTE C d threshold)) (\<lambda>enough.
         if enough then Ok True else deposit_threshold_met L C minDepositRatio depositAmount minDeps)))"

definition AddDeposit ::
  "('m, 'x) gov_env \<Rightarrow> time \<Rightarrow> u64 \<Rightarrow> addr \<Rightarrow> coins \<Rightarrow> bool \<Rightarrow> ('m, 'x) world \<Rightarrow> (bool \<times> ('m, 'x) world) res" where
  "AddDeposit E blockTime proposalID depositorAddr depositAmount skipMinDepositRatioCheck w =
     bindR (orErr Gov_ErrUnknownProposal (GetProposal w proposalID)) (\<lambda>proposal.
     bindR (failIf (prStatus proposal \<noteq> StatusDepositPeriod \<and> prStatus proposal \<noteq> StatusVotingPeriod)
       Gov_ErrInactiveProposal) (\<lambda>_.
     let minDeposit = GetMinDeposit w in
     bindR (reaches_min_deposit E proposal minDeposit) (\<lambda>reached.
     let skip = (if reached then True else skipMinDepositRatioCheck) in
     bindR (orErr (ErrText ''invalid min deposit ratio'') (dOfStr (geDec E) (gpMinDepositRatio (gov_GetParams w))))
       (\<lambda>minDepositRatio.
     bindR (if minDepositRatio \<noteq> 0 \<or> \<not> skip
        then bindR (deposit_threshold_met (geDec E) (geCoins E) minDepositRatio depositAmount minDeposit) (\<lambda>met.
             failIf (\<not> met) Gov_ErrMinDepositTooSmall)
        else Ok ()) (\<lambda>_.
     bindR (on_ext (SendToModule (geBank E) depositorAddr gov_ModuleName depositAmount) w) (\<lambda>w.
     bindR (must (NewCoins (geCoins E) (prTotalDeposit proposal))) (\<lambda>total.
     bindR (must (CoinsAdd (geCoins E) total depositAmount)) (\<lambda>total.
     let proposal = proposal\<lparr>prTotalDeposit := total\<rparr>;
         w = SetProposal proposal w in
     bindR (reaches_min_deposit E proposal minDeposit) (\<lambda>activated.
     bindR (if activated then ActivateVotingPeriod E blockTime proposal w else Ok w) (\<lambda>w.
     bindR (GetDeposit E w proposalID depositorAddr) (\<lambda>found.
     bindR (case found of
         Some d \<Rightarrow>
           bindR (must (NewCoins (geCoins E) (dAmount d))) (\<lambda>old.
           bindR (must (CoinsAdd (geCoins E) old depositAmount)) (\<lambda>amount.
           Ok (d\<lparr>dAmount := amount\<rparr>)))
       | None \<Rightarrow> Ok (NewDeposit (geAddr E) proposalID depositorAddr depositAmount)) (\<lambda>d.
     bindR (run_hook E (AfterProposalDeposit proposalID depositorAddr) w) (\<lambda>w.
     bindR (SetDeposit E d w) (\<lambda>w.
     Ok (activated, w)))))))))))))))"

definition validateInitialDeposit :: "('m, 'x) gov_env \<Rightarrow> coins \<Rightarrow> ('m, 'x) world \<Rightarrow> unit res" where
  "validateInitialDeposit E initialDeposit w =
     bindR (failIf (\<not> CoinsIsValid (geCoins E) initialDeposit \<or> IsAnyNegative (geCoins E) initialDeposit)
       ErrInvalidCoins) (\<lambda>_.
     failIf (\<not> IsAllGTE (geCoins E) initialDeposit (GetMinInitialDeposit w)) Gov_ErrMinDepositTooSmall)"

end
