(* ===== verification/Gov_Vote.thy ===== *)
theory Gov_Vote
  imports Gov_Proposal
begin

text \<open>
  \<open>x/gov/keeper/vote.go\<close> and \<open>tally.go\<close>: casting votes, counting them, the quorum check. The
  error a tally ends with is part of its result, because the votes deleted before it stay
  deleted.
\<close>

section \<open>Votes\<close>

definition GetVotes :: "('m, 'x) world \<Rightarrow> u64 \<Rightarrow> vote list" where
  "GetVotes w proposalID = map snd (kv_under proposalID (gVotes (wGov w)))"

definition GetAllVotes :: "('m, 'x) world \<Rightarrow> vote list" where
  "GetAllVotes w = map snd (gVotes (wGov w))"

definition GetVote :: "('m, 'x) gov_env \<Rightarrow> ('m, 'x) world \<Rightarrow> u64 \<Rightarrow> addr \<Rightarrow> vote option res" where
  "GetVote E w proposalID voterAddr =
     bindR (addr_key E voterAddr) (\<lambda>k. Ok (kv_get (gVotes (wGov w)) (proposalID, k)))"

definition SetVote :: "('m, 'x) gov_env \<Rightarrow> vote \<Rightarrow> ('m, 'x) world \<Rightarrow> ('m, 'x) world res" where
  "SetVote E vote w =
     bindR (must_addr E (vVoter vote)) (\<lambda>addr.
     bindR (addr_key E addr) (\<lambda>k.
     Ok (on_gov (gVotes_update (kv_set (vProposalId vote, k) vote)) w)))"

definition deleteVote :: "('m, 'x) gov_env \<Rightarrow> u64 \<Rightarrow> addr \<Rightarrow> ('m, 'x) world \<Rightarrow> ('m, 'x) world res" where
  "deleteVote E proposalID voterAddr w =
     bindR (addr_key E voterAddr) (\<lambda>k. Ok (on_gov (gVotes_update (kv_del (proposalID, k))) w))"

definition DeleteVotes :: "('m, 'x) gov_env \<Rightarrow> u64 \<Rightarrow> ('m, 'x) world \<Rightarrow> ('m, 'x) world res" where
  "DeleteVotes E proposalID w =
     foldR (\<lambda>vote w. bindR (must_addr E (vVoter vote)) (\<lambda>voter. deleteVote E (vProposalId vote) voter w))
       (GetVotes w proposalID) w"

definition AddVote ::
  "('m, 'x) gov_env \<Rightarrow> u64 \<Rightarrow> addr \<Rightarrow> weighted_option list \<Rightarrow> string \<Rightarrow> ('m, 'x) world \<Rightarrow> ('m, 'x) world res" where
  "AddVote E proposalID voterAddr options metadata w =
     bindR (failIf (\<not> kv_has (gVotingPeriod (wGov w)) proposalID) Gov_ErrInactiveProposal) (\<lambda>_.
     bindR (assertMetadataLength E metadata) (\<lambda>_.
     bindR (failIf (\<not> list_all (ValidWeightedVoteOption (geDec E)) options) Gov_ErrInvalidVote) (\<lambda>_.
     bindR (SetVote E (NewVote (geAddr E) proposalID voterAddr options metadata) w) (\<lambda>w.
     run_hook E (AfterProposalVote proposalID voterAddr) w))))"

section \<open>Counting\<close>

type_synonym counts = "vote_option \<Rightarrow> dec option"

definition no_counts :: counts where
  "no_counts = [OptionYes \<mapsto> 0, OptionAbstain \<mapsto> 0, OptionNo \<mapsto> 0]"

text \<open>The power of a delegation: its shares times the bonded tokens over the shares of the validator.\<close>

definition voting_power :: "dec_lib \<Rightarrow> dec \<Rightarrow> validator \<Rightarrow> dec res" where
  "voting_power L shares val =
     bindR (must (dMulInt L shares (valBondedTokens val))) (\<lambda>p. must (dQuo L p (valDelegatorShares val)))"

text \<open>
  One option of a vote. A weight that is not a decimal, and an option the result map does not
  have, give a nil decimal: a panic.
\<close>

definition tally_option :: "dec_lib \<Rightarrow> dec \<Rightarrow> weighted_option \<Rightarrow> counts \<Rightarrow> counts res" where
  "tally_option L votingPower opt results =
     bindR (must (dOfStr L (woWeight opt))) (\<lambda>weight.
     bindR (must (dMul L votingPower weight)) (\<lambda>subPower.
     bindR (must (results (woOption opt))) (\<lambda>r.
     bindR (must (dAdd L r subPower)) (\<lambda>s.
     Ok (results(woOption opt \<mapsto> s))))))"

definition tally_delegation ::
  "dec_lib \<Rightarrow> (string \<Rightarrow> validator option) \<Rightarrow> bool \<Rightarrow> weighted_option list \<Rightarrow> string \<times> dec \<Rightarrow>
     dec \<times> counts \<Rightarrow> (dec \<times> counts) res" where
  "tally_delegation L currValidators isFinal options delegation acc =
     (let (valAddr, shares) = delegation; (tvp, results) = acc in
      case currValidators valAddr of
        None \<Rightarrow> Ok (tvp, results)
      | Some val \<Rightarrow>
          bindR (voting_power L shares val) (\<lambda>votingPower.
          bindR (if isFinal then foldR (tally_option L votingPower) options results else Ok results) (\<lambda>results.
          bindR (must (dAdd L tvp votingPower)) (\<lambda>tvp. Ok (tvp, results)))))"

fun tally_votes ::
  "('m, 'x) gov_env \<Rightarrow> (string \<Rightarrow> validator option) \<Rightarrow> bool \<Rightarrow> vote list \<Rightarrow> dec \<times> counts \<Rightarrow> ('m, 'x) world \<Rightarrow>
     (dec \<times> counts \<times> err option \<times> ('m, 'x) world) res" where
  "tally_votes E currValidators isFinal [] (tvp, results) w = Ok (tvp, results, None, w)"
| "tally_votes E currValidators isFinal (vote # votes) acc w =
     bindR (must_addr E (vVoter vote)) (\<lambda>voter.
     let (delegations, err) = geDelegations E (wExt w) voter in
     bindR (foldR (tally_delegation (geDec E) currValidators isFinal (vOptions vote)) delegations acc)
       (\<lambda>(tvp, results).
     case err of
       Some e \<Rightarrow> Ok (tvp, results, Some e, w)
     | None \<Rightarrow>
         bindR (if isFinal then deleteVote E (vProposalId vote) voter w else Ok w) (\<lambda>w.
         tally_votes E currValidators isFinal votes (tvp, results) w)))"

definition tallyVotes ::
  "('m, 'x) gov_env \<Rightarrow> 'm proposal \<Rightarrow> (string \<Rightarrow> validator option) \<Rightarrow> bool \<Rightarrow> ('m, 'x) world \<Rightarrow>
     (dec \<times> counts \<times> err option \<times> ('m, 'x) world) res" where
  "tallyVotes E proposal currValidators isFinal w =
     tally_votes E currValidators isFinal (GetVotes w (prId proposal)) (0, no_counts) w"

text \<open>Quorum and threshold of the proposal: the highest over its kinds.\<close>

definition getQuorumAndThreshold :: "('m, 'x) gov_env \<Rightarrow> ('m, 'x) world \<Rightarrow> 'm proposal \<Rightarrow> (dec \<times> dec) res" where
  "getQuorumAndThreshold E w proposal =
     (let params = gov_GetParams w; kinds = ProposalKinds proposal; L = geDec E in
      bindR (GetQuorum E w) (\<lambda>quorum.
      bindR (must (dOfStr L (gpThreshold params))) (\<lambda>threshold.
      bindR (if HasKindConstitutionAmendment kinds
        then bindR (GetConstitutionAmendmentQuorum E w) (\<lambda>q.
             bindR (must (dOfStr L (gpConstitutionAmendmentThreshold params))) (\<lambda>t.
             Ok (if quorum < q then q else quorum, if threshold < t then t else threshold)))
        else Ok (quorum, threshold)) (\<lambda>(quorum, threshold).
      if HasKindLaw kinds
        then bindR (GetLawQuorum E w) (\<lambda>q.
             bindR (must (dOfStr L (gpLawThreshold params))) (\<lambda>lawThreshold.
             bindR (if prEndorsed proposal then must (dOfStr L (gpThreshold params)) else Ok lawThreshold) (\<lambda>t.
             Ok (if quorum < q then q else quorum, if threshold < t then t else threshold))))
        else Ok (quorum, threshold)))))"

section \<open>The tally\<close>

record tally =
  tlPasses :: bool
  tlBurn :: bool
  tlParticipation :: dec
  tlResults :: tally_result
  tlError :: "err option"

definition tally_failed :: "tally_result \<Rightarrow> err option \<Rightarrow> tally" where
  "tally_failed results e =
     \<lparr>tlPasses = False, tlBurn = False, tlParticipation = 0, tlResults = results, tlError = e\<rparr>"

definition tally_done :: "bool \<Rightarrow> bool \<Rightarrow> dec \<Rightarrow> tally_result \<Rightarrow> tally" where
  "tally_done passes burn participation results =
     \<lparr>tlPasses = passes, tlBurn = burn, tlParticipation = participation, tlResults = results, tlError = None\<rparr>"

text \<open>The map has the three options, so reading them is not a nil decimal.\<close>

definition counts_of :: "counts \<Rightarrow> vote_option \<Rightarrow> dec" where
  "counts_of results opt = (case results opt of None \<Rightarrow> 0 | Some d \<Rightarrow> d)"

definition tally_outcome ::
  "('m, 'x) gov_env \<Rightarrow> 'm proposal \<Rightarrow> dec \<Rightarrow> counts \<Rightarrow> int \<Rightarrow> ('m, 'x) world \<Rightarrow> tally res" where
  "tally_outcome E proposal totalVotingPower results totalBonded w =
     (let params = gov_GetParams w; L = geDec E; tallyResults = NewTallyResultFromMap L (counts_of results) in
      bindR (must (dQuo L totalVotingPower (dec_of_int totalBonded))) (\<lambda>percentVoting.
      bindR (getQuorumAndThreshold E w proposal) (\<lambda>(quorum, threshold).
      if percentVoting < quorum
      then Ok (tally_done False (gpBurnVoteQuorum params) percentVoting tallyResults)
      else bindR (must (dSub L totalVotingPower (counts_of results OptionAbstain))) (\<lambda>activeVotingPower.
        if activeVotingPower = 0 then Ok (tally_done False False percentVoting tallyResults)
        else bindR (must (dQuo L (counts_of results OptionYes) activeVotingPower)) (\<lambda>yesPercent.
          if threshold < yesPercent then Ok (tally_done True False percentVoting tallyResults)
          else bindR (must (dOfStr L (gpBurnDepositNoThreshold params))) (\<lambda>burnDepositNoThreshold.
               bindR (must (dQuo L (counts_of results OptionNo) activeVotingPower)) (\<lambda>noPercent.
               Ok (tally_done False (burnDepositNoThreshold < noPercent) percentVoting tallyResults))))))))"

definition Tally ::
  "('m, 'x) gov_env \<Rightarrow> 'm proposal \<Rightarrow> ('m, 'x) world \<Rightarrow> (tally \<times> ('m, 'x) world) res" where
  "Tally E proposal w =
     (case geBondedValidators E (wExt w) of
        Panic \<Rightarrow> Panic
      | Err e \<Rightarrow> Ok (tally_failed no_tally_result (Some e), w)
      | Ok currValidators \<Rightarrow>
          bindR (tallyVotes E proposal currValidators True w) (\<lambda>(totalVotingPower, results, err, w).
          case err of Some e \<Rightarrow> Ok (tally_failed no_tally_result (Some e), w)
          | None \<Rightarrow>
              (let tallyResults = NewTallyResultFromMap (geDec E) (counts_of results) in
               case geTotalBonded E (wExt w) of
                 Panic \<Rightarrow> Panic
               | Err e \<Rightarrow> Ok (tally_failed tallyResults (Some e), w)
               | Ok totalBonded \<Rightarrow>
                   if totalBonded = 0 then Ok (tally_failed tallyResults None, w)
                   else bindR (tally_outcome E proposal totalVotingPower results totalBonded w) (\<lambda>t. Ok (t, w)))))"

definition HasReachedQuorum :: "('m, 'x) gov_env \<Rightarrow> 'm proposal \<Rightarrow> ('m, 'x) world \<Rightarrow> bool res" where
  "HasReachedQuorum E proposal w =
     bindR (geTotalBonded E (wExt w)) (\<lambda>totalBonded.
     if totalBonded = 0 then Ok False
     else bindR (geBondedValidators E (wExt w)) (\<lambda>currValidators.
          bindR (tallyVotes E proposal currValidators False w) (\<lambda>(totalVotingPower, _, err, _).
          case err of Some e \<Rightarrow> Err e
          | None \<Rightarrow>
              bindR (must (dQuo (geDec E) totalVotingPower (dec_of_int totalBonded))) (\<lambda>percentVoting.
              bindR (getQuorumAndThreshold E w proposal) (\<lambda>(quorum, _).
              Ok (quorum \<le> percentVoting))))))"

end
