(* ===== verification/Gov_Msg_Server.thy ===== *)
theory Gov_Msg_Server
  imports Gov_Vote
begin

text \<open>
  \<open>x/gov/keeper/msg_server.go\<close>: the handlers of the messages of the module, the legacy handlers
  that wrap them, and the routing of the messages of a proposal to their handlers. Emitted
  events are not modelled.
\<close>

section \<open>Handlers\<close>

definition account :: "('m, 'x) gov_env \<Rightarrow> string \<Rightarrow> addr res" where
  "account E s = orErr ErrInvalidAddress (FromBech32 (geAddr E) s)"

definition msg_SubmitProposal ::
  "('m, 'x) gov_env \<Rightarrow> time \<Rightarrow> 'm gov_msg any list \<Rightarrow> coins \<Rightarrow> string \<Rightarrow> string \<Rightarrow> string \<Rightarrow> string \<Rightarrow>
     ('m, 'x) world \<Rightarrow> (u64 \<times> ('m, 'x) world) res" where
  "msg_SubmitProposal E blockTime messages initialDeposit proposer metadata title summary w =
     bindR (validateInitialDeposit E initialDeposit w) (\<lambda>_.
     bindR (GetMsgs messages) (\<lambda>proposalMsgs.
     bindR (account E proposer) (\<lambda>proposerAddr.
     bindR (SubmitProposal E blockTime proposalMsgs metadata title summary proposerAddr w) (\<lambda>(proposal, w).
     bindR (on_ext (\<lambda>x. must (geChargeProposal E proposal x)) w) (\<lambda>w.
     bindR (AddDeposit E blockTime (prId proposal) proposerAddr initialDeposit True w) (\<lambda>(_, w).
     Ok (prId proposal, w)))))))"

definition msg_Vote ::
  "('m, 'x) gov_env \<Rightarrow> u64 \<Rightarrow> string \<Rightarrow> vote_option \<Rightarrow> string \<Rightarrow> ('m, 'x) world \<Rightarrow> ('m, 'x) world res" where
  "msg_Vote E proposalId voter opt metadata w =
     bindR (account E voter) (\<lambda>accAddr.
     AddVote E proposalId accAddr (NewNonSplitVoteOption (geDec E) opt) metadata w)"

definition msg_VoteWeighted ::
  "('m, 'x) gov_env \<Rightarrow> u64 \<Rightarrow> string \<Rightarrow> weighted_option list \<Rightarrow> string \<Rightarrow> ('m, 'x) world \<Rightarrow> ('m, 'x) world res" where
  "msg_VoteWeighted E proposalId voter options metadata w =
     bindR (account E voter) (\<lambda>accAddr. AddVote E proposalId accAddr options metadata w)"

definition validateDeposit :: "coins_lib \<Rightarrow> coins \<Rightarrow> unit res" where
  "validateDeposit C amount = failIf (\<not> CoinsIsValid C amount \<or> \<not> IsAllPositive C amount) ErrInvalidCoins"

definition msg_Deposit ::
  "('m, 'x) gov_env \<Rightarrow> time \<Rightarrow> u64 \<Rightarrow> string \<Rightarrow> coins \<Rightarrow> ('m, 'x) world \<Rightarrow> ('m, 'x) world res" where
  "msg_Deposit E blockTime proposalId depositor amount w =
     bindR (account E depositor) (\<lambda>accAddr.
     bindR (validateDeposit (geCoins E) amount) (\<lambda>_.
     bindR (AddDeposit E blockTime proposalId accAddr amount False w) (\<lambda>(_, w). Ok w)))"

text \<open>Before the parameters change, the current minimum deposits are stored.\<close>

definition msg_UpdateParams ::
  "('m, 'x) gov_env \<Rightarrow> time \<Rightarrow> string \<Rightarrow> gov_params \<Rightarrow> ('m, 'x) world \<Rightarrow> ('m, 'x) world res" where
  "msg_UpdateParams E blockTime authority params w =
     bindR (failIf (geAuthority E \<noteq> authority) Gov_ErrInvalidSigner) (\<lambda>_.
     let w = SetLastMinDeposit (GetMinDeposit w) blockTime w;
         w = SetLastMinInitialDeposit (GetMinInitialDeposit w) blockTime w in
     Ok (gov_SetParams params w))"

definition msg_ProposeLaw :: "('m, 'x) gov_env \<Rightarrow> string \<Rightarrow> ('m, 'x) world \<Rightarrow> ('m, 'x) world res" where
  "msg_ProposeLaw E authority w =
     bindR (failIf (geAuthority E \<noteq> authority) Gov_ErrInvalidSigner) (\<lambda>_. Ok w)"

definition msg_ProposeConstitutionAmendment ::
  "('m, 'x) gov_env \<Rightarrow> string \<Rightarrow> string \<Rightarrow> ('m, 'x) world \<Rightarrow> ('m, 'x) world res" where
  "msg_ProposeConstitutionAmendment E authority amendment w =
     bindR (failIf (geAuthority E \<noteq> authority) Gov_ErrInvalidSigner) (\<lambda>_.
     bindR (failIf (amendment = []) Gov_ErrInvalidProposalMsg) (\<lambda>_.
     bindR (case ApplyConstitutionAmendment amendment w of
         Ok c \<Rightarrow> Ok c | Err _ \<Rightarrow> Err Gov_ErrInvalidProposalMsg | Panic \<Rightarrow> Panic) (\<lambda>constitution.
     Ok (SetConstitution constitution w))))"

section \<open>Legacy handlers\<close>

text \<open>
  The \<open>v1beta1\<close> messages are translated and given to the handlers above. \<open>content\<close> is
  \<open>Broken\<close> when its value is not a content; a nil content has no title: a panic.
\<close>

definition content_title :: "content \<Rightarrow> string" where
  "content_title c = (case c of TextProposal t _ \<Rightarrow> t | OtherContent _ _ t _ _ \<Rightarrow> t)"

definition content_description :: "content \<Rightarrow> string" where
  "content_description c = (case c of TextProposal _ d \<Rightarrow> d | OtherContent _ _ _ d _ \<Rightarrow> d)"

definition NewLegacyContent :: "content any \<Rightarrow> string \<Rightarrow> 'm gov_msg res" where
  "NewLegacyContent content authority =
     (case content of Broken \<Rightarrow> Err (ErrText ''error converting legacy content'')
      | Unpacked c \<Rightarrow> Ok (MsgExecLegacyContent (Unpacked c) authority))"

definition legacy_SubmitProposal ::
  "('m, 'x) gov_env \<Rightarrow> string \<Rightarrow> time \<Rightarrow> content any \<Rightarrow> coins \<Rightarrow> string \<Rightarrow> ('m, 'x) world \<Rightarrow>
     (u64 \<times> ('m, 'x) world) res" where
  "legacy_SubmitProposal E govAcct blockTime content initialDeposit proposer w =
     bindR (NewLegacyContent content govAcct) (\<lambda>contentMsg.
     case content of Broken \<Rightarrow> Panic
     | Unpacked c \<Rightarrow>
         msg_SubmitProposal E blockTime [Unpacked contentMsg] initialDeposit proposer []
           (content_title c) (content_description c) w)"

definition legacy_Vote ::
  "('m, 'x) gov_env \<Rightarrow> u64 \<Rightarrow> string \<Rightarrow> int \<Rightarrow> ('m, 'x) world \<Rightarrow> ('m, 'x) world res" where
  "legacy_Vote E proposalId voter opt w = msg_Vote E proposalId voter (option_of_int opt) [] w"

definition legacy_VoteWeighted ::
  "('m, 'x) gov_env \<Rightarrow> u64 \<Rightarrow> string \<Rightarrow> (int \<times> dec) list \<Rightarrow> ('m, 'x) world \<Rightarrow> ('m, 'x) world res" where
  "legacy_VoteWeighted E proposalId voter options w =
     msg_VoteWeighted E proposalId voter
       (map (\<lambda>(opt, weight). \<lparr>woOption = option_of_int opt, woWeight = dStr (geDec E) weight\<rparr>) options) [] w"

definition legacy_Deposit ::
  "('m, 'x) gov_env \<Rightarrow> time \<Rightarrow> u64 \<Rightarrow> string \<Rightarrow> coins \<Rightarrow> ('m, 'x) world \<Rightarrow> ('m, 'x) world res" where
  "legacy_Deposit E blockTime proposalId depositor amount w = msg_Deposit E blockTime proposalId depositor amount w"

section \<open>Routing\<close>

text \<open>
  \<open>Router().Handler(msg)\<close>: the router validates the message and calls its handler. A missing
  handler is a nil function, which panics when called.
\<close>

definition handle_msg ::
  "('m, 'x) gov_env \<Rightarrow> time \<Rightarrow> 'm gov_msg \<Rightarrow> ('m, 'x) world \<Rightarrow> ('m, 'x) world res" where
  "handle_msg E blockTime msg w =
     (case msg of
        MsgOther m \<Rightarrow>
          bindR (must (geOtherHandler E m)) (\<lambda>handler.
          bindR (geBeforeHandler E msg) (\<lambda>_. on_ext handler w))
      | _ \<Rightarrow>
          bindR (geBeforeHandler E msg) (\<lambda>_.
          case msg of
            MsgSubmitProposal messages initialDeposit proposer metadata title summary \<Rightarrow>
              bindR (msg_SubmitProposal E blockTime messages initialDeposit proposer metadata title summary w)
                (\<lambda>(_, w). Ok w)
          | MsgDeposit proposalId depositor amount \<Rightarrow> msg_Deposit E blockTime proposalId depositor amount w
          | MsgVote proposalId voter opt metadata \<Rightarrow> msg_Vote E proposalId voter opt metadata w
          | MsgVoteWeighted proposalId voter options metadata \<Rightarrow> msg_VoteWeighted E proposalId voter options metadata w
          | MsgExecLegacyContent content authority \<Rightarrow> ExecLegacyContent E content authority w
          | MsgUpdateParams authority params \<Rightarrow> msg_UpdateParams E blockTime authority params w
          | MsgProposeLaw authority \<Rightarrow> msg_ProposeLaw E authority w
          | MsgProposeConstitutionAmendment authority amendment \<Rightarrow>
              msg_ProposeConstitutionAmendment E authority amendment w
          | MsgOther m \<Rightarrow> Panic))"

end
