(* ===== verification/Gov_EndBlock.thy ===== *)
theory Gov_EndBlock
  imports Gov_Msg_Server
begin

text \<open>
  \<open>x/gov/abci.go\<close>: the end blocker. Three loops over the queues: proposals whose deposit period
  has ended, proposals due for a quorum check, proposals whose voting period has ended; then the
  update of the two throttlers. Logging and events are not modelled.
\<close>

section \<open>Execution of a passed proposal\<close>

text \<open>A handler that panics is a handler that fails.\<close>

definition safeExecuteHandler ::
  "('m, 'x) gov_env \<Rightarrow> time \<Rightarrow> 'm gov_msg \<Rightarrow> ('m, 'x) world \<Rightarrow> ('m, 'x) world res" where
  "safeExecuteHandler E blockTime msg w =
     (case handle_msg E blockTime msg w of
        Panic \<Rightarrow> Err (ErrText ''handling x/gov proposal msg PANICKED'') | r \<Rightarrow> r)"

text \<open>All the messages in order on the cached context, which is written only if all pass.\<close>

definition execute_messages ::
  "('m, 'x) gov_env \<Rightarrow> time \<Rightarrow> 'm proposal \<Rightarrow> ('m, 'x) world \<Rightarrow> ('m, 'x) world res" where
  "execute_messages E blockTime proposal w =
     bindR (GetMsgs (prMessages proposal)) (\<lambda>messages. foldR (safeExecuteHandler E blockTime) messages w)"

section \<open>The loops\<close>

definition end_deposit_period ::
  "('m, 'x) gov_env \<Rightarrow> time \<Rightarrow> 'm proposal \<Rightarrow> ('m, 'x) world \<Rightarrow> (bool \<times> ('m, 'x) world) res" where
  "end_deposit_period E blockTime proposal w =
     bindR (reaches_min_deposit E proposal (GetMinDeposit w)) (\<lambda>reached.
     if reached then bindR (ActivateVotingPeriod E blockTime proposal w) (\<lambda>w. Ok (False, w))
     else
       bindR (DeleteProposal E (prId proposal) w) (\<lambda>w.
       bindR (if \<not> gpBurnProposalDepositPrevote (gov_GetParams w)
          then RefundAndDeleteDeposits E (prId proposal) w
          else DeleteAndBurnDeposits E (prId proposal) w) (\<lambda>w.
       bindR (DecrementInactiveProposalsNumber w) (\<lambda>w.
       bindR (run_hook E (AfterProposalFailedMinDeposit (prId proposal)) w) (\<lambda>w.
       Ok (False, w))))))"

text \<open>The quorum was reached after the timeout: the voting period may be extended.\<close>

definition extend_voting ::
  "time \<Rightarrow> 'm proposal \<Rightarrow> ('m, 'x) world \<Rightarrow> ('m, 'x) world res" where
  "extend_voting blockTime proposal w =
     bindR (must (gpMaxVotingPeriodExtension (gov_GetParams w))) (\<lambda>extension.
     let endTime = time_add blockTime extension in
     bindR (must (prVotingEndTime proposal)) (\<lambda>votingEndTime.
     if time_after endTime votingEndTime
     then (let w = RemoveFromActiveProposalQueue (prId proposal) votingEndTime w;
               proposal = proposal\<lparr>prVotingEndTime := Some endTime\<rparr>;
               w = InsertActiveProposalQueue (prId proposal) endTime w in
           Ok (SetProposal proposal w))
     else Ok w))"

text \<open>
  The time of the next quorum check: the period between the timeout and the end of the vote is
  divided by the number of checks; times in the past are skipped. A check interval of zero is a
  division by zero.
\<close>

definition next_quorum_check :: "time \<Rightarrow> time \<Rightarrow> time \<Rightarrow> quorum_entry \<Rightarrow> time res" where
  "next_quorum_check blockTime endTime votingEndTime entry =
     bindR (must (qeTimeoutTime entry)) (\<lambda>quorumTimeoutTime.
     let quorumCheckPeriod = time_sub votingEndTime quorumTimeoutTime in
     bindR (go_quot quorumCheckPeriod (int64_of_u64 (qeCheckCount entry))) (\<lambda>t.
     let nextQuorumCheckTime = time_add endTime t in
     bindR (if \<not> time_after nextQuorumCheckTime blockTime
        then (let d = time_sub blockTime nextQuorumCheckTime in
              bindR (go_quot d t) (\<lambda>n.
              Ok (time_add nextQuorumCheckTime (wrap_int64 (t * wrap_int64 (n + 1))))))
        else Ok nextQuorumCheckTime) (\<lambda>nextQuorumCheckTime.
     Ok (if time_after nextQuorumCheckTime votingEndTime then votingEndTime else nextQuorumCheckTime))))"

definition check_quorum ::
  "('m, 'x) gov_env \<Rightarrow> time \<Rightarrow> 'm proposal \<Rightarrow> time \<Rightarrow> quorum_entry \<Rightarrow> ('m, 'x) world \<Rightarrow> (bool \<times> ('m, 'x) world) res" where
  "check_quorum E blockTime proposal endTime entry w =
     (let w = RemoveFromQuorumCheckQueue (prId proposal) endTime w in
      case HasReachedQuorum E proposal w of
        Panic \<Rightarrow> Panic
      | Err _ \<Rightarrow> Ok (False, w)
      | Ok quorum \<Rightarrow>
          if quorum
          then (if 0 < qeChecksDone entry
                then bindR (extend_voting blockTime proposal w) (\<lambda>w. Ok (False, w))
                else Ok (False, w))
          else if qeChecksDone entry < qeCheckCount entry
          then bindR (must (prVotingEndTime proposal)) (\<lambda>votingEndTime.
               if time_after votingEndTime blockTime
               then bindR (next_quorum_check blockTime endTime votingEndTime entry) (\<lambda>next.
                    Ok (False, InsertQuorumCheckQueue (prId proposal) next
                      (entry\<lparr>qeChecksDone := qeChecksDone entry + 1\<rparr>) w))
               else Ok (False, w))
          else Ok (False, w))"

definition end_voting_period ::
  "('m, 'x) gov_env \<Rightarrow> time \<Rightarrow> 'm proposal \<Rightarrow> ('m, 'x) world \<Rightarrow> (bool \<times> ('m, 'x) world) res" where
  "end_voting_period E blockTime proposal w =
     bindR (Tally E proposal w) (\<lambda>(t, w).
     bindR (if tlBurn t then DeleteAndBurnDeposits E (prId proposal) w
        else RefundAndDeleteDeposits E (prId proposal) w) (\<lambda>w.
     let (status, w) =
       (if tlPasses t
        then (case execute_messages E blockTime proposal w of
                Ok w' \<Rightarrow> (StatusPassed, w') | _ \<Rightarrow> (StatusFailed, w))
        else (StatusRejected, w));
       proposal = proposal\<lparr>prStatus := status, prFinalTallyResult := Some (tlResults t)\<rparr>;
       w = SetProposal proposal w in
     bindR (must (prVotingEndTime proposal)) (\<lambda>votingEndTime.
     let w = RemoveFromActiveProposalQueue (prId proposal) votingEndTime w in
     bindR (DecrementActiveProposalsNumber w) (\<lambda>w.
     bindR (UpdateParticipationEMA E proposal (tlParticipation t) w) (\<lambda>w.
     bindR (run_hook E (AfterProposalVotingPeriodEnded (prId proposal)) w) (\<lambda>w.
     Ok (False, w)))))))"

definition EndBlocker :: "('m, 'x) gov_env \<Rightarrow> time \<Rightarrow> ('m, 'x) world \<Rightarrow> ('m, 'x) world res" where
  "EndBlocker E blockTime w =
     bindR (IterateInactiveProposalsQueue blockTime (end_deposit_period E blockTime) w) (\<lambda>w.
     bindR (IterateQuorumCheckQueue blockTime (check_quorum E blockTime) w) (\<lambda>w.
     bindR (IterateActiveProposalsQueue blockTime (end_voting_period E blockTime) w) (\<lambda>w.
     bindR (UpdateMinInitialDeposit E blockTime True w) (\<lambda>w.
     UpdateMinDeposit E blockTime True w))))"

end
