(* ===== verification/Gov_Invariant.thy ===== *)
theory Gov_Invariant
  imports Gov_EndBlock
begin

text \<open>
  The invariant that ties the stores of the governance module together, and its preservation by
  the operations of the keeper: each queue holds exactly the proposals of its stage with their
  end time, the voting flags agree with it, the counters are the lengths of the queues, ids are
  fresh, and the quorum queue only names proposals under vote.
\<close>

section \<open>Reading a state that was written\<close>

named_theorems world_simps "what the accessors read after a write"

lemma wGov_on_gov [simp, world_simps]: "wGov (on_gov f w) = f (wGov w)"
  and wExt_on_gov [simp, world_simps]: "wExt (on_gov f w) = wExt w"
  by (simp_all add: on_gov_def)

lemma on_ext_eq_Ok [simp]: "on_ext f w = Ok w' \<longleftrightarrow> (\<exists>x. f (wExt w) = Ok x \<and> w' = w\<lparr>wExt := x\<rparr>)"
  by (auto simp: on_ext_def)

lemma GetProposal_on_ext [simp]: "GetProposal (w\<lparr>wExt := x\<rparr>) i = GetProposal w i"
  by (simp add: GetProposal_def)

lemma GetProposal_SetProposal [simp]:
  "GetProposal (SetProposal p w) i = (if i = prId p then Some p else GetProposal w i)"
  by (simp add: GetProposal_def SetProposal_def)

section \<open>The invariant\<close>

definition live :: "proposal_status \<Rightarrow> ('m proposal \<Rightarrow> time option) \<Rightarrow> (u64, 'm proposal) kv \<Rightarrow> time \<Rightarrow> u64 \<Rightarrow> bool" where
  "live st endt ps t i \<longleftrightarrow> (\<exists>p. kv_get ps i = Some p \<and> prStatus p = st \<and> endt p = Some t)"

definition queue_ok ::
  "proposal_status \<Rightarrow> ('m proposal \<Rightarrow> time option) \<Rightarrow> (u64, 'm proposal) kv \<Rightarrow> (queue_key, unit) kv \<Rightarrow> u64 option \<Rightarrow> bool" where
  "queue_ok st endt ps q num \<longleftrightarrow> kv_wf q \<and> (\<forall>t i. kv_has q (t, i) \<longleftrightarrow> live st endt ps t i) \<and>
     length q = unat (case num of None \<Rightarrow> 0 | Some n \<Rightarrow> n)"

definition proposal_ok :: "'m proposal \<Rightarrow> bool" where
  "proposal_ok p \<longleftrightarrow>
     prStatus p \<in> {StatusDepositPeriod, StatusVotingPeriod, StatusPassed, StatusRejected, StatusFailed, StatusVetoed} \<and>
     prDepositEndTime p \<noteq> None \<and> prFinalTallyResult p \<noteq> None \<and>
     (prStatus p = StatusDepositPeriod \<longrightarrow> prVotingEndTime p = None) \<and>
     (prStatus p = StatusVotingPeriod \<longrightarrow> prVotingStartTime p \<noteq> None \<and> prVotingEndTime p \<noteq> None)"

definition proposals_ok :: "(u64, 'm proposal) kv \<Rightarrow> u64 option \<Rightarrow> bool" where
  "proposals_ok ps next_id \<longleftrightarrow> kv_wf ps \<and>
     (\<exists>n. next_id = Some n \<and> (\<forall>i p. kv_get ps i = Some p \<longrightarrow> prId p = i \<and> i < n \<and> proposal_ok p))"

definition quorum_ok :: "(u64, 'm proposal) kv \<Rightarrow> (queue_key, quorum_entry) kv \<Rightarrow> bool" where
  "quorum_ok ps q \<longleftrightarrow> kv_wf q \<and> (\<forall>t i e. kv_get q (t, i) = Some e \<longrightarrow>
     qeTimeoutTime e \<noteq> None \<and> (\<exists>t'. live StatusVotingPeriod prVotingEndTime ps t' i \<and> t \<le> t'))"

definition parts_ok where
  "parts_ok ps next_id iq inum aq anum flags qq \<longleftrightarrow> proposals_ok ps next_id \<and>
     queue_ok StatusDepositPeriod prDepositEndTime ps iq inum \<and>
     queue_ok StatusVotingPeriod prVotingEndTime ps aq anum \<and>
     (\<forall>i. kv_has flags i \<longleftrightarrow> (\<exists>t. live StatusVotingPeriod prVotingEndTime ps t i)) \<and> quorum_ok ps qq"

definition gov_inv :: "'m gov_store \<Rightarrow> bool" where
  "gov_inv g \<longleftrightarrow> parts_ok (gProposals g) (gProposalID g) (gInactiveQueue g) (gInactiveNumber g)
     (gActiveQueue g) (gActiveNumber g) (gVotingPeriod g) (gQuorumQueue g)"

text \<open>The part of the store the invariant is about.\<close>

definition core where
  "core g = (gProposals g, gProposalID g, gInactiveQueue g, gInactiveNumber g, gActiveQueue g, gActiveNumber g,
     gVotingPeriod g, gQuorumQueue g, gParams g)"

lemma gov_inv_core: "core g = core g' \<Longrightarrow> gov_inv g = gov_inv g'"
  by (simp add: core_def gov_inv_def)

lemma core_GetProposal: "core (wGov w) = core (wGov w') \<Longrightarrow> GetProposal w i = GetProposal w' i"
  by (simp add: core_def GetProposal_def)

section \<open>Counting\<close>

lemma unat64: "unat (w :: u64) < 2 ^ 64"
  using unsigned_less [of w] by simp

lemma card_ids_below: "card {i :: u64. i < n} \<le> unat n"
proof -
  have "{i :: u64. i < n} \<subseteq> word_of_nat ` {..<unat n}"
  proof
    fix i :: u64
    assume "i \<in> {i. i < n}"
    then have "unat i < unat n" by (simp add: word_less_nat_alt)
    then show "i \<in> word_of_nat ` {..<unat n}" by (intro image_eqI [of _ _ "unat i"]) simp_all
  qed
  then have "card {i :: u64. i < n} \<le> card (word_of_nat ` {..<unat n} :: u64 set)"
    by (intro card_mono) simp_all
  also have "\<dots> \<le> card {..<unat n}" by (rule card_image_le) simp
  finally show ?thesis by simp
qed

text \<open>A queue cannot hold more proposals than there are ids, and fewer when one is elsewhere.\<close>

definition ids_below :: "(u64, 'v) kv \<Rightarrow> u64 \<Rightarrow> bool" where
  "ids_below ps n \<longleftrightarrow> (\<forall>i p. kv_get ps i = Some p \<longrightarrow> i < n)"

lemma queue_keys: "queue_ok st endt ps q num \<Longrightarrow> (t, i) \<in> fst ` set q \<longleftrightarrow> live st endt ps t i"
  by (simp add: queue_ok_def kv_has_in_keys)

lemma live_time: "live st endt ps t i \<Longrightarrow> live st endt ps t' i \<Longrightarrow> t = t'"
  by (auto simp: live_def)

lemma queue_ids:
  assumes q: "queue_ok st endt ps q num" and n: "ids_below ps n"
  shows "length q = card (snd ` fst ` set q)" "snd ` fst ` set q \<subseteq> {i. i < n}"
proof -
  have d: "distinct (map fst q)" using q by (simp add: queue_ok_def kv_wf_distinct)
  have "inj_on snd (fst ` set q)"
  proof (rule inj_onI)
    fix a b
    assume ab: "a \<in> fst ` set q" "b \<in> fst ` set q" "snd a = snd b"
    obtain t i where a: "a = (t, i)" by (cases a)
    obtain t' j where b: "b = (t', j)" by (cases b)
    have "live st endt ps t i" "live st endt ps t' i"
      using ab queue_keys [OF q] by (simp_all add: a b)
    then have "t = t'" by (rule live_time)
    with ab(3) show "a = b" by (simp add: a b)
  qed
  then have "card (snd ` fst ` set q) = card (fst ` set q)" by (rule card_image)
  also have "\<dots> = card (set (map fst q))" by simp
  also have "\<dots> = length (map fst q)" using d by (rule distinct_card)
  finally show "length q = card (snd ` fst ` set q)" by simp
  show "snd ` fst ` set q \<subseteq> {i. i < n}"
  proof
    fix i
    assume "i \<in> snd ` fst ` set q"
    then obtain t where "(t, i) \<in> fst ` set q" by force
    then have "live st endt ps t i" using queue_keys [OF q] by blast
    then show "i \<in> {i. i < n}" using n by (auto simp: live_def ids_below_def)
  qed
qed

lemma queue_length_le:
  assumes q: "queue_ok st endt ps q num" "ids_below ps n"
  shows "length q \<le> unat n"
proof -
  have "card (snd ` fst ` set q) \<le> card {i. i < n}"
    by (rule card_mono [OF _ queue_ids(2) [OF q]]) simp
  with queue_ids(1) [OF q] card_ids_below [of n] show ?thesis by simp
qed

lemma queue_length_less:
  assumes q: "queue_ok st endt ps q num" "ids_below ps n"
    and i: "i < n" "\<And>t. \<not> live st endt ps t i"
  shows "length q < unat n"
proof -
  have "i \<notin> snd ` fst ` set q"
  proof
    assume "i \<in> snd ` fst ` set q"
    then obtain t where "(t, i) \<in> fst ` set q" by force
    then show False using queue_keys [OF q(1)] i(2) by blast
  qed
  then have "snd ` fst ` set q \<subset> {i. i < n}" using queue_ids(2) [OF q] i(1) by blast
  then have "card (snd ` fst ` set q) < card {i. i < n}" by (rule psubset_card_mono [rotated]) simp
  with queue_ids(1) [OF q] card_ids_below [of n] show ?thesis by simp
qed

section \<open>Writing a queue\<close>

text \<open>
  The three things that happen to a queue: its proposals stay as they are, one joins, one leaves.
\<close>

definition same_live where
  "same_live st endt ps ps' \<longleftrightarrow> (\<forall>t i. live st endt ps' t i \<longleftrightarrow> live st endt ps t i)"

lemma queue_same: "queue_ok st endt ps q num \<Longrightarrow> same_live st endt ps ps' \<Longrightarrow> queue_ok st endt ps' q num"
  by (simp add: queue_ok_def same_live_def)

lemma queue_join:
  assumes q: "queue_ok st endt ps q num" and b: "length q < 2 ^ 64 - 1"
    and new: "\<And>t. \<not> live st endt ps t i"
    and ps': "\<And>t j. live st endt ps' t j \<longleftrightarrow> (if j = i then t = u else live st endt ps t j)"
  shows "queue_ok st endt ps' (kv_set (u, i) () q) (Some ((case num of None \<Rightarrow> 0 | Some n \<Rightarrow> n) + 1))"
proof -
  let ?n = "case num of None \<Rightarrow> 0 | Some n \<Rightarrow> n"
  have len: "length q = unat ?n" using q by (simp add: queue_ok_def)
  have "\<not> kv_has q (u, i)" using q new by (simp add: queue_ok_def)
  then have "length (kv_set (u, i) () q) = Suc (length q)" by (rule kv_length_set_new)
  also have "\<dots> = unat (?n + 1)" using len b by (simp add: unat_word_ariths)
  finally show ?thesis using q new by (auto simp: queue_ok_def ps')
qed

lemma queue_leave:
  assumes q: "queue_ok st endt ps q num" and i: "live st endt ps u i"
    and ps': "\<And>t j. live st endt ps' t j \<longleftrightarrow> j \<noteq> i \<and> live st endt ps t j"
  shows "\<exists>n. num = Some n \<and> 0 < n \<and> queue_ok st endt ps' (kv_del (u, i) q) (Some (n - 1))"
proof -
  have has: "kv_has q (u, i)" and wf: "kv_wf q" using q i by (simp_all add: queue_ok_def)
  have len: "Suc (length (kv_del (u, i) q)) = length q" using wf has by (rule kv_length_del)
  then obtain n where n: "num = Some n" "length q = unat n"
    using q by (cases num) (simp_all add: queue_ok_def)
  with len have pos: "0 < unat n" by simp
  then have "0 < n" "n \<noteq> 0" by (auto simp: word_less_nat_alt)
  moreover have "length (kv_del (u, i) q) = unat (n - 1)"
    using n len \<open>n \<noteq> 0\<close> by (simp add: unat_minus_one)
  moreover have "kv_has (kv_del (u, i) q) (t, j) \<longleftrightarrow> live st endt ps' t j" for t j
    using q i live_time [of st endt ps u i t] by (auto simp: queue_ok_def ps')
  ultimately show ?thesis using n wf by (simp add: queue_ok_def)
qed

text \<open>The entry of a proposal moves to another time.\<close>

lemma queue_move:
  assumes q: "queue_ok st endt ps q num" and i: "live st endt ps u i"
    and ps': "\<And>t j. live st endt ps' t j \<longleftrightarrow> (if j = i then t = v else live st endt ps t j)"
  shows "queue_ok st endt ps' (kv_set (v, i) () (kv_del (u, i) q)) num"
proof -
  have has: "kv_has q (u, i)" and wf: "kv_wf q" using q i by (simp_all add: queue_ok_def)
  have gone: "\<not> kv_has (kv_del (u, i) q) (v, i)"
    using q live_time [OF i, of v] by (auto simp: queue_ok_def)
  have "length (kv_set (v, i) () (kv_del (u, i) q)) = length q"
    using kv_length_set_new [OF gone, of "()"] kv_length_del [OF wf has] by simp
  moreover have "kv_has (kv_set (v, i) () (kv_del (u, i) q)) (t, j) \<longleftrightarrow> live st endt ps' t j" for t j
    using q i live_time [OF i, of t] by (auto simp: queue_ok_def ps')
  ultimately show ?thesis using q wf by (simp add: queue_ok_def)
qed


section \<open>Writing a proposal\<close>

lemma live_set [simp]:
  "live st endt (kv_set i p ps) t j \<longleftrightarrow> (if j = i then prStatus p = st \<and> endt p = Some t else live st endt ps t j)"
  by (auto simp: live_def)

lemma live_del [simp]: "live st endt (kv_del i ps) t j \<longleftrightarrow> j \<noteq> i \<and> live st endt ps t j"
  by (auto simp: live_def)

lemma live_get: "kv_get ps i = Some p \<Longrightarrow> live st endt ps t i \<longleftrightarrow> prStatus p = st \<and> endt p = Some t"
  by (simp add: live_def)

lemma live_none: "kv_get ps i = None \<Longrightarrow> \<not> live st endt ps t i"
  by (simp add: live_def)

lemma proposals_below: "proposals_ok ps (Some n) \<Longrightarrow> ids_below ps n"
  by (auto simp: proposals_ok_def ids_below_def)

lemma proposals_get: "proposals_ok ps nxt \<Longrightarrow> kv_get ps i = Some p \<Longrightarrow> prId p = i \<and> proposal_ok p"
  by (auto simp: proposals_ok_def)

lemma proposals_set:
  "proposals_ok ps (Some n) \<Longrightarrow> proposal_ok p \<Longrightarrow> prId p < n \<Longrightarrow> proposals_ok (kv_set (prId p) p ps) (Some n)"
  by (auto simp: proposals_ok_def)

lemma proposals_set_old:
  "proposals_ok ps nxt \<Longrightarrow> proposal_ok p \<Longrightarrow> kv_get ps (prId p) \<noteq> None \<Longrightarrow> proposals_ok (kv_set (prId p) p ps) nxt"
  by (auto simp: proposals_ok_def)

lemma proposals_del: "proposals_ok ps nxt \<Longrightarrow> proposals_ok (kv_del i ps) nxt"
  by (auto simp: proposals_ok_def)

lemma below_next: "n + 1 \<noteq> 0 \<Longrightarrow> i < n + 1 \<longleftrightarrow> i \<le> n" for n i :: u64
  using unatSuc [of n] by (simp add: word_less_nat_alt word_le_nat_alt add.commute [of 1] less_Suc_eq_le)

lemma proposals_new:
  assumes ps: "proposals_ok ps (Some n)" and p: "proposal_ok p" "prId p = n" and n: "n + 1 \<noteq> 0"
  shows "proposals_ok (kv_set n p ps) (Some (n + 1))"
  using ps p below_next [OF n] by (auto simp: proposals_ok_def less_imp_le)

lemma parts_okD:
  assumes "parts_ok ps nxt iq inum aq anum flags qq"
  shows "proposals_ok ps nxt" "queue_ok StatusDepositPeriod prDepositEndTime ps iq inum"
    "queue_ok StatusVotingPeriod prVotingEndTime ps aq anum"
    "kv_has flags i \<longleftrightarrow> (\<exists>t. live StatusVotingPeriod prVotingEndTime ps t i)" "quorum_ok ps qq"
  using assms by (simp_all add: parts_ok_def)

abbreviation counter :: "u64 option \<Rightarrow> u64" where
  "counter num \<equiv> (case num of None \<Rightarrow> 0 | Some n \<Rightarrow> n)"

lemma quorum_same:
  assumes "quorum_ok ps q" "\<And>t i. live StatusVotingPeriod prVotingEndTime ps t i \<Longrightarrow> live StatusVotingPeriod prVotingEndTime ps' t i"
  shows "quorum_ok ps' q"
  using assms by (fastforce simp: quorum_ok_def)

text \<open>A new proposal, with the next id.\<close>

lemma parts_submit:
  assumes inv: "parts_ok ps (Some n) iq inum aq anum flags qq" and n: "n + 1 \<noteq> 0"
    and p: "proposal_ok p" "prId p = n" "prStatus p = StatusDepositPeriod" "prDepositEndTime p = Some t"
  shows "parts_ok (kv_set n p ps) (Some (n + 1)) (kv_set (t, n) () iq) (Some (counter inum + 1)) aq anum (kv_del n flags) qq"
proof -
  note inv = parts_okD [OF inv]
  have free: "kv_get ps n = None"
    using inv(1) by (cases "kv_get ps n") (auto simp: proposals_ok_def)
  note none = live_none [OF free]
  have "Suc (unat n) < 2 ^ 64" using unatSuc [of n] n unat64 [of "n + 1"] by (simp add: add.commute)
  with queue_length_le [OF inv(2) proposals_below [OF inv(1)]]
  have len: "length iq < 2 ^ 64 - 1" by simp
  have "queue_ok StatusDepositPeriod prDepositEndTime (kv_set n p ps) (kv_set (t, n) () iq) (Some (counter inum + 1))"
    by (rule queue_join [OF inv(2) len none]) (use p in auto)
  moreover have "queue_ok StatusVotingPeriod prVotingEndTime (kv_set n p ps) aq anum"
    by (rule queue_same [OF inv(3)]) (use p none in \<open>auto simp: same_live_def\<close>)
  moreover have "quorum_ok (kv_set n p ps) qq" by (rule quorum_same [OF inv(5)]) (use none in auto)
  moreover have "kv_has (kv_del n flags) i \<longleftrightarrow> (\<exists>t. live StatusVotingPeriod prVotingEndTime (kv_set n p ps) t i)" for i
    using inv(4) [of i] p none by auto
  ultimately show ?thesis using proposals_new [OF inv(1) p(1,2) n] by (simp add: parts_ok_def)
qed

text \<open>A proposal that keeps its status and its times.\<close>

lemma parts_update:
  assumes inv: "parts_ok ps nxt iq inum aq anum flags qq" and old: "kv_get ps (prId p) = Some p0"
    and p: "proposal_ok p" "prStatus p = prStatus p0" "prDepositEndTime p = prDepositEndTime p0"
      "prVotingEndTime p = prVotingEndTime p0"
  shows "parts_ok (kv_set (prId p) p ps) nxt iq inum aq anum
    (if prStatus p = StatusVotingPeriod then kv_set (prId p) () flags else kv_del (prId p) flags) qq"
proof -
  note inv = parts_okD [OF inv]
  have same: "live st endt (kv_set (prId p) p ps) t i \<longleftrightarrow> live st endt ps t i"
    if "endt p = endt p0" for st endt t i
    using live_get [OF old, of st endt t] p(2) that by auto
  have "prVotingEndTime p \<noteq> None" if "prStatus p = StatusVotingPeriod"
    using p(1) that by (simp add: proposal_ok_def)
  then have flags: "kv_has (if prStatus p = StatusVotingPeriod then kv_set (prId p) () flags else kv_del (prId p) flags) i
      \<longleftrightarrow> (\<exists>t. live StatusVotingPeriod prVotingEndTime ps t i)" for i
    using inv(4) [of i] live_get [OF old, of StatusVotingPeriod prVotingEndTime] p by auto
  have same': "live StatusDepositPeriod prDepositEndTime (kv_set (prId p) p ps) t i \<longleftrightarrow> live StatusDepositPeriod prDepositEndTime ps t i"
      "live StatusVotingPeriod prVotingEndTime (kv_set (prId p) p ps) t i \<longleftrightarrow> live StatusVotingPeriod prVotingEndTime ps t i" for t i
    by (rule same; use p in simp)+
  have "queue_ok StatusDepositPeriod prDepositEndTime (kv_set (prId p) p ps) iq inum"
    by (rule queue_same [OF inv(2)]) (simp only: same_live_def same' simp_thms)
  moreover have "queue_ok StatusVotingPeriod prVotingEndTime (kv_set (prId p) p ps) aq anum"
    by (rule queue_same [OF inv(3)]) (simp only: same_live_def same' simp_thms)
  moreover have "quorum_ok (kv_set (prId p) p ps) qq"
    by (rule quorum_same [OF inv(5)]) (simp only: same')
  moreover have "proposals_ok (kv_set (prId p) p ps) nxt"
    using proposals_set_old [OF inv(1) p(1)] old by simp
  ultimately show ?thesis unfolding parts_ok_def same' using flags by blast
qed

text \<open>A proposal moves from its deposit period to its voting period.\<close>

lemma parts_activate:
  assumes inv: "parts_ok ps (Some n) iq inum aq anum flags qq" and old: "kv_get ps (prId p) = Some p0"
    and p0: "prStatus p0 = StatusDepositPeriod" "prDepositEndTime p0 = Some t"
    and p: "proposal_ok p" "prStatus p = StatusVotingPeriod" "prVotingEndTime p = Some u"
  shows "\<exists>m. inum = Some m \<and> 0 < m \<and>
    parts_ok (kv_set (prId p) p ps) (Some n) (kv_del (t, prId p) iq) (Some (m - 1)) (kv_set (u, prId p) () aq)
      (Some (counter anum + 1)) (kv_set (prId p) () flags) qq"
proof -
  note inv = parts_okD [OF inv]
  let ?i = "prId p"
  note get = live_get [OF old]
  have below: "?i < n" using inv(1) old by (auto simp: proposals_ok_def)
  have none: "\<not> live StatusVotingPeriod prVotingEndTime ps t ?i" for t using get p0 by simp
  have "length aq < unat n" by (rule queue_length_less [OF inv(3) proposals_below [OF inv(1)] below none])
  then have len: "length aq < 2 ^ 64 - 1" using unat64 [of n] by simp
  have "queue_ok StatusVotingPeriod prVotingEndTime (kv_set ?i p ps) (kv_set (u, ?i) () aq) (Some (counter anum + 1))"
    by (rule queue_join [OF inv(3) len none]) (use p in auto)
  moreover have "\<exists>m. inum = Some m \<and> 0 < m \<and>
      queue_ok StatusDepositPeriod prDepositEndTime (kv_set ?i p ps) (kv_del (t, ?i) iq) (Some (m - 1))"
    by (rule queue_leave [OF inv(2)]) (use get p0 p in auto)
  moreover have "quorum_ok (kv_set ?i p ps) qq"
    by (rule quorum_same [OF inv(5)]) (use none in auto)
  moreover have "kv_has (kv_set ?i () flags) i \<longleftrightarrow> (\<exists>t. live StatusVotingPeriod prVotingEndTime (kv_set ?i p ps) t i)" for i
    using inv(4) [of i] p by auto
  ultimately show ?thesis
    using proposals_set_old [OF inv(1) p(1)] old by (auto simp: parts_ok_def)
qed

text \<open>A proposal in its deposit period is deleted.\<close>

lemma parts_delete:
  assumes inv: "parts_ok ps nxt iq inum aq anum flags qq" and old: "kv_get ps i = Some p"
    and p: "prStatus p = StatusDepositPeriod" "prDepositEndTime p = Some t"
  shows "\<exists>m. inum = Some m \<and> 0 < m \<and>
    parts_ok (kv_del i ps) nxt (kv_del (t, i) iq) (Some (m - 1)) aq anum flags qq"
proof -
  note inv = parts_okD [OF inv]
  note get = live_get [OF old]
  have none: "\<not> live StatusVotingPeriod prVotingEndTime ps t i" for t using get p by simp
  have "\<exists>m. inum = Some m \<and> 0 < m \<and>
      queue_ok StatusDepositPeriod prDepositEndTime (kv_del i ps) (kv_del (t, i) iq) (Some (m - 1))"
    by (rule queue_leave [OF inv(2)]) (use get p in auto)
  moreover have "queue_ok StatusVotingPeriod prVotingEndTime (kv_del i ps) aq anum"
    by (rule queue_same [OF inv(3)]) (use none in \<open>auto simp: same_live_def\<close>)
  moreover have "quorum_ok (kv_del i ps) qq"
    by (rule quorum_same [OF inv(5)]) (use none in auto)
  moreover have "kv_has flags j \<longleftrightarrow> (\<exists>t. live StatusVotingPeriod prVotingEndTime (kv_del i ps) t j)" for j
    using inv(4) [of j] none by auto
  ultimately show ?thesis
    using proposals_del [OF inv(1), of i] by (auto simp: parts_ok_def)
qed

text \<open>A vote ends, when no quorum check of the proposal is pending.\<close>

lemma parts_end:
  assumes inv: "parts_ok ps nxt iq inum aq anum flags qq" and old: "kv_get ps (prId p) = Some p0"
    and p0: "prStatus p0 = StatusVotingPeriod" "prVotingEndTime p0 = Some t"
    and p: "proposal_ok p" "prStatus p \<noteq> StatusVotingPeriod" "prStatus p \<noteq> StatusDepositPeriod"
    and none: "\<And>t. \<not> kv_has qq (t, prId p)"
  shows "\<exists>m. anum = Some m \<and> 0 < m \<and>
    parts_ok (kv_set (prId p) p ps) nxt iq inum (kv_del (t, prId p) aq) (Some (m - 1)) (kv_del (prId p) flags) qq"
proof -
  note inv = parts_okD [OF inv]
  let ?i = "prId p"
  note get = live_get [OF old]
  have "\<exists>m. anum = Some m \<and> 0 < m \<and>
      queue_ok StatusVotingPeriod prVotingEndTime (kv_set ?i p ps) (kv_del (t, ?i) aq) (Some (m - 1))"
    by (rule queue_leave [OF inv(3)]) (use get p0 p in auto)
  moreover have "queue_ok StatusDepositPeriod prDepositEndTime (kv_set ?i p ps) iq inum"
    by (rule queue_same [OF inv(2)]) (use get p0 p in \<open>auto simp: same_live_def\<close>)
  moreover have "quorum_ok (kv_set ?i p ps) qq"
    using inv(5) none unfolding quorum_ok_def by (fastforce simp: kv_has_iff)
  moreover have "kv_has (kv_del ?i flags) j \<longleftrightarrow> (\<exists>t. live StatusVotingPeriod prVotingEndTime (kv_set ?i p ps) t j)" for j
    using inv(4) [of j] p by auto
  moreover have "proposals_ok (kv_set ?i p ps) nxt" using proposals_set_old [OF inv(1) p(1)] old by simp
  ultimately show ?thesis by (auto simp: parts_ok_def)
qed

text \<open>A vote gets a later end.\<close>

lemma parts_extend:
  assumes inv: "parts_ok ps nxt iq inum aq anum flags qq" and old: "kv_get ps (prId p) = Some p0"
    and p0: "prStatus p0 = StatusVotingPeriod" "prVotingEndTime p0 = Some t"
    and p: "proposal_ok p" "prStatus p = StatusVotingPeriod" "prVotingEndTime p = Some u" "t \<le> u"
  shows "parts_ok (kv_set (prId p) p ps) nxt iq inum (kv_set (u, prId p) () (kv_del (t, prId p) aq)) anum
    (kv_set (prId p) () flags) qq"
proof -
  note inv = parts_okD [OF inv]
  let ?i = "prId p"
  note get = live_get [OF old]
  have "queue_ok StatusVotingPeriod prVotingEndTime (kv_set ?i p ps) (kv_set (u, ?i) () (kv_del (t, ?i) aq)) anum"
    by (rule queue_move [OF inv(3)]) (use get p0 p in auto)
  moreover have "queue_ok StatusDepositPeriod prDepositEndTime (kv_set ?i p ps) iq inum"
    by (rule queue_same [OF inv(2)]) (use get p0 p in \<open>auto simp: same_live_def\<close>)
  moreover have "quorum_ok (kv_set ?i p ps) qq"
    unfolding quorum_ok_def
  proof (intro conjI allI impI)
    fix s j e
    assume e: "kv_get qq (s, j) = Some e"
    with inv(5) obtain t' where t': "live StatusVotingPeriod prVotingEndTime ps t' j" "s \<le> t'"
      unfolding quorum_ok_def by blast
    show "qeTimeoutTime e \<noteq> None" using inv(5) e by (auto simp: quorum_ok_def)
    show "\<exists>t'. live StatusVotingPeriod prVotingEndTime (kv_set ?i p ps) t' j \<and> s \<le> t'"
      using t' get p0 p by (cases "j = ?i") auto
  qed (use inv(5) in \<open>simp add: quorum_ok_def\<close>)
  moreover have "kv_has (kv_set ?i () flags) j \<longleftrightarrow> (\<exists>t. live StatusVotingPeriod prVotingEndTime (kv_set ?i p ps) t j)" for j
    using inv(4) [of j] p by auto
  moreover have "proposals_ok (kv_set ?i p ps) nxt" using proposals_set_old [OF inv(1) p(1)] old by simp
  ultimately show ?thesis by (auto simp: parts_ok_def)
qed

text \<open>The quorum queue alone.\<close>

lemma parts_quorum_del: "parts_ok ps nxt iq inum aq anum flags qq \<Longrightarrow> parts_ok ps nxt iq inum aq anum flags (kv_del k qq)"
  by (auto simp: parts_ok_def quorum_ok_def)

lemma parts_quorum_set:
  "parts_ok ps nxt iq inum aq anum flags qq \<Longrightarrow> live StatusVotingPeriod prVotingEndTime ps u i \<Longrightarrow> t \<le> u \<Longrightarrow>
     qeTimeoutTime e \<noteq> None \<Longrightarrow> parts_ok ps nxt iq inum aq anum flags (kv_set (t, i) e qq)"
  by (auto simp: parts_ok_def quorum_ok_def)

end
