(* ===== verification/Gov_Frames.thy ===== *)
theory Gov_Frames
  imports Gov_Invariant
begin

text \<open>
  The operations of the governance keeper that do not touch the stores the invariant is about:
  deposits, votes, tallies, minimum deposits, participation averages and the calls of hooks leave
  the proposals, their queues and counters as they are.
\<close>

section \<open>Operations outside the invariant\<close>

definition frame :: "('m, 'x) world \<Rightarrow> ('m, 'x) world \<Rightarrow> bool" where
  "frame w w' \<longleftrightarrow> core (wGov w') = core (wGov w)"

named_theorems frames "the operations that leave the core of the store"

lemma frame_refl [simp, frames]: "frame w w"
  by (simp add: frame_def)

lemma frame_trans: "frame a b \<Longrightarrow> frame b c \<Longrightarrow> frame a c"
  by (simp add: frame_def)

lemma frame_write [simp, frames]:
  "frame w (w\<lparr>wExt := x\<rparr>)" "frame w (SetConstitution c w)"
  "frame w (SetLastMinDeposit cs t w)" "frame w (SetLastMinInitialDeposit cs t w)"
  "frame w (SetParticipationEMA E d w)" "frame w (SetConstitutionAmendmentParticipationEMA E d w)"
  "frame w (SetLawParticipationEMA E d w)"
  "frame w (on_gov (gDeposits_update f) w)" "frame w (on_gov (gVotes_update h) w)"
  by (simp_all add: frame_def core_def SetConstitution_def SetLastMinDeposit_def SetLastMinInitialDeposit_def
      SetParticipationEMA_def SetConstitutionAmendmentParticipationEMA_def SetLawParticipationEMA_def)

lemma foldR_frame:
  assumes "foldR f xs w = Ok w'" "\<And>x w w'. f x w = Ok w' \<Longrightarrow> frame w w'"
  shows "frame w w'"
  using foldR_invariant [OF assms(1), of "frame w"] assms(2) frame_trans by (metis frame_refl)

lemma run_hook_frame: "run_hook E h w = Ok w' \<Longrightarrow> frame w w'"
  by (auto simp: run_hook_def)

lemma delete_deposit_frame: "delete_deposit E i a w = Ok w' \<Longrightarrow> frame w w'"
  by (auto simp: delete_deposit_def)

lemma SetDeposit_frame: "SetDeposit E d w = Ok w' \<Longrightarrow> frame w w'"
  by (auto simp: SetDeposit_def)

lemma DeleteAndBurnDeposits_frame: "DeleteAndBurnDeposits E i w = Ok w' \<Longrightarrow> frame w w'"
  unfolding DeleteAndBurnDeposits_def
  by (erule foldR_frame) (auto dest!: delete_deposit_frame intro: frame_trans [OF frame_write(1)])

lemma RefundAndDeleteDeposits_frame: "RefundAndDeleteDeposits E i w = Ok w' \<Longrightarrow> frame w w'"
  unfolding RefundAndDeleteDeposits_def
  by (erule foldR_frame) (auto dest!: delete_deposit_frame intro: frame_trans [OF frame_write(1)])

lemma SetVote_frame: "SetVote E v w = Ok w' \<Longrightarrow> frame w w'"
  by (auto simp: SetVote_def)

lemma deleteVote_frame: "deleteVote E i a w = Ok w' \<Longrightarrow> frame w w'"
  by (auto simp: deleteVote_def)

lemma AddVote_frame: "AddVote E i a opts md w = Ok w' \<Longrightarrow> frame w w'"
  by (auto simp: AddVote_def dest!: SetVote_frame run_hook_frame intro: frame_trans)

text \<open>Counting votes keeps whatever deleting votes keeps.\<close>

lemma tally_votes_keeps:
  assumes "tally_votes E vals fin votes acc w = Ok (tvp, r, err, w')" "P w"
    and del: "\<And>i a v v'. deleteVote E i a v = Ok v' \<Longrightarrow> P v \<Longrightarrow> P v'"
  shows "P w'"
  using assms(1,2)
proof (induction votes arbitrary: acc w)
  case Nil
  then show ?case by (cases acc) simp
next
  case (Cons vote votes)
  from Cons.prems(1) obtain voter where voter: "must_addr E (vVoter vote) = Ok voter" by auto
  obtain ds er where ds: "geDelegations E (wExt w) voter = (ds, er)" by force
  from Cons.prems(1) obtain t1 r1 where
    acc: "foldR (tally_delegation (geDec E) vals fin (vOptions vote)) ds acc = Ok (t1, r1)"
    by (auto simp: voter ds)
  show ?case
  proof (cases er)
    case None
    with Cons.prems(1) obtain w1 where "(if fin then deleteVote E (vProposalId vote) voter w else Ok w) = Ok w1"
      and rest: "tally_votes E vals fin votes (t1, r1) w1 = Ok (tvp, r, err, w')"
      by (auto simp: voter ds acc)
    then have "P w1" using Cons.prems(2) del by (auto split: if_splits)
    with Cons.IH [OF rest] show ?thesis .
  next
    case (Some e)
    with Cons.prems show ?thesis by (simp add: voter ds acc)
  qed
qed

lemma tally_votes_frame:
  "tally_votes E vals fin votes acc w = Ok (tvp, results, err, w') \<Longrightarrow> frame w w'"
  by (erule tally_votes_keeps [where P = "frame w"]) (auto dest: deleteVote_frame intro: frame_trans)

lemma Tally_frame: "Tally E p w = Ok (t, w') \<Longrightarrow> frame w w'"
  by (auto simp: Tally_def tallyVotes_def Let_def split: res.splits option.splits if_splits dest!: tally_votes_frame)

lemma UpdateMinDeposit_frame: "UpdateMinDeposit E t b w = Ok w' \<Longrightarrow> frame w w'"
  and UpdateMinInitialDeposit_frame: "UpdateMinInitialDeposit E t b w = Ok w' \<Longrightarrow> frame w w'"
  by (auto simp: UpdateMinDeposit_def UpdateMinInitialDeposit_def split: option.splits)

lemma ema_step_frame:
  assumes "(if b then bindR m (\<lambda>old. bindR (f old) (\<lambda>d. Ok (g d w))) else Ok w) = Ok w'" "\<And>d. frame w (g d w)"
  shows "frame w w'"
  using assms by (auto split: if_splits)

lemma UpdateParticipationEMA_frame:
  assumes "UpdateParticipationEMA E p d w = Ok w'"
  shows "frame w w'"
proof -
  from assms obtain w1 w2 where
    "(if HasKindConstitutionAmendment (ProposalKinds p)
        then bindR (GetConstitutionAmendmentParticipationEMA E w) (\<lambda>old.
             bindR (ema_next (geDec E) old d) (\<lambda>d.
             Ok (SetConstitutionAmendmentParticipationEMA E d w)))
        else Ok w) = Ok w1"
    "(if HasKindLaw (ProposalKinds p)
        then bindR (GetLawParticipationEMA E w1) (\<lambda>old.
             bindR (ema_next (geDec E) old d) (\<lambda>d. Ok (SetLawParticipationEMA E d w1)))
        else Ok w1) = Ok w2"
    "(if HasKindAny (ProposalKinds p)
        then bindR (GetParticipationEMA E w2) (\<lambda>old.
             bindR (ema_next (geDec E) old d) (\<lambda>d. Ok (SetParticipationEMA E d w2)))
        else Ok w2) = Ok w'"
    unfolding UpdateParticipationEMA_def Let_def bindR_eq_Ok by blast
  then have s: "frame w w1" "frame w1 w2" "frame w2 w'"
    using ema_step_frame [where f = "\<lambda>old. ema_next (geDec E) old d"] frame_write by metis+
  show ?thesis by (rule frame_trans [OF s(1) frame_trans [OF s(2,3)]])
qed

lemma ExecLegacyContent_frame: "ExecLegacyContent E c a w = Ok w' \<Longrightarrow> frame w w'"
  by (auto simp: ExecLegacyContent_def split: any.splits)

lemmas frameI = run_hook_frame SetDeposit_frame DeleteAndBurnDeposits_frame RefundAndDeleteDeposits_frame
  AddVote_frame Tally_frame UpdateMinDeposit_frame UpdateMinInitialDeposit_frame UpdateParticipationEMA_frame
  ExecLegacyContent_frame

end
