(* ===== verification/Gov_Steps.thy ===== *)
theory Gov_Steps
  imports Gov_Frames
begin

text \<open>
  What the operations of the governance module do to its stores: the invariant of the chain
  state, what every operation keeps of the proposals under vote, and the proof for submission,
  deposits and the handlers of all messages.
\<close>

section \<open>The invariant of the state\<close>

text \<open>
  Quorum checks are counted in \<open>uint64\<close> and used as \<open>int64\<close>; nothing in the code bounds the count,
  so a bound is part of what a message has to satisfy.
\<close>

definition sane_params :: "gov_params \<Rightarrow> bool" where
  "sane_params p \<longleftrightarrow> uint (gpQuorumCheckCount p) < 2 ^ 63"

fun sane_msg :: "'m gov_msg \<Rightarrow> bool" where
  "sane_msg (MsgSubmitProposal ms d p md t s) = list_all (\<lambda>m. case m of Broken \<Rightarrow> True | Unpacked x \<Rightarrow> sane_msg x) ms"
| "sane_msg (MsgUpdateParams a p) = sane_params p"
| "sane_msg _ = True"

definition sane_msgs :: "'m gov_msg any list \<Rightarrow> bool" where
  "sane_msgs ms \<longleftrightarrow> list_all (\<lambda>m. case m of Broken \<Rightarrow> True | Unpacked x \<Rightarrow> sane_msg x) ms"

definition entry_ok :: "time \<Rightarrow> quorum_entry \<Rightarrow> bool" where
  "entry_ok t e \<longleftrightarrow> 0 \<le> t \<and> 0 < uint (qeCheckCount e) \<and> uint (qeCheckCount e) < 2 ^ 63 \<and>
     (\<exists>s. qeTimeoutTime e = Some s \<and> s \<le> t)"

definition extra_ok where
  "extra_ok ps qq \<longleftrightarrow> (\<forall>i p. kv_get ps i = Some p \<longrightarrow> sane_msgs (prMessages p)) \<and>
     (\<forall>t i e. kv_get qq (t, i) = Some e \<longrightarrow> entry_ok t e)"

definition params_ok :: "('m, 'x) gov_env \<Rightarrow> gov_params \<Rightarrow> bool" where
  "params_ok E p \<longleftrightarrow> gov_params_ok (geDec E) (geCoins E) p \<and> sane_params p"

definition winv :: "('m, 'x) gov_env \<Rightarrow> ('m, 'x) world \<Rightarrow> bool" where
  "winv E w \<longleftrightarrow> gov_inv (wGov w) \<and> extra_ok (gProposals (wGov w)) (gQuorumQueue (wGov w)) \<and>
     params_ok E (gov_GetParams w)"

text \<open>There are ids for \<open>k\<close> more proposals.\<close>

definition room :: "('m, 'x) world \<Rightarrow> nat \<Rightarrow> bool" where
  "room w k \<longleftrightarrow> (\<exists>i. gProposalID (wGov w) = Some i \<and> unat i + k < 2 ^ 64)"

definition in_vote :: "('m, 'x) world \<Rightarrow> time \<Rightarrow> u64 \<Rightarrow> bool" where
  "in_vote w = live StatusVotingPeriod prVotingEndTime (gProposals (wGov w))"

definition in_deposit :: "('m, 'x) world \<Rightarrow> time \<Rightarrow> u64 \<Rightarrow> bool" where
  "in_deposit w = live StatusDepositPeriod prDepositEndTime (gProposals (wGov w))"

text \<open>
  Outside \<open>X\<close>: a vote goes on with the same messages and the same end, it gets no new quorum check,
  and a decided proposal stays as it is. What enters a queue is not due at the time \<open>B\<close>.
\<close>

definition decided :: "'m proposal \<Rightarrow> bool" where
  "decided p \<longleftrightarrow> prStatus p \<noteq> StatusDepositPeriod \<and> prStatus p \<noteq> StatusVotingPeriod"

definition keep :: "time \<Rightarrow> u64 set \<Rightarrow> ('m, 'x) world \<Rightarrow> ('m, 'x) world \<Rightarrow> bool" where
  "keep B X w w' \<longleftrightarrow>
     (\<forall>i p t. i \<notin> X \<and> GetProposal w i = Some p \<and> in_vote w t i \<longrightarrow>
        in_vote w' t i \<and> (\<exists>p'. GetProposal w' i = Some p' \<and> prMessages p' = prMessages p)) \<and>
     (\<forall>i t s. i \<notin> X \<and> in_vote w t i \<and> kv_has (gQuorumQueue (wGov w')) (s, i) \<longrightarrow> kv_has (gQuorumQueue (wGov w)) (s, i)) \<and>
     (\<forall>i p. i \<notin> X \<and> GetProposal w i = Some p \<and> decided p \<longrightarrow> GetProposal w' i = Some p) \<and>
     (\<forall>t i. in_deposit w' t i \<and> \<not> in_deposit w t i \<longrightarrow> B < t) \<and>
     (\<forall>t i. in_vote w' t i \<and> \<not> in_vote w t i \<longrightarrow> B < t)"

definition moves :: "('m, 'x) gov_env \<Rightarrow> time \<Rightarrow> nat \<Rightarrow> ('m, 'x) world \<Rightarrow> ('m, 'x) world \<Rightarrow> bool" where
  "moves E B k w w' \<longleftrightarrow> (winv E w \<longrightarrow> room w k \<longrightarrow>
     winv E w' \<and> keep B {} w w' \<and> (\<forall>n. room w (k + n) \<longrightarrow> room w' n))"

lemma keep_refl [simp]: "keep B X w w"
  by (simp add: keep_def)

lemma in_vote_get: "in_vote w t i \<Longrightarrow> \<exists>p. GetProposal w i = Some p \<and> prStatus p = StatusVotingPeriod \<and> prVotingEndTime p = Some t"
  by (simp add: in_vote_def live_def GetProposal_def)

lemma in_vote_iff: "GetProposal w i = Some p \<Longrightarrow> in_vote w t i \<longleftrightarrow> prStatus p = StatusVotingPeriod \<and> prVotingEndTime p = Some t"
  by (simp add: in_vote_def live_def GetProposal_def)

lemma in_deposit_iff: "GetProposal w i = Some p \<Longrightarrow> in_deposit w t i \<longleftrightarrow> prStatus p = StatusDepositPeriod \<and> prDepositEndTime p = Some t"
  by (simp add: in_deposit_def live_def GetProposal_def)

lemma keepD:
  assumes "keep B X w w'"
  shows "i \<notin> X \<Longrightarrow> in_vote w t i \<Longrightarrow> in_vote w' t i"
    "i \<notin> X \<Longrightarrow> in_vote w t i \<Longrightarrow> GetProposal w i = Some p \<Longrightarrow>
      \<exists>p'. GetProposal w' i = Some p' \<and> prMessages p' = prMessages p"
    "i \<notin> X \<Longrightarrow> in_vote w t i \<Longrightarrow> kv_has (gQuorumQueue (wGov w')) (s, i) \<Longrightarrow> kv_has (gQuorumQueue (wGov w)) (s, i)"
    "i \<notin> X \<Longrightarrow> GetProposal w i = Some p \<Longrightarrow> decided p \<Longrightarrow> GetProposal w' i = Some p"
    "in_deposit w' t i \<Longrightarrow> in_deposit w t i \<or> B < t"
    "in_vote w' t i \<Longrightarrow> in_vote w t i \<or> B < t"
  using assms in_vote_get [of w t i] unfolding keep_def by blast+

lemma keep_trans:
  assumes k: "keep B X a b" "keep B X b c"
  shows "keep B X a c"
  unfolding keep_def
proof (intro conjI allI impI)
  fix i p t
  assume a: "i \<notin> X \<and> GetProposal a i = Some p \<and> in_vote a t i"
  with keepD(1,2) [OF k(1), of i t] obtain p1 where b: "in_vote b t i" "GetProposal b i = Some p1" "prMessages p1 = prMessages p"
    by blast
  with keepD(1,2) [OF k(2), of i t] a obtain p2 where "in_vote c t i" "GetProposal c i = Some p2" "prMessages p2 = prMessages p1"
    by blast
  with b show "in_vote c t i" "\<exists>p'. GetProposal c i = Some p' \<and> prMessages p' = prMessages p" by auto
next
  fix i t s
  assume a: "i \<notin> X \<and> in_vote a t i \<and> kv_has (gQuorumQueue (wGov c)) (s, i)"
  with keepD(1) [OF k(1)] have "in_vote b t i" by blast
  with a keepD(3) [OF k(2)] have "kv_has (gQuorumQueue (wGov b)) (s, i)" by blast
  with a keepD(3) [OF k(1)] show "kv_has (gQuorumQueue (wGov a)) (s, i)" by blast
next
  fix i p
  assume "i \<notin> X \<and> GetProposal a i = Some p \<and> decided p"
  with keepD(4) [OF k(1)] keepD(4) [OF k(2)] show "GetProposal c i = Some p" by blast
next
  fix t i
  assume "in_deposit c t i \<and> \<not> in_deposit a t i"
  with keepD(5) [OF k(1)] keepD(5) [OF k(2)] show "B < t" by blast
next
  fix t i
  assume "in_vote c t i \<and> \<not> in_vote a t i"
  with keepD(6) [OF k(1)] keepD(6) [OF k(2)] show "B < t" by blast
qed

lemma room_mono: "room w n \<Longrightarrow> m \<le> n \<Longrightarrow> room w m"
  by (auto simp: room_def)

lemma moves_refl [simp]: "moves E B 0 w w"
  by (simp add: moves_def)

lemma moves_trans:
  assumes "moves E B k a b" "moves E B l b c"
  shows "moves E B (k + l) a c"
  unfolding moves_def
proof (intro impI)
  assume w: "winv E a" "room a (k + l)"
  have "room a k" by (rule room_mono [OF w(2)]) simp
  with assms(1) w have b: "winv E b" "keep B {} a b" "\<And>n. room a (k + n) \<Longrightarrow> room b n" unfolding moves_def by blast+
  from b(3) [OF w(2)] assms(2) b(1) have c: "winv E c" "keep B {} b c" "\<And>n. room b (l + n) \<Longrightarrow> room c n"
    unfolding moves_def by blast+
  show "winv E c \<and> keep B {} a c \<and> (\<forall>n. room a (k + l + n) \<longrightarrow> room c n)"
    using b c keep_trans by (auto simp: add.assoc)
qed

lemma frame_moves:
  assumes "frame w w'"
  shows "moves E B 0 w w'"
proof -
  have c: "core (wGov w') = core (wGov w)" using assms by (simp add: frame_def)
  then have "gov_GetParams w' = gov_GetParams w" "winv E w' = winv E w"
    using gov_inv_core [OF c] by (simp_all add: core_def gov_GetParams_def winv_def)
  moreover have "keep B {} w w'" using c by (simp add: core_def keep_def GetProposal_def in_vote_def in_deposit_def)
  moreover have "room w n \<Longrightarrow> room w' n" for n using c by (simp add: core_def room_def)
  ultimately show ?thesis by (simp add: moves_def)
qed

lemma moves_more: "moves E B k w w' \<Longrightarrow> moves E B (k + l) w w'"
  unfolding moves_def by (meson room_mono le_add1 le_add2 add.assoc add_le_mono order_refl)

text \<open>To show what an operation does, its result may be replaced by one with the same core.\<close>

lemma moves_frame: "moves E B k w w1 \<Longrightarrow> frame w1 w' \<Longrightarrow> moves E B k w w'"
  using moves_trans [OF _ frame_moves, of E B k w w1 w'] by simp

section \<open>Writing a proposal\<close>

lemma winv_parts:
  assumes "winv E w"
  shows "parts_ok (gProposals (wGov w)) (gProposalID (wGov w)) (gInactiveQueue (wGov w)) (gInactiveNumber (wGov w))
     (gActiveQueue (wGov w)) (gActiveNumber (wGov w)) (gVotingPeriod (wGov w)) (gQuorumQueue (wGov w))"
    "extra_ok (gProposals (wGov w)) (gQuorumQueue (wGov w))" "params_ok E (gov_GetParams w)"
  using assms by (simp_all add: winv_def gov_inv_def)

lemma winv_proposal:
  assumes "winv E w" "GetProposal w i = Some p"
  shows "prId p = i" "proposal_ok p" "sane_msgs (prMessages p)"
  using parts_okD(1) [OF winv_parts(1) [OF assms(1)]] winv_parts(2) [OF assms(1)] assms(2)
    proposals_get [of _ _ i p] by (auto simp: GetProposal_def extra_ok_def)

text \<open>The fields the invariant reads.\<close>

definition same_fields :: "'m proposal \<Rightarrow> 'm proposal \<Rightarrow> bool" where
  "same_fields p p0 \<longleftrightarrow> prStatus p = prStatus p0 \<and> prDepositEndTime p = prDepositEndTime p0 \<and>
     prVotingEndTime p = prVotingEndTime p0 \<and> prVotingStartTime p = prVotingStartTime p0 \<and>
     prFinalTallyResult p = prFinalTallyResult p0 \<and> prMessages p = prMessages p0"

lemma gov_GetParams_on_gov [simp]:
  "(\<And>g. gParams (f g) = gParams g) \<Longrightarrow> gov_GetParams (on_gov f w) = gov_GetParams w"
  by (simp add: gov_GetParams_def)

lemma update_moves:
  assumes old: "GetProposal w (prId p) = Some p0" and p: "same_fields p p0" and undecided: "\<not> decided p0"
  shows "moves E B 0 w (SetProposal p w)"
  unfolding moves_def
proof (intro impI conjI)
  assume w: "winv E w"
  let ?w = "SetProposal p w"
  note p0 = winv_proposal [OF w old]
  have ok: "proposal_ok p" using p0(2) p by (simp add: proposal_ok_def same_fields_def)
  have old': "kv_get (gProposals (wGov w)) (prId p) = Some p0" using old by (simp add: GetProposal_def)
  have "gov_inv (wGov ?w)"
    unfolding gov_inv_def
    using parts_update [OF winv_parts(1) [OF w] old' ok] p by (simp add: SetProposal_def same_fields_def)
  moreover have "extra_ok (gProposals (wGov ?w)) (gQuorumQueue (wGov ?w))"
    using winv_parts(2) [OF w] p0(3) p by (simp add: SetProposal_def extra_ok_def same_fields_def)
  ultimately show "winv E ?w" using winv_parts(3) [OF w] by (simp add: winv_def SetProposal_def)
  have same: "in_vote ?w t i = in_vote w t i" "in_deposit ?w t i = in_deposit w t i" for t i
    using live_get [OF old'] p by (simp_all add: in_vote_def in_deposit_def SetProposal_def same_fields_def)
  show "keep B {} w ?w"
    unfolding keep_def same using old p undecided by (auto simp: SetProposal_def GetProposal_def same_fields_def)
  show "\<forall>n. room w (0 + n) \<longrightarrow> room ?w n" by (simp add: room_def SetProposal_def)
qed

section \<open>Activation\<close>

text \<open>What the activation of a proposal writes.\<close>

definition in_voting_period :: "time \<Rightarrow> duration \<Rightarrow> 'm proposal \<Rightarrow> 'm proposal" where
  "in_voting_period B vp p = p\<lparr>prVotingStartTime := Some B, prVotingEndTime := Some (time_add B vp),
     prStatus := StatusVotingPeriod\<rparr>"

lemma in_voting_period_simps [simp]:
  "prId (in_voting_period B vp p) = prId p" "prMessages (in_voting_period B vp p) = prMessages p"
  "prStatus (in_voting_period B vp p) = StatusVotingPeriod"
  "prVotingEndTime (in_voting_period B vp p) = Some (time_add B vp)"
  "prDepositEndTime (in_voting_period B vp p) = prDepositEndTime p"
  by (simp_all add: in_voting_period_def)

lemma activate_core:
  assumes "ActivateVotingPeriod E B p w = Ok w'"
  shows "\<exists>vp dt qq. gpVotingPeriod (gov_GetParams w) = Some vp \<and> prDepositEndTime p = Some dt \<and>
    core (wGov w') = (kv_set (prId p) (in_voting_period B vp p) (gProposals (wGov w)), gProposalID (wGov w),
      kv_del (dt, prId p) (gInactiveQueue (wGov w)), Some (counter (gInactiveNumber (wGov w)) - 1),
      kv_set (time_add B vp, prId p) () (gActiveQueue (wGov w)), Some (counter (gActiveNumber (wGov w)) + 1),
      kv_set (prId p) () (gVotingPeriod (wGov w)), qq, gParams (wGov w)) \<and>
    (if 0 < gpQuorumCheckCount (gov_GetParams w)
     then \<exists>qt. gpQuorumTimeout (gov_GetParams w) = Some qt \<and> qq = kv_set (time_add B qt, prId p)
       (NewQuorumCheckQueueEntry (time_add B qt) (gpQuorumCheckCount (gov_GetParams w))) (gQuorumQueue (wGov w))
     else qq = gQuorumQueue (wGov w))"
proof -
  let ?p = "gov_GetParams w" and ?id = "prId p"
  obtain vp dt where vp: "gpVotingPeriod ?p = Some vp" and dt: "prDepositEndTime p = Some dt"
    using assms unfolding ActivateVotingPeriod_def Let_def bindR_eq_Ok must_eq_Ok
    by auto
  let ?w1 = "RemoveFromInactiveProposalQueue ?id dt (SetProposal (in_voting_period B vp p) w)"
  have w1: "GetInactiveProposalsNumber ?w1 = counter (gInactiveNumber (wGov w))"
    by (simp add: GetInactiveProposalsNumber_def RemoveFromInactiveProposalQueue_def SetProposal_def)
  obtain w2 w3 where w2: "DecrementInactiveProposalsNumber ?w1 = Ok w2"
    and w3: "(if 0 < gpQuorumCheckCount ?p
        then bindR (must (gpQuorumTimeout ?p)) (\<lambda>timeout.
             let quorumTimeoutTime = time_add B timeout in
             Ok (InsertQuorumCheckQueue ?id quorumTimeoutTime
                  (NewQuorumCheckQueueEntry quorumTimeoutTime (gpQuorumCheckCount ?p))
                  (InsertActiveProposalQueue ?id (time_add B vp) w2)))
        else Ok (InsertActiveProposalQueue ?id (time_add B vp) w2)) = Ok w3"
    and w4: "IncrementActiveProposalsNumber E B w3 = Ok w'"
    using assms unfolding ActivateVotingPeriod_def Let_def bindR_eq_Ok must_eq_Ok in_voting_period_def [symmetric]
      in_voting_period_simps
    by (auto simp: vp dt)
  have w2': "w2 = SetInactiveProposalsNumber (counter (gInactiveNumber (wGov w)) - 1) ?w1"
    using w2 w1 by (simp add: DecrementInactiveProposalsNumber_def Let_def split: if_splits)
  have fr: "frame (SetActiveProposalsNumber (GetActiveProposalsNumber w3 + 1) w3) w'"
    using w4 unfolding IncrementActiveProposalsNumber_def by (rule frameI)
  show ?thesis
  proof (cases "0 < gpQuorumCheckCount ?p")
    case True
    with w3 obtain qt where qt: "gpQuorumTimeout ?p = Some qt" "w3 = InsertQuorumCheckQueue ?id (time_add B qt)
        (NewQuorumCheckQueueEntry (time_add B qt) (gpQuorumCheckCount ?p)) (InsertActiveProposalQueue ?id (time_add B vp) w2)"
      by (auto simp: Let_def)
    show ?thesis
      using vp dt qt fr True
      by (auto simp: frame_def core_def w2' SetActiveProposalsNumber_def GetActiveProposalsNumber_def
          InsertQuorumCheckQueue_def InsertActiveProposalQueue_def SetInactiveProposalsNumber_def
          RemoveFromInactiveProposalQueue_def SetProposal_def)
  next
    case False
    with w3 have "w3 = InsertActiveProposalQueue ?id (time_add B vp) w2" by simp
    then show ?thesis
      using vp dt fr False
      by (auto simp: frame_def core_def w2' SetActiveProposalsNumber_def GetActiveProposalsNumber_def
          InsertActiveProposalQueue_def SetInactiveProposalsNumber_def
          RemoveFromInactiveProposalQueue_def SetProposal_def)
  qed
qed

lemma params_okD:
  assumes "params_ok E q"
  shows "\<exists>mdp. gpMaxDepositPeriod q = Some mdp \<and> 0 < mdp"
    "\<exists>vp. gpVotingPeriod q = Some vp \<and> 0 < vp \<and>
      (0 < gpQuorumCheckCount q \<longrightarrow> (\<exists>qt ext. gpQuorumTimeout q = Some qt \<and> 0 \<le> qt \<and> qt < vp \<and>
         gpMaxVotingPeriodExtension q = Some ext \<and> wrap_int64 (vp - qt) \<le> ext))"
    "uint (gpQuorumCheckCount q) < 2 ^ 63"
  using assms by (simp_all add: params_ok_def gov_params_ok_def sane_params_def)

lemma core_eqD:
  assumes "core (wGov w) = (ps, nxt, iq, inum, aq, anum, flags, qq, params)"
  shows "gProposals (wGov w) = ps" "gProposalID (wGov w) = nxt" "gInactiveQueue (wGov w) = iq"
    "gInactiveNumber (wGov w) = inum" "gActiveQueue (wGov w) = aq" "gActiveNumber (wGov w) = anum"
    "gVotingPeriod (wGov w) = flags" "gQuorumQueue (wGov w) = qq" "gParams (wGov w) = params"
  using assms by (simp_all add: core_def)

lemma uint_pos: "0 < (n :: u64) \<Longrightarrow> 0 < uint n"
  by (simp add: word_less_def)

lemma activate_moves:
  assumes act: "ActivateVotingPeriod E B p w = Ok w'" and p: "GetProposal w (prId p) = Some p"
    "prStatus p = StatusDepositPeriod" and B: "0 \<le> B"
  shows "moves E B 0 w w'"
    "\<And>i. i \<noteq> prId p \<Longrightarrow> GetProposal w' i = GetProposal w i"
    "\<exists>p'. GetProposal w' (prId p) = Some p' \<and> prMessages p' = prMessages p" "\<not> in_deposit w' t (prId p)"
proof -
  let ?g = "wGov w" and ?id = "prId p"
  from activate_core [OF act] obtain vp dt qq where vp: "gpVotingPeriod (gov_GetParams w) = Some vp"
    and dt: "prDepositEndTime p = Some dt"
    and core': "core (wGov w') = (kv_set ?id (in_voting_period B vp p) (gProposals ?g), gProposalID ?g,
      kv_del (dt, ?id) (gInactiveQueue ?g), Some (counter (gInactiveNumber ?g) - 1),
      kv_set (time_add B vp, ?id) () (gActiveQueue ?g), Some (counter (gActiveNumber ?g) + 1),
      kv_set ?id () (gVotingPeriod ?g), qq, gParams ?g)"
    and qq: "if 0 < gpQuorumCheckCount (gov_GetParams w)
     then \<exists>qt. gpQuorumTimeout (gov_GetParams w) = Some qt \<and> qq = kv_set (time_add B qt, ?id)
       (NewQuorumCheckQueueEntry (time_add B qt) (gpQuorumCheckCount (gov_GetParams w))) (gQuorumQueue ?g)
     else qq = gQuorumQueue ?g"
    by blast
  note fields = core_eqD [OF core']
  have get': "GetProposal w' i = (if i = ?id then Some (in_voting_period B vp p) else GetProposal w i)" for i
    by (simp add: GetProposal_def fields)
  then show "\<And>i. i \<noteq> ?id \<Longrightarrow> GetProposal w' i = GetProposal w i" "\<exists>p'. GetProposal w' ?id = Some p' \<and> prMessages p' = prMessages p" by simp_all
  have idp: "in_deposit w' t i \<longleftrightarrow> i \<noteq> ?id \<and> in_deposit w t i" for t i
    by (simp add: in_deposit_def fields)
  have ivo: "in_vote w' t i \<longleftrightarrow> (if i = ?id then time_add B vp = t else in_vote w t i)" for t i
    by (simp add: in_vote_def fields)
  show "\<not> in_deposit w' t ?id" by (simp add: idp)
  have not_vote: "\<not> in_vote w t ?id" for t using p by (simp add: in_vote_iff)
  show "moves E B 0 w w'"
    unfolding moves_def
  proof (intro impI conjI)
    assume w: "winv E w"
    note ok = winv_proposal [OF w p(1)]
    obtain n where n: "gProposalID ?g = Some n"
      using parts_okD(1) [OF winv_parts(1) [OF w]] by (auto simp: proposals_ok_def)
    have vp0: "0 < vp" "0 < gpQuorumCheckCount (gov_GetParams w) \<Longrightarrow>
        \<exists>qt. gpQuorumTimeout (gov_GetParams w) = Some qt \<and> 0 \<le> qt \<and> qt < vp"
      using params_okD(2) [OF winv_parts(3) [OF w]] vp by auto
    have "proposal_ok (in_voting_period B vp p)"
      using ok(2) by (simp add: proposal_ok_def in_voting_period_def)
    with parts_activate [OF winv_parts(1) [OF w, unfolded n], of "in_voting_period B vp p" p dt "time_add B vp"] p dt
    obtain m where m: "gInactiveNumber ?g = Some m" "parts_ok (gProposals (wGov w')) (gProposalID (wGov w'))
        (gInactiveQueue (wGov w')) (gInactiveNumber (wGov w')) (gActiveQueue (wGov w')) (gActiveNumber (wGov w'))
        (gVotingPeriod (wGov w')) (gQuorumQueue ?g)"
      by (auto simp: fields n GetProposal_def)
    have live': "live StatusVotingPeriod prVotingEndTime (gProposals (wGov w')) (time_add B vp) ?id"
      by (simp add: fields)
    have "gov_inv (wGov w')"
    proof (cases "0 < gpQuorumCheckCount (gov_GetParams w)")
      case True
      with qq vp0 obtain qt where "qt < vp" "qq = kv_set (time_add B qt, ?id)
       (NewQuorumCheckQueueEntry (time_add B qt) (gpQuorumCheckCount (gov_GetParams w))) (gQuorumQueue ?g)" by auto
      then show ?thesis
        using parts_quorum_set [OF m(2) live'] by (simp add: gov_inv_def fields time_add_def NewQuorumCheckQueueEntry_def)
    next
      case False
      then show ?thesis using m(2) qq by (simp add: gov_inv_def fields)
    qed
    moreover have "extra_ok (gProposals (wGov w')) (gQuorumQueue (wGov w'))"
      unfolding extra_ok_def
    proof (intro conjI allI impI)
      fix i p'
      assume "kv_get (gProposals (wGov w')) i = Some p'"
      then show "sane_msgs (prMessages p')"
        using ok(3) winv_parts(2) [OF w] by (auto simp: fields extra_ok_def split: if_splits)
    next
      fix t i e
      assume e: "kv_get (gQuorumQueue (wGov w')) (t, i) = Some e"
      show "entry_ok t e"
      proof (cases "kv_get (gQuorumQueue ?g) (t, i) = Some e")
        case True
        then show ?thesis using winv_parts(2) [OF w] by (simp add: extra_ok_def)
      next
        case False
        with e qq fields(8) have pos: "0 < gpQuorumCheckCount (gov_GetParams w)" by (auto split: if_splits)
        with qq vp0 obtain qt where qt: "0 \<le> qt" "qq = kv_set (time_add B qt, ?id)
         (NewQuorumCheckQueueEntry (time_add B qt) (gpQuorumCheckCount (gov_GetParams w))) (gQuorumQueue ?g)" by auto
        with e False fields(8) have "t = time_add B qt"
            "e = NewQuorumCheckQueueEntry (time_add B qt) (gpQuorumCheckCount (gov_GetParams w))"
          by (auto split: if_splits)
        then show ?thesis
          using uint_pos [OF pos] params_okD(3) [OF winv_parts(3) [OF w]] qt(1) B
          by (simp add: entry_ok_def NewQuorumCheckQueueEntry_def time_add_def)
      qed
    qed
    moreover have "gov_GetParams w' = gov_GetParams w" by (simp add: gov_GetParams_def fields)
    ultimately show "winv E w'" using winv_parts(3) [OF w] by (simp add: winv_def)
    have q: "kv_has (gQuorumQueue (wGov w')) (s, i) \<Longrightarrow> i \<noteq> ?id \<Longrightarrow> kv_has (gQuorumQueue ?g) (s, i)" for s i
      using qq by (auto simp: fields split: if_splits)
    show "keep B {} w w'"
      unfolding keep_def
    proof (intro conjI allI impI)
      fix i q t
      assume "i \<notin> {} \<and> GetProposal w i = Some q \<and> in_vote w t i"
      with not_vote show "in_vote w' t i" "\<exists>p'. GetProposal w' i = Some p' \<and> prMessages p' = prMessages q"
        by (auto simp: ivo get')
    next
      fix i t s
      assume "i \<notin> {} \<and> in_vote w t i \<and> kv_has (gQuorumQueue (wGov w')) (s, i)"
      with not_vote q show "kv_has (gQuorumQueue ?g) (s, i)" by metis
    next
      fix i q
      assume "i \<notin> {} \<and> GetProposal w i = Some q \<and> decided q"
      then show "GetProposal w' i = Some q" using p by (auto simp: get' decided_def)
    next
      fix t i
      assume "in_vote w' t i \<and> \<not> in_vote w t i"
      then show "B < t" using vp0(1) by (auto simp: ivo time_add_def split: if_splits)
    qed (simp add: idp)
    show "\<forall>n. room w (0 + n) \<longrightarrow> room w' n" by (simp add: room_def fields)
  qed
qed

section \<open>Submission\<close>

lemma submit_core:
  assumes "SubmitProposal E B ms md ti su pr w = Ok (p, w')"
  shows "\<exists>n dp. gProposalID (wGov w) = Some n \<and> gpMaxDepositPeriod (gov_GetParams w) = Some dp \<and>
    p = NewProposal (geAddr E) ms n B (time_add B dp) md ti su pr \<and>
    core (wGov w') = (kv_set n p (gProposals (wGov w)), Some (n + 1),
      kv_set (time_add B dp, n) () (gInactiveQueue (wGov w)), Some (counter (gInactiveNumber (wGov w)) + 1),
      gActiveQueue (wGov w), gActiveNumber (wGov w), kv_del n (gVotingPeriod (wGov w)), gQuorumQueue (wGov w), gParams (wGov w))"
proof -
  from assms obtain n dp w2 where n: "gProposalID (wGov w) = Some n" and dp: "gpMaxDepositPeriod (gov_GetParams w) = Some dp"
    and w2: "IncrementInactiveProposalsNumber E B (SetProposalID (n + 1) (InsertInactiveProposalQueue n (time_add B dp)
        (SetProposal (NewProposal (geAddr E) ms n B (time_add B dp) md ti su pr) w))) = Ok w2"
    and hook: "run_hook E (AfterProposalSubmission n) w2 = Ok w'"
    and p: "p = NewProposal (geAddr E) ms n B (time_add B dp) md ti su pr"
    unfolding SubmitProposal_def Let_def bindR_eq_Ok must_eq_Ok GetProposalID_def orErr_eq_Ok by auto
  let ?w1 = "SetProposalID (n + 1) (InsertInactiveProposalQueue n (time_add B dp) (SetProposal p w))"
  have "frame (SetInactiveProposalsNumber (GetInactiveProposalsNumber ?w1 + 1) ?w1) w2"
    using w2 unfolding IncrementInactiveProposalsNumber_def p by (rule frameI)
  then have "frame (SetInactiveProposalsNumber (GetInactiveProposalsNumber ?w1 + 1) ?w1) w'"
    using run_hook_frame [OF hook] by (rule frame_trans)
  then show ?thesis
    using n dp p by (auto simp: frame_def core_def SetInactiveProposalsNumber_def GetInactiveProposalsNumber_def
        SetProposalID_def InsertInactiveProposalQueue_def SetProposal_def NewProposal_def)
qed

lemma submit_moves:
  assumes sub: "SubmitProposal E B ms md ti su pr w = Ok (p, w')" and ms: "list_all sane_msg ms"
  shows "moves E B 1 w w'"
  unfolding moves_def
proof (intro impI conjI)
  assume w: "winv E w" and rm: "room w 1"
  let ?g = "wGov w"
  from submit_core [OF sub] obtain n dp where n: "gProposalID ?g = Some n"
    and dp: "gpMaxDepositPeriod (gov_GetParams w) = Some dp"
    and p: "p = NewProposal (geAddr E) ms n B (time_add B dp) md ti su pr"
    and c: "core (wGov w') = (kv_set n p (gProposals ?g), Some (n + 1),
      kv_set (time_add B dp, n) () (gInactiveQueue ?g), Some (counter (gInactiveNumber ?g) + 1),
      gActiveQueue ?g, gActiveNumber ?g, kv_del n (gVotingPeriod ?g), gQuorumQueue ?g, gParams ?g)"
    by blast
  note fields = core_eqD [OF c]
  have lt: "Suc (unat n) < 2 ^ 64" using rm n by (simp add: room_def)
  then have un: "unat (n + 1) = Suc (unat n)" by (simp add: unat_word_ariths)
  then have n1: "n + 1 \<noteq> 0" by (metis unat_0 nat.distinct(1))
  have pf: "proposal_ok p" "prId p = n" "prStatus p = StatusDepositPeriod" "prDepositEndTime p = Some (time_add B dp)"
    by (simp_all add: p NewProposal_def proposal_ok_def)
  have "gov_inv (wGov w')"
    unfolding gov_inv_def fields using parts_submit [OF winv_parts(1) [OF w, unfolded n] n1 pf] by simp
  moreover have "extra_ok (gProposals (wGov w')) (gQuorumQueue (wGov w'))"
  proof -
    have "sane_msgs (prMessages p)"
      using ms by (auto simp: p NewProposal_def sane_msgs_def list_all_iff)
    then show ?thesis using winv_parts(2) [OF w] by (simp add: fields extra_ok_def)
  qed
  moreover have "gov_GetParams w' = gov_GetParams w" by (simp add: gov_GetParams_def fields)
  ultimately show "winv E w'" using winv_parts(3) [OF w] by (simp add: winv_def)
  have free: "kv_get (gProposals ?g) n = None"
    using parts_okD(1) [OF winv_parts(1) [OF w, unfolded n]] by (cases "kv_get (gProposals ?g) n") (auto simp: proposals_ok_def)
  have dp0: "0 < dp" using params_okD(1) [OF winv_parts(3) [OF w]] dp by simp
  have vote: "in_vote w' t i \<longleftrightarrow> in_vote w t i" for t i
    using live_none [OF free, of StatusVotingPeriod prVotingEndTime t] pf(3) by (auto simp: in_vote_def fields)
  show "keep B {} w w'"
    unfolding keep_def vote
  proof (intro conjI allI impI)
    fix i q t
    assume a: "i \<notin> {} \<and> GetProposal w i = Some q \<and> in_vote w t i"
    then show "in_vote w t i" by simp
    have "i \<noteq> n" using a free by (auto simp: GetProposal_def)
    with a show "\<exists>p'. GetProposal w' i = Some p' \<and> prMessages p' = prMessages q" by (simp add: GetProposal_def fields)
  next
    fix i q
    assume "i \<notin> {} \<and> GetProposal w i = Some q \<and> decided q"
    then show "GetProposal w' i = Some q" using free by (auto simp: GetProposal_def fields)
  next
    fix t i
    assume "in_deposit w' t i \<and> \<not> in_deposit w t i"
    then show "B < t" using dp0 pf by (auto simp: in_deposit_def fields time_add_def split: if_splits)
  qed (auto simp: fields)
  show "\<forall>k. room w (1 + k) \<longrightarrow> room w' k" using n by (simp add: room_def fields un)
qed

section \<open>Deposits\<close>

lemma deposit_moves:
  assumes dep: "AddDeposit E B i a cs skip w = Ok (b, w')" and B: "0 \<le> B" and w: "winv E w"
  shows "moves E B 0 w w'"
proof -
  from dep obtain p0 x tot old activated w2 d w3 where p0: "GetProposal w i = Some p0" "\<not> decided p0"
    and act: "reaches_min_deposit E (p0\<lparr>prTotalDeposit := tot\<rparr>) (GetMinDeposit w) = Ok activated"
    and w2: "(if activated then ActivateVotingPeriod E B (p0\<lparr>prTotalDeposit := tot\<rparr>)
          (SetProposal (p0\<lparr>prTotalDeposit := tot\<rparr>) (w\<lparr>wExt := x\<rparr>))
        else Ok (SetProposal (p0\<lparr>prTotalDeposit := tot\<rparr>) (w\<lparr>wExt := x\<rparr>))) = Ok w2"
    and hook: "run_hook E (AfterProposalDeposit i a) w2 = Ok w3" and set: "SetDeposit E d w3 = Ok w'"
    unfolding AddDeposit_def Let_def bindR_eq_Ok must_eq_Ok orErr_eq_Ok on_ext_eq_Ok failIf_eq_Ok decided_def by auto
  let ?p = "p0\<lparr>prTotalDeposit := tot\<rparr>" and ?w0 = "w\<lparr>wExt := x\<rparr>"
  have id: "prId p0 = i" by (rule winv_proposal [OF w p0(1)])
  have "frame w ?w0" by simp
  moreover have upd: "moves E B 0 ?w0 (SetProposal ?p ?w0)"
    by (rule update_moves) (use p0 id in \<open>auto simp: same_fields_def GetProposal_def\<close>)
  moreover have "moves E B 0 (SetProposal ?p ?w0) w2"
  proof (cases activated)
    case True
    have st: "prStatus ?p = StatusDepositPeriod"
      using act True by (auto simp: reaches_min_deposit_def split: if_splits)
    have a: "ActivateVotingPeriod E B ?p (SetProposal ?p ?w0) = Ok w2" using w2 True by simp
    show ?thesis by (rule activate_moves(1) [OF a _ st B]) simp
  qed (use w2 in simp)
  ultimately have "moves E B 0 w w2"
    using moves_trans [of E B 0 w ?w0 0] moves_trans [of E B 0 w "SetProposal ?p ?w0" 0] frame_moves [of w ?w0] by simp
  moreover have "frame w2 w'" using run_hook_frame [OF hook] SetDeposit_frame [OF set] by (rule frame_trans)
  ultimately show ?thesis by (rule moves_frame)
qed

section \<open>Messages\<close>

text \<open>What the libraries promise: the arithmetic of decimals, and a router that calls a handler only
  after \<open>ValidateBasic\<close>.\<close>

definition router_validates :: "('m, 'x) gov_env \<Rightarrow> bool" where
  "router_validates E \<longleftrightarrow> dec_laws (geDec E) \<and> (\<forall>m. geBeforeHandler E m = Ok () \<longrightarrow>
     msg_ValidateBasic (geDec E) (geCoins E) (geAddr E) (geOtherValidate E) m = Ok ())"

lemma movesI: "(winv E w \<Longrightarrow> moves E B k w w') \<Longrightarrow> moves E B k w w'"
  by (simp add: moves_def)

lemma unpacked_sane: "sane_msgs ms \<Longrightarrow> GetMsgs ms = Ok xs \<Longrightarrow> list_all sane_msg xs"
proof -
  have "sane_msgs ms \<Longrightarrow> list_all sane_msg (unpacked ms)"
    by (induction ms) (auto simp: sane_msgs_def unpacked_def split: any.splits)
  then show "sane_msgs ms \<Longrightarrow> GetMsgs ms = Ok xs \<Longrightarrow> list_all sane_msg xs" by (auto simp: GetMsgs_def split: if_splits)
qed

lemma msg_submit_moves:
  assumes h: "msg_SubmitProposal E B ms dep pr md ti su w = Ok (i, w')" and ms: "sane_msgs ms" and B: "0 \<le> B"
  shows "moves E B 1 w w'"
proof -
  from h obtain xs a p w1 x b where xs: "GetMsgs ms = Ok xs"
    and sub: "SubmitProposal E B xs md ti su a w = Ok (p, w1)"
    and dep: "AddDeposit E B (prId p) a dep True (w1\<lparr>wExt := x\<rparr>) = Ok (b, w')"
    unfolding msg_SubmitProposal_def bindR_eq_Ok by auto
  have "moves E B 1 w w1" by (rule submit_moves [OF sub unpacked_sane [OF ms xs]])
  then have "moves E B 1 w (w1\<lparr>wExt := x\<rparr>)" by (rule moves_frame) simp
  moreover have "moves E B 0 (w1\<lparr>wExt := x\<rparr>) w'" by (rule movesI) (rule deposit_moves [OF dep B])
  ultimately show ?thesis using moves_trans by fastforce
qed

lemma set_params_moves:
  assumes p: "params_ok E p"
  shows "moves E B 0 w (gov_SetParams p w)"
proof -
  have "gov_GetParams (gov_SetParams p w) = p" by (simp add: gov_GetParams_def gov_SetParams_def)
  moreover have "gov_inv (wGov (gov_SetParams p w)) = gov_inv (wGov w)" by (simp add: gov_inv_def gov_SetParams_def)
  moreover have "keep B {} w (gov_SetParams p w)"
    by (simp add: keep_def gov_SetParams_def GetProposal_def in_vote_def in_deposit_def)
  ultimately show ?thesis using p by (simp add: moves_def winv_def) (simp add: room_def gov_SetParams_def)
qed

lemma msg_update_params_moves:
  assumes h: "msg_UpdateParams E B au p w = Ok w'" and p: "params_ok E p"
  shows "moves E B 0 w w'"
proof -
  let ?w1 = "SetLastMinDeposit (GetMinDeposit w) B w"
  let ?w2 = "SetLastMinInitialDeposit (GetMinInitialDeposit ?w1) B ?w1"
  have w': "w' = gov_SetParams p ?w2" using h by (simp add: msg_UpdateParams_def Let_def)
  have "frame w ?w2" by (rule frame_trans [OF frame_write(3) frame_write(4)])
  then have "moves E B 0 w ?w2" by (rule frame_moves)
  from moves_trans [OF this set_params_moves [OF p, of B ?w2]] show ?thesis by (simp add: w')
qed

lemma handle_msg_moves:
  assumes h: "handle_msg E B msg w = Ok w'" and r: "router_validates E" and s: "sane_msg msg" and B: "0 \<le> B"
  shows "moves E B 1 w w'"
proof -
  have frame1: "moves E B 1 w w'" if "frame w w'"
    using moves_more [OF frame_moves [OF that], of E B 1] by simp
  have zero1: "moves E B 1 w w'" if "moves E B 0 w w'" using moves_more [OF that, of 1] by simp
  show ?thesis
  proof (cases msg)
    case (MsgSubmitProposal ms dep pr md ti su)
    with h obtain i where "msg_SubmitProposal E B ms dep pr md ti su w = Ok (i, w')" by (auto simp: handle_msg_def)
    moreover have "sane_msgs ms" using s MsgSubmitProposal by (simp add: sane_msgs_def)
    ultimately show ?thesis using B by (rule msg_submit_moves)
  next
    case (MsgDeposit i d cs)
    with h obtain a b where ad: "AddDeposit E B i a cs False w = Ok (b, w')"
      by (auto simp: handle_msg_def msg_Deposit_def)
    have "moves E B 0 w w'" by (rule movesI) (rule deposit_moves [OF ad B])
    then show ?thesis by (rule zero1)
  next
    case (MsgUpdateParams au p)
    with h have b: "geBeforeHandler E msg = Ok ()" and u: "msg_UpdateParams E B au p w = Ok w'"
      by (auto simp: handle_msg_def)
    have L: "dec_laws (geDec E)" and "msg_ValidateBasic (geDec E) (geCoins E) (geAddr E) (geOtherValidate E) msg = Ok ()"
      using r b unfolding router_validates_def by blast+
    then have "gov_Params_ValidateBasic (geDec E) (geCoins E) p = Ok ()" using MsgUpdateParams by auto
    from gov_Params_ValidateBasic_facts [OF L this] s MsgUpdateParams have "params_ok E p" by (simp add: params_ok_def)
    with u show ?thesis by (intro zero1 msg_update_params_moves)
  next
    case (MsgVote i v opt md)
    with h show ?thesis by (intro frame1) (auto simp: handle_msg_def msg_Vote_def intro: frameI)
  next
    case (MsgVoteWeighted i v opts md)
    with h show ?thesis by (intro frame1) (auto simp: handle_msg_def msg_VoteWeighted_def intro: frameI)
  next
    case (MsgExecLegacyContent c a)
    with h show ?thesis by (intro frame1) (auto simp: handle_msg_def intro: frameI)
  next
    case (MsgProposeLaw a)
    with h show ?thesis by (intro frame1) (auto simp: handle_msg_def msg_ProposeLaw_def)
  next
    case (MsgProposeConstitutionAmendment a am)
    with h show ?thesis by (intro frame1) (auto simp: handle_msg_def msg_ProposeConstitutionAmendment_def)
  next
    case (MsgOther m)
    with h show ?thesis by (intro frame1) (auto simp: handle_msg_def)
  qed
qed

lemma execute_moves:
  assumes "foldR (safeExecuteHandler E B) ms w = Ok w'" "router_validates E" "list_all sane_msg ms" "0 \<le> B"
  shows "moves E B (length ms) w w'"
  using assms(1,3)
proof (induction ms arbitrary: w)
  case (Cons m ms)
  then obtain w1 where w1: "safeExecuteHandler E B m w = Ok w1" "foldR (safeExecuteHandler E B) ms w1 = Ok w'" by auto
  then have "handle_msg E B m w = Ok w1" by (auto simp: safeExecuteHandler_def split: res.splits)
  then have "moves E B 1 w w1" using handle_msg_moves assms(2,4) Cons.prems(2) by auto
  from moves_trans [OF this Cons.IH [OF w1(2)]] Cons.prems(2) show ?case by simp
qed simp

end
