(* ===== verification/Gov_Chain.thy ===== *)
theory Gov_Chain
  imports Gov_Steps
begin

text \<open>
  The end blocker and the chain as a whole: the three loops over the queues, what a block leaves
  behind, and the states that messages and blocks can reach.
\<close>

section \<open>Loops over a queue\<close>

lemma iterate_queue_inv:
  assumes "iterate_queue es cb w = Ok w'" "I es w"
    and step: "\<And>t i v es p w stop w'. I (((t, i), v) # es) w \<Longrightarrow> GetProposal w i = Some p \<Longrightarrow>
      cb p t v w = Ok (stop, w') \<Longrightarrow> \<not> stop \<and> I es w'"
  shows "I [] w'"
  using assms(1,2)
proof (induction es arbitrary: w)
  case (Cons e es)
  obtain t i v where e: "e = ((t, i), v)" by (metis prod.exhaust)
  with Cons.prems(1) obtain p stop w1 where p: "GetProposal w i = Some p" "cb p t v w = Ok (stop, w1)"
    "(if stop then Ok w1 else iterate_queue es cb w1) = Ok w'" by auto
  have "\<not> stop \<and> I es w1" using step [OF _ p(1,2)] Cons.prems(2) e by blast
  with p(3) Cons.IH show ?case by simp
qed simp

lemma due_keys: "(t, i) \<in> fst ` set (due B q) \<longleftrightarrow> kv_has q (t, i) \<and> t \<le> B"
  by (force simp: due_def kv_has_in_keys)

lemma due_entry: "kv_wf q \<Longrightarrow> ((t, i), e) \<in> set (due B q) \<longleftrightarrow> kv_get q (t, i) = Some e \<and> t \<le> B"
  by (auto simp: due_def kv_get_in_set)

text \<open>The ids in a queue are distinct.\<close>

lemma due_distinct:
  assumes q: "queue_ok st endt ps q num"
  shows "distinct (map (snd \<circ> fst) (due B q))"
proof -
  have "distinct (map fst q)" using q by (simp add: queue_ok_def kv_wf_distinct)
  moreover have "inj_on snd (fst ` set q)"
  proof (rule inj_onI)
    fix a b
    assume ab: "a \<in> fst ` set q" "b \<in> fst ` set q" "snd a = snd b"
    obtain t t' i where k: "a = (t, i)" "b = (t', i)" using ab(3) by (metis prod.collapse)
    have "live st endt ps t i" "live st endt ps t' i" using ab(1,2) queue_keys [OF q] by (simp_all add: k)
    then have "t = t'" by (rule live_time)
    then show "a = b" by (simp add: k)
  qed
  ultimately have "distinct (map snd (map fst q))" by (simp add: distinct_map comp_inj_on)
  then have "distinct (map (snd \<circ> fst) q)" by simp
  then show ?thesis unfolding due_def by (rule distinct_map_filter)
qed

lemma winv_queues:
  assumes "winv E w"
  shows "queue_ok StatusDepositPeriod prDepositEndTime (gProposals (wGov w)) (gInactiveQueue (wGov w)) (gInactiveNumber (wGov w))"
    "queue_ok StatusVotingPeriod prVotingEndTime (gProposals (wGov w)) (gActiveQueue (wGov w)) (gActiveNumber (wGov w))"
    "kv_has (gInactiveQueue (wGov w)) (t, i) \<longleftrightarrow> in_deposit w t i"
    "kv_has (gActiveQueue (wGov w)) (t, i) \<longleftrightarrow> in_vote w t i"
    "quorum_ok (gProposals (wGov w)) (gQuorumQueue (wGov w))"
  using parts_okD(2,3,5) [OF winv_parts(1) [OF assms]]
  by (simp_all add: queue_ok_def in_deposit_def in_vote_def)

lemma winv_room: "winv E w \<Longrightarrow> room w 0"
  using parts_okD(1) [OF winv_parts(1)] unat64 by (force simp: room_def proposals_ok_def)

section \<open>Deposit periods that have ended\<close>

lemma DeleteProposal_core:
  assumes "DeleteProposal E i w = Ok w'" "GetProposal w i = Some p" "prDepositEndTime p = Some dt" "prVotingEndTime p = None"
  shows "w' = on_gov (gProposals_update (kv_del i)) (RemoveFromInactiveProposalQueue i dt w)"
  using assms by (simp add: DeleteProposal_def Let_def)

lemma end_deposit_moves:
  assumes ed: "end_deposit_period E B p w = Ok (stop, w')" and w: "winv E w" and p: "GetProposal w i = Some p"
    and dep: "in_deposit w t i" and B: "0 \<le> B"
  shows "\<not> stop" "moves E B 0 w w'" "\<And>j. j \<noteq> i \<Longrightarrow> GetProposal w' j = GetProposal w j" "\<And>t. \<not> in_deposit w' t i"
    "GetProposal w' j = Some q' \<Longrightarrow> \<exists>q. GetProposal w j = Some q \<and> prMessages q' = prMessages q"
proof -
  note ok = winv_proposal [OF w p]
  have st: "prStatus p = StatusDepositPeriod" "prDepositEndTime p = Some t" using dep by (simp_all add: in_deposit_iff [OF p])
  have vt: "prVotingEndTime p = None" using ok(2) st(1) by (simp add: proposal_ok_def)
  obtain reached where reached: "reaches_min_deposit E p (GetMinDeposit w) = Ok reached"
    using ed unfolding end_deposit_period_def bindR_eq_Ok by blast
  have "\<not> stop \<and> moves E B 0 w w' \<and> (\<forall>j. j \<noteq> i \<longrightarrow> GetProposal w' j = GetProposal w j) \<and> (\<forall>t. \<not> in_deposit w' t i) \<and>
      (\<forall>q'. GetProposal w' i = Some q' \<longrightarrow> prMessages q' = prMessages p)"
  proof (cases reached)
    case True
    with ed reached have act: "ActivateVotingPeriod E B p w = Ok w'" "\<not> stop"
      by (auto simp: end_deposit_period_def)
    from activate_moves [OF act(1) _ st(1) B] p ok(1) act(2) show ?thesis by auto
  next
    case False
    with ed reached obtain w1 w2 w3 where del: "DeleteProposal E i w = Ok w1"
      and money: "(if \<not> gpBurnProposalDepositPrevote (gov_GetParams w1)
          then RefundAndDeleteDeposits E i w1 else DeleteAndBurnDeposits E i w1) = Ok w2"
      and dec: "DecrementInactiveProposalsNumber w2 = Ok w3"
      and hook: "run_hook E (AfterProposalFailedMinDeposit i) w3 = Ok w'" and stop: "\<not> stop"
      using ok(1) unfolding end_deposit_period_def bindR_eq_Ok by auto
    let ?g = "wGov w"
    have w1: "w1 = on_gov (gProposals_update (kv_del i)) (RemoveFromInactiveProposalQueue i t w)"
      by (rule DeleteProposal_core [OF del p st(2) vt])
    have "frame w1 w2" using money by (auto split: if_splits intro: frameI)
    then have c2: "core (wGov w2) = core (wGov w1)" by (simp add: frame_def)
    have w3: "w3 = SetInactiveProposalsNumber (GetInactiveProposalsNumber w2 - 1) w2"
      using dec by (simp add: DecrementInactiveProposalsNumber_def Let_def split: if_splits)
    have "core (wGov w') = core (wGov w3)" using run_hook_frame [OF hook] by (simp add: frame_def)
    also have "\<dots> = (kv_del i (gProposals ?g), gProposalID ?g, kv_del (t, i) (gInactiveQueue ?g),
        Some (counter (gInactiveNumber ?g) - 1), gActiveQueue ?g, gActiveNumber ?g, gVotingPeriod ?g,
        gQuorumQueue ?g, gParams ?g)"
      using c2 by (simp add: core_def w3 w1 SetInactiveProposalsNumber_def GetInactiveProposalsNumber_def
          RemoveFromInactiveProposalQueue_def)
    finally have fields: "gProposals (wGov w') = kv_del i (gProposals ?g)" "gProposalID (wGov w') = gProposalID ?g"
        "gInactiveQueue (wGov w') = kv_del (t, i) (gInactiveQueue ?g)"
        "gInactiveNumber (wGov w') = Some (counter (gInactiveNumber ?g) - 1)" "gActiveQueue (wGov w') = gActiveQueue ?g"
        "gActiveNumber (wGov w') = gActiveNumber ?g" "gVotingPeriod (wGov w') = gVotingPeriod ?g"
        "gQuorumQueue (wGov w') = gQuorumQueue ?g" "gParams (wGov w') = gParams ?g"
      by (rule core_eqD)+
    have old: "kv_get (gProposals ?g) i = Some p" using p by (simp add: GetProposal_def)
    have get': "GetProposal w' j = (if j = i then None else GetProposal w j)" for j by (simp add: GetProposal_def fields)
    have idp: "in_deposit w' s j \<longleftrightarrow> j \<noteq> i \<and> in_deposit w s j" and ivo: "in_vote w' s j \<longleftrightarrow> j \<noteq> i \<and> in_vote w s j" for s j
      by (simp_all add: in_deposit_def in_vote_def fields)
    have nov: "\<not> in_vote w s i" for s using st(1) by (simp add: in_vote_iff [OF p])
    have "winv E w'"
    proof -
      obtain m where "gInactiveNumber ?g = Some m" "parts_ok (gProposals (wGov w')) (gProposalID (wGov w'))
        (gInactiveQueue (wGov w')) (gInactiveNumber (wGov w')) (gActiveQueue (wGov w')) (gActiveNumber (wGov w'))
        (gVotingPeriod (wGov w')) (gQuorumQueue (wGov w'))"
        using parts_delete [OF winv_parts(1) [OF w] old st] by (auto simp: fields)
      moreover have "extra_ok (gProposals (wGov w')) (gQuorumQueue (wGov w'))"
        using winv_parts(2) [OF w] by (simp add: fields extra_ok_def)
      moreover have "gov_GetParams w' = gov_GetParams w" by (simp add: gov_GetParams_def fields)
      ultimately show ?thesis using winv_parts(3) [OF w] by (simp add: winv_def gov_inv_def)
    qed
    moreover have "keep B {} w w'"
      unfolding keep_def idp ivo get' using nov st(1) p by (auto simp: fields decided_def)
    moreover have "room w n \<Longrightarrow> room w' n" for n by (simp add: room_def fields)
    ultimately show ?thesis using stop idp get' by (simp add: moves_def)
  qed
  then have all: "\<not> stop" "moves E B 0 w w'" "\<And>j. j \<noteq> i \<Longrightarrow> GetProposal w' j = GetProposal w j" "\<And>t. \<not> in_deposit w' t i"
      and msgs: "GetProposal w' i = Some q' \<Longrightarrow> prMessages q' = prMessages p" for q'
    by blast+
  show "\<not> stop" "moves E B 0 w w'" "\<And>j. j \<noteq> i \<Longrightarrow> GetProposal w' j = GetProposal w j" "\<And>t. \<not> in_deposit w' t i"
    by (rule all; assumption)+
  show "GetProposal w' j = Some q' \<Longrightarrow> \<exists>q. GetProposal w j = Some q \<and> prMessages q' = prMessages q"
    using all(3) [of j] msgs [of q'] p by (cases "j = i") auto
qed

lemma deposit_loop:
  assumes loop: "IterateInactiveProposalsQueue B (end_deposit_period E B) w = Ok w'" and w: "winv E w" and B: "0 \<le> B"
  shows "moves E B 0 w w'" "in_deposit w' t i \<Longrightarrow> B < t"
    "GetProposal w' i = Some q' \<Longrightarrow> \<exists>q. GetProposal w i = Some q \<and> prMessages q' = prMessages q"
proof -
  let ?I = "\<lambda>(es :: (queue_key \<times> unit) list) v. moves E B 0 w v \<and> (\<forall>((t, j), _) \<in> set es. in_deposit v t j) \<and>
    distinct (map (snd \<circ> fst) es) \<and> (\<forall>t j. in_deposit v t j \<and> t \<le> B \<longrightarrow> (t, j) \<in> fst ` set es) \<and>
    (\<forall>i q'. GetProposal v i = Some q' \<longrightarrow> (\<exists>q. GetProposal w i = Some q \<and> prMessages q' = prMessages q))"
  have "?I [] w'"
  proof (rule iterate_queue_inv [OF loop [unfolded IterateInactiveProposalsQueue_def]])
    show "?I (due B (gInactiveQueue (wGov w))) w"
      using winv_queues(3) [OF w] due_distinct [OF winv_queues(1) [OF w]] due_keys [of _ _ B "gInactiveQueue (wGov w)"]
        due_entry [of "gInactiveQueue (wGov w)" _ _ _ B] winv_queues(1) [OF w]
      by (auto simp: kv_has_def queue_ok_def)
  next
    fix t i v es p and u u' :: "('a, 'b) world" and stop
    assume I: "?I (((t, i), v) # es) u" and p: "GetProposal u i = Some p" and cb: "end_deposit_period E B p u = Ok (stop, u')"
    have u: "winv E u" using I w winv_room [OF w] by (auto simp: moves_def)
    have dep: "in_deposit u t i" using I by simp
    note step = end_deposit_moves [OF cb u p dep B]
    have other: "in_deposit u' s j \<longleftrightarrow> in_deposit u s j" if "j \<noteq> i" for s j
      using step(3) [OF that] by (simp add: in_deposit_def live_def GetProposal_def)
    have "moves E B 0 w u'" using moves_trans [of E B 0 w u 0 u'] I step(2) by simp
    moreover have "\<forall>((t, j), _) \<in> set es. in_deposit u' t j"
    proof clarify
      fix s j x
      assume m: "((s, j), x) \<in> set es"
      then have "j \<in> (snd \<circ> fst) ` set es" by force
      then have "j \<noteq> i" using I by auto
      then show "in_deposit u' s j" using I m other by auto
    qed
    moreover have "\<forall>s j. in_deposit u' s j \<and> s \<le> B \<longrightarrow> (s, j) \<in> fst ` set es"
    proof (intro allI impI)
      fix s j
      assume a: "in_deposit u' s j \<and> s \<le> B"
      then have "j \<noteq> i" using step(4) by blast
      with a other I show "(s, j) \<in> fst ` set es" by auto
    qed
    moreover have "\<exists>q. GetProposal w j = Some q \<and> prMessages q' = prMessages q" if "GetProposal u' j = Some q'" for j q'
      using step(5) [OF that] I by auto
    ultimately show "\<not> stop \<and> ?I es u'" using step(1) I by simp
  qed
  then show "moves E B 0 w w'" "in_deposit w' t i \<Longrightarrow> B < t"
    "GetProposal w' i = Some q' \<Longrightarrow> \<exists>q. GetProposal w i = Some q \<and> prMessages q' = prMessages q" by (auto simp: not_less [symmetric])
qed

section \<open>Quorum checks\<close>

lemma div_step:
  fixes d q :: int
  assumes "0 < q"
  shows "d < q * (d div q + 1)" "q * (d div q + 1) \<le> d + q"
proof -
  have "q * (d div q) + d mod q = d" by (rule mult_div_mod_eq)
  moreover have "q * (d div q + 1) = q * (d div q) + q" by (simp add: distrib_left)
  ultimately show "d < q * (d div q + 1)" "q * (d div q + 1) \<le> d + q"
    using pos_mod_bound [OF assms, of d] pos_mod_sign [OF assms, of d] by linarith+
qed

text \<open>The next check is in the future and not after the end of the vote.\<close>

lemma next_check:
  assumes nx: "next_quorum_check B t tv e = Ok nx" and e: "entry_ok t e" and t: "t \<le> B" "B < tv" "B \<le> max_int64"
  shows "B < nx" "nx \<le> tv"
proof -
  from e obtain s where s: "qeTimeoutTime e = Some s" "s \<le> t" and t0: "0 \<le> t"
    and count: "0 < uint (qeCheckCount e)" "uint (qeCheckCount e) < 2 ^ 63"
    by (auto simp: entry_ok_def)
  let ?c = "int64_of_u64 (qeCheckCount e)" and ?period = "time_sub tv s"
  have c: "?c = uint (qeCheckCount e)"
    using signed_take_bit_int_eq_self [of 63 "uint (qeCheckCount e)"] count(2) uint_ge_0 [of "qeCheckCount e"]
    by (simp add: int64_of_u64_def sint_uint del: uint_ge_0)
  have p: "0 \<le> ?period" using s(2) t by (simp add: time_sub_def max_int64_def min_int64_def)
  let ?q = "?period div ?c"
  have q: "go_quot ?period ?c = Ok ?q" using p count(1) c by (simp add: go_quot_nonneg)
  have q0: "0 \<le> ?q" using p count(1) c by (simp add: pos_imp_zdiv_nonneg_iff)
  let ?n = "time_add t ?q"
  show "nx \<le> tv" using nx s q by (auto simp: next_quorum_check_def Let_def time_after_def split: if_splits)
  show "B < nx"
  proof (cases "B < ?n")
    case True
    then have "nx = (if tv < ?n then tv else ?n)"
      using nx s(1) q by (simp add: next_quorum_check_def time_after_def Let_def split: if_splits)
    with True t(2) show ?thesis by simp
  next
    case False
    let ?d = "time_sub B ?n"
    from False nx s(1) q obtain m where m: "go_quot ?d ?q = Ok m"
      and nx': "nx = (let x = time_add ?n (wrap_int64 (?q * wrap_int64 (m + 1))) in if tv < x then tv else x)"
      by (auto simp: next_quorum_check_def time_after_def Let_def)
    have qpos: "0 < ?q" using m q0 by (cases "?q = 0") (auto simp: go_quot_def)
    have d: "?d = B - ?n" "0 \<le> ?d"
      using False t0 q0 t(3) by (auto simp: time_sub_def time_add_def max_int64_def min_int64_def)
    have m': "m = ?d div ?q" using m go_quot_nonneg [OF d(2) qpos] by simp
    define P where "P = ?q * (m + 1)"
    have far: "?d < P" "P \<le> ?d + ?q" using div_step [OF qpos, of ?d] by (simp_all only: m' P_def)
    have m0: "0 \<le> m" using d(2) qpos m' by (simp add: pos_imp_zdiv_nonneg_iff)
    have "?d + ?q \<le> max_int64" using d(1) t0 t(3) by (simp add: time_add_def)
    then have upper: "P \<le> max_int64" using far(2) by linarith
    have "1 * (m + 1) \<le> P" unfolding P_def using qpos m0 by (intro mult_right_mono) linarith+
    then have low: "m + 1 \<le> P" by simp
    have "min_int64 \<le> 0" by (simp add: min_int64_def)
    then have "in_int64 (m + 1)" "in_int64 P" using upper low m0 by (simp_all add: in_int64_def)
    then have "wrap_int64 (m + 1) = m + 1" "wrap_int64 P = P" by (simp_all add: wrap_int64_id)
    then have "nx = (let x = ?n + P in if tv < x then tv else x)"
      using nx' by (simp add: time_add_def P_def)
    with far(1) d(1) t(2) show ?thesis by (auto simp: Let_def)
  qed
qed

text \<open>
  What the quorum checks leave: the messages of all proposals, the ids, what is in its deposit
  period, decided proposals, and that a proposal is under vote.
\<close>

definition checks :: "('m, 'x) world \<Rightarrow> ('m, 'x) world \<Rightarrow> bool" where
  "checks w w' \<longleftrightarrow> gProposalID (wGov w') = gProposalID (wGov w) \<and>
     (\<forall>i. map_option prMessages (GetProposal w' i) = map_option prMessages (GetProposal w i)) \<and>
     (\<forall>t i. in_deposit w' t i \<longleftrightarrow> in_deposit w t i) \<and>
     (\<forall>i. (\<exists>t. in_vote w' t i) \<longleftrightarrow> (\<exists>t. in_vote w t i)) \<and>
     (\<forall>i p. GetProposal w i = Some p \<and> decided p \<longrightarrow> GetProposal w' i = Some p)"

lemma checks_refl [simp]: "checks w w"
  by (simp add: checks_def)

lemma checks_trans: "checks a b \<Longrightarrow> checks b c \<Longrightarrow> checks a c"
  by (simp add: checks_def)

lemma quorum_del_winv:
  assumes "winv E w"
  shows "winv E (RemoveFromQuorumCheckQueue i t w)" "checks w (RemoveFromQuorumCheckQueue i t w)"
proof -
  have "gov_inv (wGov (RemoveFromQuorumCheckQueue i t w))"
    using parts_quorum_del [OF winv_parts(1) [OF assms]] by (simp add: gov_inv_def RemoveFromQuorumCheckQueue_def)
  then show "winv E (RemoveFromQuorumCheckQueue i t w)"
    using winv_parts(2,3) [OF assms] by (simp add: winv_def RemoveFromQuorumCheckQueue_def extra_ok_def)
  show "checks w (RemoveFromQuorumCheckQueue i t w)"
    by (simp add: checks_def RemoveFromQuorumCheckQueue_def GetProposal_def in_deposit_def in_vote_def)
qed

lemma quorum_set_winv:
  assumes w: "winv E w" and "in_vote w tv i" "t \<le> tv" "entry_ok t e"
  shows "winv E (InsertQuorumCheckQueue i t e w)" "checks w (InsertQuorumCheckQueue i t e w)"
proof -
  have "qeTimeoutTime e \<noteq> None" using assms(4) by (auto simp: entry_ok_def)
  then have "gov_inv (wGov (InsertQuorumCheckQueue i t e w))"
    using parts_quorum_set [OF winv_parts(1) [OF w]] assms(2,3) by (simp add: gov_inv_def InsertQuorumCheckQueue_def in_vote_def)
  then show "winv E (InsertQuorumCheckQueue i t e w)"
    using winv_parts(2,3) [OF w] assms(4) by (auto simp: winv_def InsertQuorumCheckQueue_def extra_ok_def)
  show "checks w (InsertQuorumCheckQueue i t e w)"
    by (simp add: checks_def InsertQuorumCheckQueue_def GetProposal_def in_deposit_def in_vote_def)
qed

text \<open>A proposal under vote is written with a later end, and moved in the queue.\<close>

lemma later_end:
  assumes w: "winv E w" and p: "GetProposal w i = Some p" and v: "in_vote w tv i" and u: "tv \<le> u"
    and p': "prId p' = i" "proposal_ok p'" "prStatus p' = StatusVotingPeriod" "prVotingEndTime p' = Some u"
      "prMessages p' = prMessages p"
    and w': "w' = SetProposal p' (InsertActiveProposalQueue i u (RemoveFromActiveProposalQueue i tv w))"
  shows "winv E w'" "checks w w'" "gQuorumQueue (wGov w') = gQuorumQueue (wGov w)"
proof -
  let ?g = "wGov w"
  note ok = winv_proposal [OF w p]
  have pv: "prStatus p = StatusVotingPeriod" "prVotingEndTime p = Some tv" using v by (simp_all add: in_vote_iff [OF p])
  have fields: "gProposals (wGov w') = kv_set i p' (gProposals ?g)" "gProposalID (wGov w') = gProposalID ?g"
      "gInactiveQueue (wGov w') = gInactiveQueue ?g" "gInactiveNumber (wGov w') = gInactiveNumber ?g"
      "gActiveQueue (wGov w') = kv_set (u, i) () (kv_del (tv, i) (gActiveQueue ?g))"
      "gActiveNumber (wGov w') = gActiveNumber ?g" "gVotingPeriod (wGov w') = kv_set i () (gVotingPeriod ?g)"
      "gQuorumQueue (wGov w') = gQuorumQueue ?g" "gParams (wGov w') = gParams ?g"
    using p' by (simp_all add: w' SetProposal_def InsertActiveProposalQueue_def RemoveFromActiveProposalQueue_def)
  have old: "kv_get (gProposals ?g) (prId p') = Some p" using p p'(1) by (simp add: GetProposal_def)
  have "gov_inv (wGov w')"
    unfolding gov_inv_def fields using parts_extend [OF winv_parts(1) [OF w] old pv p'(2-4) u] p'(1) by simp
  moreover have "extra_ok (gProposals (wGov w')) (gQuorumQueue (wGov w'))"
    using winv_parts(2) [OF w] ok(3) p'(5) by (simp add: fields extra_ok_def)
  moreover have "gov_GetParams w' = gov_GetParams w" by (simp add: gov_GetParams_def fields)
  ultimately show "winv E w'" using winv_parts(3) [OF w] by (simp add: winv_def)
  have "in_vote w' s j \<longleftrightarrow> (if j = i then s = u else in_vote w s j)" for s j
    using p'(3,4) by (auto simp: in_vote_def fields)
  then have "(\<exists>t. in_vote w' t j) \<longleftrightarrow> (\<exists>t. in_vote w t j)" for j using v by auto
  moreover have "in_deposit w' s j \<longleftrightarrow> in_deposit w s j" for s j
    using pv(1) in_deposit_iff [OF p] p'(3) by (auto simp: in_deposit_def fields)
  ultimately show "checks w w'" using p pv(1) p'(5) by (auto simp: checks_def fields GetProposal_def decided_def)
  show "gQuorumQueue (wGov w') = gQuorumQueue (wGov w)" by (rule fields)
qed

lemma extend_winv:
  assumes ext: "extend_voting B p w = Ok w'" and w: "winv E w" and p: "GetProposal w i = Some p" and v: "in_vote w tv i"
  shows "winv E w'" "checks w w'" "gQuorumQueue (wGov w') = gQuorumQueue (wGov w)"
proof -
  note ok = winv_proposal [OF w p]
  have pv: "prStatus p = StatusVotingPeriod" "prVotingEndTime p = Some tv" using v by (simp_all add: in_vote_iff [OF p])
  from ext obtain x where x: "gpMaxVotingPeriodExtension (gov_GetParams w) = Some x" by (auto simp: extend_voting_def)
  from ext pv have w': "w' = (if time_after (time_add B x) tv
      then SetProposal (p\<lparr>prVotingEndTime := Some (time_add B x)\<rparr>)
        (InsertActiveProposalQueue i (time_add B x) (RemoveFromActiveProposalQueue i tv w)) else w)"
    using ok(1) x unfolding extend_voting_def Let_def by (simp split: if_splits)
  have "winv E w' \<and> checks w w' \<and> gQuorumQueue (wGov w') = gQuorumQueue (wGov w)"
  proof (cases "time_after (time_add B x) tv")
    case True
    then have le: "tv \<le> time_add B x" by (simp add: time_after_def)
    have ok': "proposal_ok (p\<lparr>prVotingEndTime := Some (time_add B x)\<rparr>)" using ok(2) pv(1) by (simp add: proposal_ok_def)
    from later_end [OF w p v le _ ok'] True ok(1) pv(1) w' show ?thesis by simp
  qed (use w w' in simp)
  then show "winv E w'" "checks w w'" "gQuorumQueue (wGov w') = gQuorumQueue (wGov w)" by blast+
qed

text \<open>One check: its entry is gone, and a new one is in the future.\<close>

lemma check_quorum_step:
  assumes cq: "check_quorum E B p t e w = Ok (stop, w')" and w: "winv E w" and p: "GetProposal w i = Some p"
    and v: "in_vote w tv i" and e: "entry_ok t e" and t: "t \<le> B" "B \<le> max_int64"
  shows "\<not> stop" "winv E w'" "checks w w'"
    "kv_has (gQuorumQueue (wGov w')) (s, j) \<Longrightarrow> B < s \<or> (kv_has (gQuorumQueue (wGov w)) (s, j) \<and> (s, j) \<noteq> (t, i))"
proof -
  have id: "prId p = i" by (rule winv_proposal [OF w p])
  let ?w1 = "RemoveFromQuorumCheckQueue i t w"
  note w1 = quorum_del_winv [OF w, of i t]
  have p1: "GetProposal ?w1 i = Some p" and v1: "in_vote ?w1 tv i" and pv: "prVotingEndTime p = Some tv"
    using p v in_vote_iff [OF p, of tv] by (simp_all add: RemoveFromQuorumCheckQueue_def GetProposal_def in_vote_def)
  have q1: "kv_has (gQuorumQueue (wGov ?w1)) (s, j) \<longleftrightarrow> kv_has (gQuorumQueue (wGov w)) (s, j) \<and> (s, j) \<noteq> (t, i)" for s j
    by (auto simp: RemoveFromQuorumCheckQueue_def)
  consider (same) "\<not> stop" "w' = ?w1" | (ext) "\<not> stop" "extend_voting B p ?w1 = Ok w'"
    | (new) nx where "\<not> stop" "B < tv" "next_quorum_check B t tv e = Ok nx"
      "w' = InsertQuorumCheckQueue i nx (e\<lparr>qeChecksDone := qeChecksDone e + 1\<rparr>) ?w1"
    using cq pv id unfolding check_quorum_def Let_def time_after_def by (auto split: res.splits if_splits)
  then have "\<not> stop \<and> winv E w' \<and> checks w w' \<and> (\<forall>s j. kv_has (gQuorumQueue (wGov w')) (s, j) \<longrightarrow>
      B < s \<or> (kv_has (gQuorumQueue (wGov w)) (s, j) \<and> (s, j) \<noteq> (t, i)))"
  proof cases
    case same
    with w1 q1 show ?thesis by auto
  next
    case ext
    note x = extend_winv [OF ext(2) w1(1) p1 v1]
    from x(1,3) checks_trans [OF w1(2) x(2)] q1 ext(1) show ?thesis by simp
  next
    case new
    note nx = next_check [OF new(3) e t(1) new(2) t(2)]
    have "entry_ok nx (e\<lparr>qeChecksDone := qeChecksDone e + 1\<rparr>)" using e nx(1) t(1) by (auto simp: entry_ok_def)
    note s = quorum_set_winv [OF w1(1) v1 nx(2) this]
    from s(1) checks_trans [OF w1(2) s(2)] q1 new(1) nx(1) show ?thesis
      by (auto simp: new(4) InsertQuorumCheckQueue_def)
  qed
  then show "\<not> stop" "winv E w'" "checks w w'"
    "kv_has (gQuorumQueue (wGov w')) (s, j) \<Longrightarrow> B < s \<or> (kv_has (gQuorumQueue (wGov w)) (s, j) \<and> (s, j) \<noteq> (t, i))"
    by blast+
qed

lemma quorum_loop:
  assumes loop: "IterateQuorumCheckQueue B (check_quorum E B) w = Ok w'" and w: "winv E w" and B: "B \<le> max_int64"
  shows "winv E w'" "checks w w'" "kv_has (gQuorumQueue (wGov w')) (s, j) \<Longrightarrow> B < s"
proof -
  let ?I = "\<lambda>es v. winv E v \<and> checks w v \<and> (\<forall>((t, j), e) \<in> set es. entry_ok t e \<and> t \<le> B \<and> (\<exists>tv. in_vote v tv j)) \<and>
    (\<forall>t j. kv_has (gQuorumQueue (wGov v)) (t, j) \<longrightarrow> B < t \<or> (t, j) \<in> fst ` set es)"
  have wf: "kv_wf (gQuorumQueue (wGov w))" using winv_queues(5) [OF w] by (simp add: quorum_ok_def)
  have "?I [] w'"
  proof (rule iterate_queue_inv [OF loop [unfolded IterateQuorumCheckQueue_def]])
    have "entry_ok t e \<and> t \<le> B \<and> (\<exists>tv. in_vote w tv j)" if "((t, j), e) \<in> set (due B (gQuorumQueue (wGov w)))" for t j e
      using that due_entry [OF wf] winv_parts(2) [OF w] winv_queues(5) [OF w]
      unfolding extra_ok_def quorum_ok_def in_vote_def by blast
    moreover have "B < t \<or> (t, j) \<in> fst ` set (due B (gQuorumQueue (wGov w)))" if "kv_has (gQuorumQueue (wGov w)) (t, j)" for t j
      using that due_keys [of t j B "gQuorumQueue (wGov w)"] by (simp add: not_less [symmetric])
    ultimately show "?I (due B (gQuorumQueue (wGov w))) w" using w by auto
  next
    fix t i e es p and u u' :: "('a, 'b) world" and stop
    assume I: "?I (((t, i), e) # es) u" and p: "GetProposal u i = Some p" and cb: "check_quorum E B p t e u = Ok (stop, u')"
    then obtain tv where a: "winv E u" "checks w u" "entry_ok t e" "t \<le> B" "in_vote u tv i" by auto
    note step = check_quorum_step [OF cb a(1) p a(5,3,4) B]
    have "(\<exists>tv. in_vote u' tv j) \<longleftrightarrow> (\<exists>tv. in_vote u tv j)" for j using step(3) by (simp add: checks_def)
    then have "\<forall>((t, j), e) \<in> set es. entry_ok t e \<and> t \<le> B \<and> (\<exists>tv. in_vote u' tv j)" using I by auto
    moreover have "\<forall>t j. kv_has (gQuorumQueue (wGov u')) (t, j) \<longrightarrow> B < t \<or> (t, j) \<in> fst ` set es"
      using step(4) I by fastforce
    ultimately show "\<not> stop \<and> ?I es u'" using step(1,2) checks_trans [OF a(2) step(3)] by blast
  qed
  then show "winv E w'" "checks w w'" "kv_has (gQuorumQueue (wGov w')) (s, j) \<Longrightarrow> B < s" by auto
qed

section \<open>Voting periods that have ended\<close>

lemma GetMsgs_length: "GetMsgs ms = Ok xs \<Longrightarrow> length xs = length ms"
proof -
  have "Broken \<notin> set ms \<Longrightarrow> length (unpacked ms) = length ms"
    by (induction ms) (auto simp: unpacked_def split: any.splits)
  then show "GetMsgs ms = Ok xs \<Longrightarrow> length xs = length ms" by (auto simp: GetMsgs_def split: if_splits)
qed

lemma execute_messages_moves:
  assumes "execute_messages E B p w = Ok w'" "router_validates E" "sane_msgs (prMessages p)" "0 \<le> B"
  shows "moves E B (length (prMessages p)) w w'"
proof -
  obtain xs where xs: "GetMsgs (prMessages p) = Ok xs" "foldR (safeExecuteHandler E B) xs w = Ok w'"
    using assms(1) by (auto simp: execute_messages_def)
  from execute_moves [OF xs(2) assms(2) unpacked_sane [OF assms(3) xs(1)] assms(4)] GetMsgs_length [OF xs(1)]
  show ?thesis by simp
qed

text \<open>A vote is closed: the proposal is written with its outcome and leaves the queue.\<close>

lemma close_vote:
  assumes w: "winv E w" and p: "GetProposal w i = Some p" and v: "in_vote w t i"
    and none: "\<And>s. \<not> kv_has (gQuorumQueue (wGov w)) (s, i)"
    and p': "prId p' = i" "proposal_ok p'" "decided p'" "sane_msgs (prMessages p')"
    and core: "core (wGov w') = (kv_set i p' (gProposals (wGov w)), gProposalID (wGov w), gInactiveQueue (wGov w),
      gInactiveNumber (wGov w), kv_del (t, i) (gActiveQueue (wGov w)), Some (counter (gActiveNumber (wGov w)) - 1),
      kv_del i (gVotingPeriod (wGov w)), gQuorumQueue (wGov w), gParams (wGov w))"
  shows "winv E w'" "keep B {i} w w'" "room w n \<Longrightarrow> room w' n" "\<not> in_vote w' s i"
    "GetProposal w' j = (if j = i then Some p' else GetProposal w j)"
proof -
  let ?g = "wGov w"
  have pv: "prStatus p = StatusVotingPeriod" "prVotingEndTime p = Some t" using v by (simp_all add: in_vote_iff [OF p])
  have st: "prStatus p' \<noteq> StatusVotingPeriod" "prStatus p' \<noteq> StatusDepositPeriod" using p'(3) by (simp_all add: decided_def)
  note fields = core_eqD [OF core]
  have get': "GetProposal w' j = (if j = i then Some p' else GetProposal w j)" for j by (simp add: GetProposal_def fields)
  then show "GetProposal w' j = (if j = i then Some p' else GetProposal w j)" .
  have idp: "in_deposit w' s j \<longleftrightarrow> j \<noteq> i \<and> in_deposit w s j" and ivo: "in_vote w' s j \<longleftrightarrow> j \<noteq> i \<and> in_vote w s j" for s j
    using st by (auto simp: in_deposit_def in_vote_def fields)
  have old: "kv_get (gProposals ?g) (prId p') = Some p" using p p'(1) by (simp add: GetProposal_def)
  obtain m where "gActiveNumber ?g = Some m" "parts_ok (gProposals (wGov w')) (gProposalID (wGov w'))
      (gInactiveQueue (wGov w')) (gInactiveNumber (wGov w')) (gActiveQueue (wGov w')) (gActiveNumber (wGov w'))
      (gVotingPeriod (wGov w')) (gQuorumQueue (wGov w'))"
    using parts_end [OF winv_parts(1) [OF w] old pv p'(2) st] none p'(1) by (auto simp: fields)
  moreover have "extra_ok (gProposals (wGov w')) (gQuorumQueue (wGov w'))"
    using winv_parts(2) [OF w] p'(4) by (simp add: fields extra_ok_def)
  moreover have "gov_GetParams w' = gov_GetParams w" by (simp add: gov_GetParams_def fields)
  ultimately show "winv E w'" using winv_parts(3) [OF w] by (simp add: winv_def gov_inv_def)
  show "keep B {i} w w'" unfolding keep_def idp ivo get' by (auto simp: fields)
  show "room w n \<Longrightarrow> room w' n" by (simp add: room_def fields)
  show "\<not> in_vote w' s i" by (simp add: ivo)
qed

lemma end_voting_step:
  assumes ev: "end_voting_period E B p w = Ok (stop, w')" and w: "winv E w" and p: "GetProposal w i = Some p"
    and v: "in_vote w t i" and r: "router_validates E" and B: "0 \<le> B" and room: "room w (length (prMessages p))"
    and none: "\<And>s. \<not> kv_has (gQuorumQueue (wGov w)) (s, i)"
  shows "\<not> stop" "winv E w'" "keep B {i} w w'" "room w (length (prMessages p) + n) \<Longrightarrow> room w' n" "\<not> in_vote w' s i"
    "\<exists>p'. GetProposal w' i = Some p' \<and> prStatus p' \<in> {StatusPassed, StatusRejected, StatusFailed}"
proof -
  note ok = winv_proposal [OF w p]
  have pv: "prStatus p = StatusVotingPeriod" "prVotingEndTime p = Some t" using v by (simp_all add: in_vote_iff [OF p])
  obtain tl w1 where tally: "Tally E p w = Ok (tl, w1)"
    using ev unfolding end_voting_period_def bindR_eq_Ok by (metis prod.exhaust)
  note ev1 = ev [unfolded end_voting_period_def tally bindR.simps prod.case ok(1)]
  obtain w2 where money: "(if tlBurn tl then DeleteAndBurnDeposits E i w1 else RefundAndDeleteDeposits E i w1) = Ok w2"
    using ev1 unfolding bindR_eq_Ok by blast
  obtain status w3 where exec: "(if tlPasses tl
      then (case execute_messages E B p w2 of Ok w' \<Rightarrow> (StatusPassed, w') | _ \<Rightarrow> (StatusFailed, w2))
      else (StatusRejected, w2)) = (status, w3)" by (metis prod.exhaust)
  let ?p = "p\<lparr>prStatus := status, prFinalTallyResult := Some (tlResults tl)\<rparr>"
  let ?w4 = "RemoveFromActiveProposalQueue i t (SetProposal ?p w3)"
  obtain w5 w6 where dec: "DecrementActiveProposalsNumber ?w4 = Ok w5"
    and ema: "UpdateParticipationEMA E ?p (tlParticipation tl) w5 = Ok w6"
    and hook: "run_hook E (AfterProposalVotingPeriodEnded i) w6 = Ok w'" and stop: "\<not> stop"
    using ev1 [unfolded money bindR.simps Let_def exec prod.case pv(2)] by (auto simp: ok(1) pv(2))
  have st: "status \<in> {StatusPassed, StatusRejected, StatusFailed}"
    using exec by (auto split: if_splits res.splits)
  have fr: "frame w w2" using Tally_frame [OF tally] money by (auto split: if_splits intro: frameI frame_trans)
  have "moves E B (length (prMessages p)) w2 w3"
  proof (cases "tlPasses tl \<and> (\<exists>u. execute_messages E B p w2 = Ok u)")
    case True
    with exec have "execute_messages E B p w2 = Ok w3" by auto
    then show ?thesis using execute_messages_moves r ok(3) B by blast
  next
    case False
    with exec have "w3 = w2" by (auto split: if_splits res.splits)
    then show ?thesis using moves_more [of E B 0 w2 w3 "length (prMessages p)"] by simp
  qed
  from moves_trans [OF frame_moves [OF fr] this] have mv: "moves E B (length (prMessages p)) w w3" by simp
  then have w3: "winv E w3" "keep B {} w w3" "\<And>n. room w (length (prMessages p) + n) \<Longrightarrow> room w3 n"
    using w room by (auto simp: moves_def)
  from keepD(1,2) [OF w3(2) _ v] p obtain p3 where v3: "in_vote w3 t i" and p3: "GetProposal w3 i = Some p3" by auto
  have pv3: "prStatus p3 = StatusVotingPeriod" "prVotingEndTime p3 = Some t" using v3 by (simp_all add: in_vote_iff [OF p3])
  have none3: "\<not> kv_has (gQuorumQueue (wGov w3)) (s, i)" for s using keepD(3) [OF w3(2) _ v] none by blast
  let ?g = "wGov w3"
  have w5: "w5 = SetActiveProposalsNumber (GetActiveProposalsNumber ?w4 - 1) ?w4"
    using dec by (simp add: DecrementActiveProposalsNumber_def Let_def split: if_splits)
  have "core (wGov w') = core (wGov w5)"
    using UpdateParticipationEMA_frame [OF ema] run_hook_frame [OF hook] by (simp add: frame_def)
  also have "\<dots> = (kv_set i ?p (gProposals ?g), gProposalID ?g, gInactiveQueue ?g, gInactiveNumber ?g,
      kv_del (t, i) (gActiveQueue ?g), Some (counter (gActiveNumber ?g) - 1), kv_del i (gVotingPeriod ?g),
      gQuorumQueue ?g, gParams ?g)"
    using st ok(1) by (auto simp: core_def w5 SetActiveProposalsNumber_def GetActiveProposalsNumber_def
        RemoveFromActiveProposalQueue_def SetProposal_def)
  finally have core: "core (wGov w') = (kv_set i ?p (gProposals ?g), gProposalID ?g, gInactiveQueue ?g, gInactiveNumber ?g,
      kv_del (t, i) (gActiveQueue ?g), Some (counter (gActiveNumber ?g) - 1), kv_del i (gVotingPeriod ?g),
      gQuorumQueue ?g, gParams ?g)" .
  have pk: "prId ?p = i" "proposal_ok ?p" "decided ?p" "sane_msgs (prMessages ?p)"
    using ok st by (auto simp: proposal_ok_def decided_def)
  note cl = close_vote [OF w3(1) p3 v3 none3 pk core]
  show "winv E w'" "\<not> in_vote w' s i" by (rule cl)+
  show "\<not> stop" by (rule stop)
  have "keep B {i} w w3" using w3(2) unfolding keep_def by blast
  then show "keep B {i} w w'" using cl(2) by (rule keep_trans)
  show "room w (length (prMessages p) + n) \<Longrightarrow> room w' n" using w3(3) [of n] cl(3) by blast
  show "\<exists>p'. GetProposal w' i = Some p' \<and> prStatus p' \<in> {StatusPassed, StatusRejected, StatusFailed}"
    using cl(5) [of i] st by simp
qed

definition settled :: "('m, 'x) world \<Rightarrow> u64 \<Rightarrow> bool" where
  "settled w i \<longleftrightarrow> (\<exists>p. GetProposal w i = Some p \<and> prStatus p \<in> {StatusPassed, StatusRejected, StatusFailed})"

lemma voting_loop:
  assumes loop: "IterateActiveProposalsQueue B (end_voting_period E B) w = Ok w'" and w: "winv E w"
    and r: "router_validates E" and B: "0 \<le> B"
    and M: "\<forall>i p. GetProposal w i = Some p \<longrightarrow> length (prMessages p) \<le> M"
    and room: "room w (length (gActiveQueue (wGov w)) * M)"
    and none: "\<forall>t i. kv_has (gQuorumQueue (wGov w)) (t, i) \<longrightarrow> B < t"
  shows "winv E w'" "in_vote w' t i \<Longrightarrow> B < t" "in_deposit w' t i \<Longrightarrow> in_deposit w t i \<or> B < t"
    "GetProposal w i = Some q \<Longrightarrow> decided q \<Longrightarrow> GetProposal w' i = Some q"
    "in_vote w t i \<Longrightarrow> in_vote w' t i \<or> settled w' i"
proof -
  let ?I = "\<lambda>(es :: (queue_key \<times> unit) list) v. winv E v \<and> room v (length es * M) \<and>
    (\<forall>((t, j), _) \<in> set es. in_vote v t j \<and> (\<forall>s. \<not> kv_has (gQuorumQueue (wGov v)) (s, j)) \<and>
       (\<forall>p. GetProposal v j = Some p \<longrightarrow> length (prMessages p) \<le> M)) \<and>
    distinct (map (snd \<circ> fst) es) \<and> (\<forall>t j. in_vote v t j \<and> t \<le> B \<longrightarrow> (t, j) \<in> fst ` set es) \<and>
    (\<forall>t j. in_deposit v t j \<longrightarrow> in_deposit w t j \<or> B < t) \<and>
    (\<forall>j q. GetProposal w j = Some q \<and> decided q \<longrightarrow> GetProposal v j = Some q) \<and>
    (\<forall>t j. in_vote w t j \<longrightarrow> in_vote v t j \<or> settled v j)"
  let ?q = "gActiveQueue (wGov w)"
  have "?I [] w'"
  proof (rule iterate_queue_inv [OF loop [unfolded IterateActiveProposalsQueue_def]])
    have "length (due B ?q) \<le> length ?q" by (simp add: due_def)
    then have "room w (length (due B ?q) * M)" by (intro room_mono [OF room] mult_right_mono) simp_all
    moreover have "in_vote w t j \<and> (\<forall>s. \<not> kv_has (gQuorumQueue (wGov w)) (s, j)) \<and>
       (\<forall>p. GetProposal w j = Some p \<longrightarrow> length (prMessages p) \<le> M)" if d: "((t, j), x) \<in> set (due B ?q)" for t j x
    proof -
      have tb: "kv_has ?q (t, j)" "t \<le> B" using d due_keys [of t j B ?q] by force+
      then have v: "in_vote w t j" using winv_queues(4) [OF w] by blast
      moreover have "\<not> kv_has (gQuorumQueue (wGov w)) (s, j)" for s
      proof
        assume h: "kv_has (gQuorumQueue (wGov w)) (s, j)"
        then obtain u where "in_vote w u j" "s \<le> u"
          using winv_queues(5) [OF w] unfolding quorum_ok_def kv_has_iff in_vote_def by blast
        moreover have "u = t" using v \<open>in_vote w u j\<close> live_time unfolding in_vote_def by metis
        ultimately show False using none h tb(2) by force
      qed
      ultimately show ?thesis using M by blast
    qed
    moreover have "(t, j) \<in> fst ` set (due B ?q)" if "in_vote w t j" "t \<le> B" for t j
      using that winv_queues(4) [OF w] due_keys [of t j B ?q] by blast
    ultimately show "?I (due B ?q) w" using w due_distinct [OF winv_queues(2) [OF w]] by auto
  next
    fix t i v es p and u u' :: "('a, 'b) world" and stop
    assume I: "?I (((t, i), v) # es) u" and p: "GetProposal u i = Some p" and cb: "end_voting_period E B p u = Ok (stop, u')"
    have u: "winv E u" and vote: "in_vote u t i" and noq: "\<And>s. \<not> kv_has (gQuorumQueue (wGov u)) (s, i)"
      and len: "length (prMessages p) \<le> M" and rm: "room u (M + length es * M)"
      using I p by auto
    have rm1: "room u (length (prMessages p))" by (rule room_mono [OF rm]) (use len in simp)
    have rm2: "room u (length (prMessages p) + length es * M)" by (rule room_mono [OF rm]) (use len in simp)
    note step = end_voting_step [OF cb u p vote r B rm1 noq]
    note k = keepD [OF step(3)]
    have "in_vote u' s j \<and> (\<forall>s. \<not> kv_has (gQuorumQueue (wGov u')) (s, j)) \<and>
       (\<forall>p. GetProposal u' j = Some p \<longrightarrow> length (prMessages p) \<le> M)" if m: "((s, j), x) \<in> set es" for s j x
    proof -
      have "j \<in> (snd \<circ> fst) ` set es" using m by force
      then have ji: "j \<notin> {i}" using I by auto
      have old: "in_vote u s j" "\<And>s. \<not> kv_has (gQuorumQueue (wGov u)) (s, j)"
        "\<And>p. GetProposal u j = Some p \<Longrightarrow> length (prMessages p) \<le> M" using I m by auto
      obtain p0 where "GetProposal u j = Some p0" using in_vote_get [OF old(1)] by blast
      with k(2) [OF ji old(1)] old(3) have "GetProposal u' j = Some q \<Longrightarrow> length (prMessages q) \<le> M" for q by fastforce
      then show ?thesis using k(1,3) [OF ji old(1)] old(2) by blast
    qed
    moreover have "(s, j) \<in> fst ` set es" if "in_vote u' s j" "s \<le> B" for s j
    proof -
      have "j \<noteq> i" using that step(5) by blast
      moreover have "in_vote u s j" using k(6) [OF that(1)] that(2) by simp
      ultimately show ?thesis using I that(2) by auto
    qed
    moreover have "in_deposit w s j \<or> B < s" if "in_deposit u' s j" for s j using k(5) [OF that] I by auto
    moreover have "GetProposal u' j = Some q" if "GetProposal w j = Some q" "decided q" for j q
    proof -
      have "GetProposal u j = Some q" using I that by blast
      moreover from this have "j \<noteq> i" using p that(2) in_vote_iff [OF p, of t] vote by (auto simp: decided_def)
      ultimately show ?thesis using k(4) [of j q] that(2) by simp
    qed
    moreover have "in_vote u' s j \<or> settled u' j" if "in_vote w s j" for s j
    proof (cases "j = i")
      case True
      with step(6) show ?thesis by (simp add: settled_def)
    next
      case False
      from that I consider "in_vote u s j" | q where "GetProposal u j = Some q" "prStatus q \<in> {StatusPassed, StatusRejected, StatusFailed}"
        unfolding settled_def by blast
      then show ?thesis
      proof cases
        case 1
        with k(1) [of j s] False show ?thesis by simp
      next
        case 2
        then have "decided q" by (auto simp: decided_def)
        with k(4) [of j q] 2 False have "GetProposal u' j = Some q" by simp
        with 2(2) show ?thesis by (auto simp: settled_def)
      qed
    qed
    ultimately show "\<not> stop \<and> ?I es u'" using step(1,2) step(4) [OF rm2] I by auto
  qed
  then show "winv E w'" "in_vote w' t i \<Longrightarrow> B < t" "in_deposit w' t i \<Longrightarrow> in_deposit w t i \<or> B < t"
    "GetProposal w i = Some q \<Longrightarrow> decided q \<Longrightarrow> GetProposal w' i = Some q"
    "in_vote w t i \<Longrightarrow> in_vote w' t i \<or> settled w' i"
    by (auto simp: not_less [symmetric])
qed

section \<open>A block\<close>

text \<open>There are ids for every message of every proposal that may be executed.\<close>

definition spare :: "('m, 'x) world \<Rightarrow> bool" where
  "spare w \<longleftrightarrow> (\<exists>n M. gProposalID (wGov w) = Some n \<and> (\<forall>i p. GetProposal w i = Some p \<longrightarrow> length (prMessages p) \<le> M) \<and>
     unat n * (M + 1) < 2 ^ 64)"

lemma EndBlocker_step:
  assumes eb: "EndBlocker E B w = Ok w'" and w: "winv E w" and r: "router_validates E" and B: "0 \<le> B" "B \<le> max_int64"
    and sp: "spare w"
  shows "winv E w'" "in_vote w' t i \<Longrightarrow> B < t" "in_deposit w' t i \<Longrightarrow> B < t"
    "GetProposal w i = Some q \<Longrightarrow> decided q \<Longrightarrow> GetProposal w' i = Some q"
    "in_vote w t i \<Longrightarrow> (\<exists>u. in_vote w' u i) \<or> settled w' i"
proof -
  from eb obtain w1 w2 w3 w4 where steps:
    "IterateInactiveProposalsQueue B (end_deposit_period E B) w = Ok w1"
    "IterateQuorumCheckQueue B (check_quorum E B) w1 = Ok w2"
    "IterateActiveProposalsQueue B (end_voting_period E B) w2 = Ok w3"
    "UpdateMinInitialDeposit E B True w3 = Ok w4" "UpdateMinDeposit E B True w4 = Ok w'"
    unfolding EndBlocker_def bindR_eq_Ok by blast
  note dep = deposit_loop [OF steps(1) w B(1)]
  have w1: "winv E w1" "keep B {} w w1" "\<And>n. room w n \<Longrightarrow> room w1 n"
    using dep(1) w winv_room [OF w] by (auto simp: moves_def)
  note quo = quorum_loop [OF steps(2) w1(1) B(2)]
  from sp obtain n M where n: "gProposalID (wGov w) = Some n" and M: "\<And>i p. GetProposal w i = Some p \<Longrightarrow> length (prMessages p) \<le> M"
    and nM: "unat n * (M + 1) < 2 ^ 64" unfolding spare_def by blast
  have len2: "length (prMessages p) \<le> M" if p: "GetProposal w2 i = Some p" for i p
  proof -
    have "map_option prMessages (GetProposal w2 i) = map_option prMessages (GetProposal w1 i)"
      using quo(2) unfolding checks_def by blast
    then have "map_option prMessages (GetProposal w1 i) = Some (prMessages p)" using p by simp
    then obtain p1 where "GetProposal w1 i = Some p1" "prMessages p1 = prMessages p" by auto
    with dep(3) M show ?thesis by metis
  qed
  have room2: "room w2 (length (gActiveQueue (wGov w2)) * M)"
  proof -
    have "room w (2 ^ 64 - 1 - unat n)" using n unat64 [of n] by (simp add: room_def)
    then have "room w1 (2 ^ 64 - 1 - unat n)" by (rule w1(3))
    then obtain n2 where n2: "gProposalID (wGov w2) = Some n2" "unat n2 \<le> unat n"
      using quo(2) unat64 [of n] by (auto simp: room_def checks_def)
    have "proposals_ok (gProposals (wGov w2)) (Some n2)" using parts_okD(1) [OF winv_parts(1) [OF quo(1)]] n2(1) by simp
    from queue_length_le [OF winv_queues(2) [OF quo(1)] proposals_below [OF this]] n2(2)
    have len: "length (gActiveQueue (wGov w2)) \<le> unat n" by simp
    have "unat n2 + length (gActiveQueue (wGov w2)) * M \<le> unat n + unat n * M"
      by (rule add_mono [OF n2(2) mult_right_mono [OF len]]) simp
    also have "\<dots> = unat n * (M + 1)" by simp
    finally show ?thesis using nM n2(1) by (simp add: room_def)
  qed
  have M2: "\<forall>i p. GetProposal w2 i = Some p \<longrightarrow> length (prMessages p) \<le> M" using len2 by blast
  have none: "\<forall>t i. kv_has (gQuorumQueue (wGov w2)) (t, i) \<longrightarrow> B < t" using quo(3) by blast
  note vote = voting_loop [OF steps(3) quo(1) r B(1) M2 room2 none]
  have fr: "frame w3 w'" using steps(4,5) by (blast intro: frameI frame_trans)
  then have c: "core (wGov w') = core (wGov w3)" by (simp add: frame_def)
  have same: "GetProposal w' i = GetProposal w3 i" "in_vote w' t i = in_vote w3 t i" "in_deposit w' t i = in_deposit w3 t i" for t i
    using c by (simp_all add: core_def GetProposal_def in_vote_def in_deposit_def)
  have "moves E B 0 w3 w'" by (rule frame_moves [OF fr])
  with vote(1) winv_room [OF vote(1)] show "winv E w'" by (simp add: moves_def)
  show "in_vote w' t i \<Longrightarrow> B < t" using vote(2) same by blast
  show "in_deposit w' t i \<Longrightarrow> B < t"
    using vote(3) [of t i] dep(2) [of t i] quo(2) same(3) by (auto simp: checks_def)
  show "GetProposal w i = Some q \<Longrightarrow> decided q \<Longrightarrow> GetProposal w' i = Some q"
    using keepD(4) [OF w1(2), of i q] quo(2) vote(4) [of i q] same(1) [of i] by (simp add: checks_def)
  show "in_vote w t i \<Longrightarrow> (\<exists>u. in_vote w' u i) \<or> settled w' i"
  proof -
    assume "in_vote w t i"
    then have "in_vote w1 t i" using keepD(1) [OF w1(2), of i t] by simp
    then obtain u where "in_vote w2 u i" using quo(2) unfolding checks_def by blast
    with vote(5) same show ?thesis unfolding settled_def by metis
  qed
qed

end
