(* ===== verification/Gov_Instance.thy ===== *)
theory Gov_Instance
  imports Gov_Chain Sdk_Instance
begin

text \<open>
  A concrete environment of the governance module: the libraries of \<open>Sdk_Instance\<close>, one validator
  that the account \<open>[2]\<close> delegates to, a router that validates, and a store with the default
  parameters. The witnesses of the governance theorems run in it.
\<close>

definition std_gov_env :: "(unit, std_state) gov_env" where
  "std_gov_env = \<lparr> geDec = std_dec, geCoins = std_coins, geAddr = std_addr,
     geLengthPrefix = (\<lambda>a. if length a < 256 then Some (word_of_nat (length a) # a) else None),
     geBank = std_bank, geAuthority = ''gov'', geMaxMetadataLen = 255, geGovAddr = std_module_addr ''gov'',
     geSigners = (\<lambda>_. Ok [std_module_addr ''gov'']), geOtherValidate = (\<lambda>_. Ok ()), geOtherHandler = (\<lambda>_. Some Ok),
     geLegacyHandler = (\<lambda>_. None),
     geBeforeHandler = msg_ValidateBasic std_dec std_coins std_addr (\<lambda>_. Ok ()),
     geChargeProposal = (\<lambda>_. Some),
     geBondedValidators = (\<lambda>_. Ok [''val'' \<mapsto> \<lparr>valBondedTokens = 1000, valDelegatorShares = dec_of_int 1000\<rparr>]),
     geTotalBonded = (\<lambda>_. Ok 1000),
     geDelegations = (\<lambda>_ a. (if a = [2] then [(''val'', dec_of_int 1000)] else [], None)),
     geHook = (\<lambda>_. Some) \<rparr>"

definition std_gov_params :: gov_params where
  "std_gov_params = gov_DefaultParams std_dec ''stake''"

definition std_gov_store :: "unit gov_store" where
  "std_gov_store = \<lparr> gProposals = [], gActiveQueue = [], gInactiveQueue = [], gProposalID = Some 1,
     gVotingPeriod = [], gQuorumQueue = [], gActiveNumber = None, gLastMinDeposit = None, gInactiveNumber = None,
     gLastMinInitialDeposit = None, gDeposits = [], gVotes = [], gParams = Some std_gov_params,
     gConstitution = [], gEma = dStr std_dec 0, gConstitutionAmendmentEma = dStr std_dec 0, gLawEma = dStr std_dec 0 \<rparr>"

lemma std_router: "router_validates std_gov_env"
  by (simp add: router_validates_def std_gov_env_def std_dec_laws)

lemma std_params_ok: "params_ok std_gov_env std_gov_params"
proof -
  have "gov_params_ok std_dec std_coins std_gov_params"
    by (simp add: gov_params_ok_def std_gov_params_def gov_DefaultParams_def Let_def gov_NewParams_def range_ok_def
        throttler_facts_def dec_with_prec_def dec_of_int_def dec_unit_def DefaultDepositPeriod_def DefaultVotingPeriod_def
        hour_def second_def maxDecreaseSensitivity_def read_show_dec std_coins_def std_valid_def)
  then show ?thesis
    by (simp add: params_ok_def std_gov_env_def sane_params_def std_gov_params_def gov_DefaultParams_def Let_def gov_NewParams_def)
qed

text \<open>A proposal under vote until 100, with a deposit of 500 and the vote of the account \<open>[2]\<close>.\<close>

definition std_voting :: "unit proposal" where
  "std_voting = (NewProposal std_addr [] 1 0 50 ''m'' ''t'' ''s'' [2])\<lparr>prStatus := StatusVotingPeriod,
     prTotalDeposit := [\<lparr>Denom = ''stake'', Amount = 500\<rparr>],
     prVotingStartTime := Some 10, prVotingEndTime := Some 100\<rparr>"

definition std_vote :: "vote_option \<Rightarrow> vote" where
  "std_vote opt = NewVote std_addr 1 [2] (NewNonSplitVoteOption std_dec opt) []"

definition std_voting_store :: "unit gov_store" where
  "std_voting_store = std_gov_store\<lparr>gProposals := [(1, std_voting)], gActiveQueue := [((100, 1), ())],
     gProposalID := Some 2, gVotingPeriod := [(1, ())], gActiveNumber := Some 1,
     gDeposits := [((1, [1, 2]), NewDeposit std_addr 1 [2] [\<lparr>Denom = ''stake'', Amount = 500\<rparr>])],
     gVotes := [((1, [1, 2]), std_vote OptionYes)]\<rparr>"

definition std_bank_state :: std_state where
  "std_bank_state = \<lparr>xAcc = (\<lambda>a d. if a = std_module_addr ''gov'' then 500 else 1000), xSup = (\<lambda>d. 100000)\<rparr>"

definition std_world :: "(unit, std_state) world" where
  "std_world = \<lparr>wGov = std_voting_store, wExt = std_bank_state\<rparr>"

lemmas std_gov_defs = std_world_def std_voting_store_def std_gov_store_def std_voting_def NewProposal_def std_bank_state_def

lemma std_world_params [simp]: "gov_GetParams std_world = std_gov_params"
  by (simp add: gov_GetParams_def std_world_def std_voting_store_def std_gov_store_def)

lemma std_world_proposal [simp]: "GetProposal std_world i = (if i = 1 then Some std_voting else None)"
  by (simp add: GetProposal_def std_world_def std_voting_store_def kv_get_def)

lemma std_world_winv: "winv std_gov_env std_world"
proof -
  have "proposal_ok std_voting" by (simp add: proposal_ok_def std_voting_def NewProposal_def)
  moreover have "live st f [(1, std_voting)] t i \<longleftrightarrow> i = 1 \<and> prStatus std_voting = st \<and> f std_voting = Some t" for st f t i
    by (auto simp: live_def kv_get_def)
  moreover have "prId std_voting = 1" "prStatus std_voting = StatusVotingPeriod" "prVotingEndTime std_voting = Some 100"
    "sane_msgs (prMessages std_voting)"
    by (simp_all add: std_voting_def NewProposal_def sane_msgs_def)
  ultimately have "gov_inv std_voting_store" "extra_ok (gProposals std_voting_store) (gQuorumQueue std_voting_store)"
    by (auto simp: gov_inv_def parts_ok_def proposals_ok_def queue_ok_def quorum_ok_def std_voting_store_def std_gov_store_def
        kv_wf_def kv_get_def kv_has_def extra_ok_def)
  then show ?thesis using std_params_ok by (simp add: winv_def) (simp add: std_world_def)
qed

end
