(* ===== verification/Dynamicfee_State.thy ===== *)
theory Dynamicfee_State
  imports Sdk_Instance
begin

text \<open>
  \<open>x/dynamicfee/types\<close>: the parameters and the state of the AIMD EIP-1559 fee market
  (\<open>params.go\<close>, \<open>state.go\<close>, \<open>genesis.go\<close>, \<open>eip1559.go\<close>, \<open>eip1559_aimd.go\<close>). The block-gas
  window is a ring buffer of \<open>uint64\<close>; the base gas price and the learning rate are decimals.
\<close>

section \<open>Parameters\<close>

text \<open>A \<open>LegacyDec\<close> field may be nil (\<open>None\<close>); a method called on a nil decimal panics.\<close>

record params =
  pAlpha :: "dec option"
  pBeta :: "dec option"
  pGamma :: "dec option"
  pMinBaseGasPrice :: "dec option"
  pTargetBlockUtilization :: "dec option"
  pDefaultMaxBlockGas :: u64
  pMinLearningRate :: "dec option"
  pMaxLearningRate :: "dec option"
  pWindow :: u64
  pFeeDenom :: string
  pEnabled :: bool

definition NewParams :: "u64 \<Rightarrow> dec \<Rightarrow> dec \<Rightarrow> dec \<Rightarrow> dec \<Rightarrow> dec \<Rightarrow> u64 \<Rightarrow> dec \<Rightarrow> dec \<Rightarrow> string \<Rightarrow> bool \<Rightarrow> params" where
  "NewParams window alpha beta gamma minBaseGasPrice targetBlockUtilization defaultMaxBlockGas
     minLearningRate maxLearningRate feeDenom enabled =
     \<lparr> pAlpha = Some alpha, pBeta = Some beta, pGamma = Some gamma,
       pMinBaseGasPrice = Some minBaseGasPrice,
       pTargetBlockUtilization = Some targetBlockUtilization,
       pDefaultMaxBlockGas = defaultMaxBlockGas,
       pMinLearningRate = Some minLearningRate, pMaxLearningRate = Some maxLearningRate,
       pWindow = window, pFeeDenom = feeDenom, pEnabled = enabled \<rparr>"

text \<open>A method call on a decimal field: a panic if the field is nil.\<close>

abbreviation call :: "dec option \<Rightarrow> (dec \<Rightarrow> 'a res) \<Rightarrow> 'a res" where
  "call d f \<equiv> bindR (must d) f"

definition nilOr :: "dec option \<Rightarrow> (dec \<Rightarrow> bool) \<Rightarrow> bool" where
  "nilOr d P = (case d of None \<Rightarrow> True | Some x \<Rightarrow> P x)"

definition dec_half :: dec where "dec_half = dec_with_prec 5 1"

definition Params_ValidateBasic :: "params \<Rightarrow> unit res" where
  "Params_ValidateBasic p =
     bindR (failIf (pWindow p = 0) (ErrText ''window cannot be zero'')) (\<lambda>_.
     bindR (failIf (nilOr (pAlpha p) (\<lambda>x. x < 0)) (ErrText ''alpha'')) (\<lambda>_.
     bindR (failIf (nilOr (pBeta p) (\<lambda>x. x < 0 \<or> dec_one < x)) (ErrText ''beta'')) (\<lambda>_.
     bindR (failIf (nilOr (pGamma p) (\<lambda>x. x < 0 \<or> dec_half < x)) (ErrText ''theta'')) (\<lambda>_.
     bindR (failIf (nilOr (pMinBaseGasPrice p) (\<lambda>x. \<not> 0 \<le> x)) (ErrText ''min base gas price'')) (\<lambda>_.
     bindR (failIf (nilOr (pTargetBlockUtilization p) (\<lambda>x. \<not> 0 < x \<or> dec_one < x))
        (ErrText ''target block utilization'')) (\<lambda>_.
     bindR (failIf (pDefaultMaxBlockGas p = 0) (ErrText ''default max block gas'')) (\<lambda>_.
     bindR (failIf (pMaxLearningRate p = None) (ErrText ''min learning rate'')) (\<lambda>_.
     call (pMinLearningRate p) (\<lambda>minLR.
     bindR (failIf (minLR < 0) (ErrText ''min learning rate'')) (\<lambda>_.
     bindR (failIf (nilOr (pMaxLearningRate p) (\<lambda>x. x < 0)) (ErrText ''max learning rate'')) (\<lambda>_.
     call (pMaxLearningRate p) (\<lambda>maxLR.
     bindR (failIf (maxLR < minLR) (ErrText ''min learning rate greater than max'')) (\<lambda>_.
     failIf (pFeeDenom p = []) (ErrText ''fee denom must be set''))))))))))))))"

text \<open>What validated parameters satisfy.\<close>

definition params_ok :: "params \<Rightarrow> bool" where
  "params_ok p \<longleftrightarrow> pWindow p \<noteq> 0 \<and> pDefaultMaxBlockGas p \<noteq> 0 \<and> pFeeDenom p \<noteq> [] \<and>
     (\<exists>al be ga mb tu mi ma.
        pAlpha p = Some al \<and> 0 \<le> al \<and>
        pBeta p = Some be \<and> 0 \<le> be \<and> be \<le> dec_one \<and>
        pGamma p = Some ga \<and> 0 \<le> ga \<and> ga \<le> dec_half \<and>
        pMinBaseGasPrice p = Some mb \<and> 0 \<le> mb \<and>
        pTargetBlockUtilization p = Some tu \<and> 0 < tu \<and> tu \<le> dec_one \<and>
        pMinLearningRate p = Some mi \<and> 0 \<le> mi \<and>
        pMaxLearningRate p = Some ma \<and> mi \<le> ma)"

lemma nilOr_not [simp]: "\<not> nilOr d P \<longleftrightarrow> (\<exists>x. d = Some x \<and> \<not> P x)"
  by (auto simp: nilOr_def split: option.splits)

lemma Params_ValidateBasic_iff: "Params_ValidateBasic p = Ok () \<longleftrightarrow> params_ok p"
  by (auto simp: Params_ValidateBasic_def params_ok_def not_less)

section \<open>State\<close>

record state =
  sBaseGasPrice :: "dec option"
  sLearningRate :: "dec option"
  sWindow :: "u64 list option"
  sIndex :: u64

text \<open>A nil window has no slots.\<close>

definition win :: "state \<Rightarrow> u64 list" where
  "win s = (case sWindow s of None \<Rightarrow> [] | Some w \<Rightarrow> w)"

definition NewState :: "u64 \<Rightarrow> dec option \<Rightarrow> dec option \<Rightarrow> state" where
  "NewState windowSize baseGasPrice learningRate =
     \<lparr> sBaseGasPrice = baseGasPrice, sLearningRate = learningRate,
       sWindow = Some (replicate (unat windowSize) 0), sIndex = 0 \<rparr>"

text \<open>Reading and writing \<open>s.Window[i]\<close>: out of range panics.\<close>

definition slot :: "state \<Rightarrow> u64 \<Rightarrow> u64 res" where
  "slot s i = (if unat i < length (win s) then Ok (win s ! unat i) else Panic)"

definition set_slot :: "u64 \<Rightarrow> u64 \<Rightarrow> state \<Rightarrow> state res" where
  "set_slot i g s =
     (if unat i < length (win s) then Ok (s\<lparr>sWindow := Some ((win s)[unat i := g])\<rparr>) else Panic)"

text \<open>\<open>Update\<close>: the addition is on \<open>uint64\<close>, so it wraps.\<close>

definition Update :: "u64 \<Rightarrow> u64 \<Rightarrow> state \<Rightarrow> state res" where
  "Update gas maxBlockGas s =
     bindR (slot s (sIndex s)) (\<lambda>cur.
     let update = cur + gas in
     bindR (failIf (maxBlockGas < update) Dynamicfee_ErrMaxGasExceeded) (\<lambda>_.
     set_slot (sIndex s) update s))"

definition IncrementHeight :: "state \<Rightarrow> state res" where
  "IncrementHeight s =
     (if win s = [] then Panic
      else let i = (sIndex s + 1) mod of_nat (length (win s)) in set_slot i 0 (s\<lparr>sIndex := i\<rparr>))"

definition GetTargetBlockGas :: "dec_lib \<Rightarrow> u64 \<Rightarrow> params \<Rightarrow> u64 res" where
  "GetTargetBlockGas L maxBlockGas p =
     call (pTargetBlockUtilization p) (\<lambda>util.
     bindR (must (dMul L (dec_of_int (uint maxBlockGas)) util)) (\<lambda>d.
     bindR (must (iInt64 L (dTruncateInt L d))) (\<lambda>n. Ok (u64_of_int64 n))))"

definition GetNetGas :: "dec_lib \<Rightarrow> u64 \<Rightarrow> params \<Rightarrow> state \<Rightarrow> int res" where
  "GetNetGas L maxBlockGas p s =
     bindR (GetTargetBlockGas L maxBlockGas p) (\<lambda>target.
     Ok (fold (\<lambda>gas net. net + (uint gas - uint target)) (win s) 0))"

definition GetAverageGas :: "dec_lib \<Rightarrow> u64 \<Rightarrow> state \<Rightarrow> dec res" where
  "GetAverageGas L maxBlockGas s =
     (let total = fold (\<lambda>gas t. t + gas) (win s) (0 :: u64);
          sum = dec_of_int (uint total);
          multiple = dec_of_int (int (length (win s)))
      in bindR (must (dMul L (dec_of_int (uint maxBlockGas)) multiple)) (\<lambda>divisor.
         must (dQuo L sum divisor)))"

text \<open>
  The two AIMD updates. Each has a \<open>defer\<close> that recovers from any panic of its body and
  falls back to the minimum of the parameters; the \<open>_body\<close> is what runs under it.
\<close>

definition UpdateBaseGasPrice_body :: "dec_lib \<Rightarrow> params \<Rightarrow> u64 \<Rightarrow> state \<Rightarrow> dec res" where
  "UpdateBaseGasPrice_body L p maxBlockGas s =
     bindR (slot s (sIndex s)) (\<lambda>cur.
     bindR (GetTargetBlockGas L maxBlockGas p) (\<lambda>target.
     let currentBlockGas = dec_of_int (uint cur); targetBlockGas = dec_of_int (uint target) in
     bindR (must (dSub L currentBlockGas targetBlockGas)) (\<lambda>diff.
     bindR (must (dQuo L diff targetBlockGas)) (\<lambda>avgGas.
     call (sLearningRate s) (\<lambda>lr.
     bindR (must (dMul L lr avgGas)) (\<lambda>adj.
     bindR (must (dAdd L dec_one adj)) (\<lambda>learningRateAdjustment.
     call (sBaseGasPrice s) (\<lambda>base.
     bindR (must (dMul L base learningRateAdjustment)) (\<lambda>gasPrice.
     call (pMinBaseGasPrice p) (\<lambda>minPrice.
     Ok (if gasPrice < minPrice then minPrice else gasPrice)))))))))))"

definition UpdateBaseGasPrice :: "dec_lib \<Rightarrow> params \<Rightarrow> u64 \<Rightarrow> state \<Rightarrow> state" where
  "UpdateBaseGasPrice L p maxBlockGas s =
     (case UpdateBaseGasPrice_body L p maxBlockGas s of
        Ok gasPrice \<Rightarrow> s\<lparr>sBaseGasPrice := Some gasPrice\<rparr>
      | _ \<Rightarrow> s\<lparr>sBaseGasPrice := pMinBaseGasPrice p\<rparr>)"

definition UpdateLearningRate_body :: "dec_lib \<Rightarrow> params \<Rightarrow> u64 \<Rightarrow> state \<Rightarrow> dec res" where
  "UpdateLearningRate_body L p maxBlockGas s =
     bindR (GetAverageGas L maxBlockGas s) (\<lambda>avg.
     call (pGamma p) (\<lambda>gamma.
     bindR (if avg \<le> gamma then Ok True
            else bindR (must (dSub L dec_one gamma)) (\<lambda>upper. Ok (upper \<le> avg))) (\<lambda>outside.
     if outside then
       call (pAlpha p) (\<lambda>alpha. call (sLearningRate s) (\<lambda>lr0.
       bindR (must (dAdd L alpha lr0)) (\<lambda>lr.
       call (pMaxLearningRate p) (\<lambda>maxLR. Ok (if maxLR < lr then maxLR else lr)))))
     else
       call (sLearningRate s) (\<lambda>lr0. call (pBeta p) (\<lambda>beta.
       bindR (must (dMul L lr0 beta)) (\<lambda>lr.
       call (pMinLearningRate p) (\<lambda>minLR. Ok (if lr < minLR then minLR else lr))))))))"

definition UpdateLearningRate :: "dec_lib \<Rightarrow> params \<Rightarrow> u64 \<Rightarrow> state \<Rightarrow> state" where
  "UpdateLearningRate L p maxBlockGas s =
     (case UpdateLearningRate_body L p maxBlockGas s of
        Ok lr \<Rightarrow> s\<lparr>sLearningRate := Some lr\<rparr>
      | _ \<Rightarrow> s\<lparr>sLearningRate := pMinLearningRate p\<rparr>)"

definition State_ValidateBasic :: "state \<Rightarrow> unit res" where
  "State_ValidateBasic s =
     bindR (failIf (sWindow s = None) (ErrText ''block gas window cannot be nil or empty'')) (\<lambda>_.
     bindR (failIf (nilOr (sBaseGasPrice s) (\<lambda>x. x \<le> 0)) (ErrText ''base gas price must be positive'')) (\<lambda>_.
     failIf (nilOr (sLearningRate s) (\<lambda>x. x \<le> 0)) (ErrText ''learning rate must be positive'')))"

section \<open>Genesis and the default configurations\<close>

record genesis =
  gsParams :: params
  gsState :: state

definition Genesis_ValidateBasic :: "genesis \<Rightarrow> unit res" where
  "Genesis_ValidateBasic gs =
     bindR (Params_ValidateBasic (gsParams gs)) (\<lambda>_. State_ValidateBasic (gsState gs))"

definition DefaultParams :: params where
  "DefaultParams = NewParams 1 0 dec_one 0 (dec_with_prec 1 2) (dec_with_prec 5 1) 100000000
     (dec_with_prec 125 3) (dec_with_prec 125 3) ''uphoton'' True"

definition DefaultState :: state where
  "DefaultState = NewState 1 (Some (dec_with_prec 1 2)) (Some (dec_with_prec 125 3))"

definition DefaultGenesisState :: genesis where
  "DefaultGenesisState = \<lparr>gsParams = DefaultParams, gsState = DefaultState\<rparr>"

definition DefaultAIMDParams :: params where
  "DefaultAIMDParams = NewParams 8 (dec_with_prec 25 3) (dec_with_prec 95 2) (dec_with_prec 25 2)
     (dec_with_prec 1 2) (dec_with_prec 5 1) 100000000 (dec_with_prec 1 2) (dec_with_prec 50 2)
     ''uphoton'' True"

definition DefaultAIMDState :: state where
  "DefaultAIMDState = NewState 8 (Some (dec_with_prec 1 2)) (Some (dec_with_prec 1 2))"

definition DefaultAIMDGenesisState :: genesis where
  "DefaultAIMDGenesisState = \<lparr>gsParams = DefaultAIMDParams, gsState = DefaultAIMDState\<rparr>"

section \<open>Bounds and direction of the two updates\<close>

lemma params_okE:
  assumes "params_ok p"
  obtains al be ga mb tu mi ma where
    "pAlpha p = Some al" "0 \<le> al" "pBeta p = Some be" "0 \<le> be" "be \<le> dec_one"
    "pGamma p = Some ga" "0 \<le> ga" "ga \<le> dec_half" "pMinBaseGasPrice p = Some mb" "0 \<le> mb"
    "pTargetBlockUtilization p = Some tu" "0 < tu" "tu \<le> dec_one"
    "pMinLearningRate p = Some mi" "0 \<le> mi" "pMaxLearningRate p = Some ma" "mi \<le> ma"
  using assms unfolding params_ok_def by blast

lemma UpdateBaseGasPrice_body_ge:
  "UpdateBaseGasPrice_body L p m s = Ok g \<Longrightarrow> \<exists>mb. pMinBaseGasPrice p = Some mb \<and> mb \<le> g"
  by (auto simp: UpdateBaseGasPrice_body_def Let_def split: if_splits)

text \<open>
  Whatever the state (even a malformed one, where the body panics and the deferred
  function recovers), under validated parameters \<open>UpdateBaseGasPrice\<close> leaves a base gas
  price that is at least the minimum of the parameters, and changes nothing else.
\<close>

lemma base_gas_price_floor:
  assumes "Params_ValidateBasic p = Ok ()"
  shows "\<exists>g mb. sBaseGasPrice (UpdateBaseGasPrice L p maxBlockGas s) = Some g \<and>
     pMinBaseGasPrice p = Some mb \<and> mb \<le> g \<and>
     UpdateBaseGasPrice L p maxBlockGas s = s\<lparr>sBaseGasPrice := Some g\<rparr>"
  using assms unfolding Params_ValidateBasic_iff
  by (elim params_okE) (auto simp: UpdateBaseGasPrice_def split: res.splits dest: UpdateBaseGasPrice_body_ge)

text \<open>
  The price falls or stays after a block at or below the target: the new price is at
  most the old one (or the minimum, when the old one was below it).
\<close>

theorem base_gas_price_falls:
  assumes L: "dec_laws L" and p: "Params_ValidateBasic p = Ok ()"
    and mb: "pMinBaseGasPrice p = Some mb"
    and s: "sBaseGasPrice s = Some base" "0 \<le> base" "sLearningRate s = Some lr" "0 \<le> lr"
    and cur: "slot s (sIndex s) = Ok cur" and tgt: "GetTargetBlockGas L maxBlockGas p = Ok target"
    and le: "cur \<le> target"
  shows "\<exists>g. sBaseGasPrice (UpdateBaseGasPrice L p maxBlockGas s) = Some g \<and> g \<le> max base mb"
proof (cases "UpdateBaseGasPrice_body L p maxBlockGas s")
  case (Ok g)
  then obtain diff avg adj lra price where steps:
    "dSub L (dec_of_int (uint cur)) (dec_of_int (uint target)) = Some diff"
    "dQuo L diff (dec_of_int (uint target)) = Some avg"
    "dMul L lr avg = Some adj" "dAdd L dec_one adj = Some lra" "dMul L base lra = Some price"
    "g = (if price < mb then mb else price)"
    using s cur tgt mb by (auto simp: UpdateBaseGasPrice_body_def Let_def)
  have "diff \<le> 0" using dSub_exact [OF L steps(1)] le by (simp add: word_le_def)
  moreover have "0 < dec_of_int (uint target)"
    using dQuo_nz [OF L steps(2)] by (simp add: order_less_le)
  ultimately have "avg \<le> 0" by (rule dQuo_nonpos [OF L steps(2)])
  then have "adj \<le> 0" using dMul_nonpos [OF L steps(3)] s(4) by simp
  then have "lra \<le> dec_one" using dAdd_exact [OF L steps(4)] by simp
  then have "price \<le> base" by (rule dMul_le_left [OF L steps(5) s(2)])
  with Ok steps(6) show ?thesis by (auto simp: UpdateBaseGasPrice_def)
qed (use mb in \<open>auto simp: UpdateBaseGasPrice_def\<close>)

lemmas default_defs = DefaultParams_def DefaultState_def NewParams_def NewState_def
  dec_half_def dec_with_prec_def dec_of_int_def dec_unit_def

theorem base_gas_price_falls_witness:
  "\<exists>g. sBaseGasPrice (UpdateBaseGasPrice std_dec DefaultParams 100000000 DefaultState) = Some g \<and>
     g \<le> max 10000000000000000 10000000000000000"
  by (rule base_gas_price_falls [OF std_dec_laws, where lr = 125000000000000000 and cur = 0 and target = 50000000])
    (simp_all add: Params_ValidateBasic_def nilOr_def default_defs slot_def win_def GetTargetBlockGas_def
      round_div_def in_int64_def min_int64_def max_int64_def u64_of_int64_def)

text \<open>
  The price rises or stays after a block at or above the (non-zero) target; the bounds
  on the price and the rate are those under which no decimal operation overflows.
\<close>

theorem base_gas_price_rises:
  assumes L: "dec_laws L"
    and mb: "pMinBaseGasPrice p = Some mb"
    and s: "sBaseGasPrice s = Some base" "0 \<le> base" "base < 2 ^ 64 * dec_unit"
           "sLearningRate s = Some lr" "0 \<le> lr" "lr \<le> dec_one"
    and cur: "slot s (sIndex s) = Ok cur" and tgt: "GetTargetBlockGas L maxBlockGas p = Ok target"
    and le: "target \<le> cur" "target \<noteq> 0"
  shows "\<exists>g. sBaseGasPrice (UpdateBaseGasPrice L p maxBlockGas s) = Some g \<and> base \<le> g"
proof -
  let ?d = "dec_of_int (uint cur) - dec_of_int (uint target)"
  have t1: "1 \<le> uint target" using le(2) by (metis uint_ge_0 uint_0_iff int_one_le_iff_zero_less order_less_le)
  have "dec_of_int (uint target) \<le> dec_of_int (uint cur)" using le(1) by (simp add: word_le_def)
  then have d: "0 \<le> ?d" "\<bar>?d\<bar> \<le> 2 ^ 64 * 10 ^ 18"
    using dec_of_uint_bound [of cur] dec_of_uint_bound [of target] by linarith+
  have sub: "dSub L (dec_of_int (uint cur)) (dec_of_int (uint target)) = Some ?d"
    using d(2) by (intro dSub_total [OF L]) (simp add: dec_bound_def)
  have tpos: "dec_unit \<le> dec_of_int (uint target)"
    using t1 dec_of_int_le [of 1 "uint target"] by (simp add: dec_of_int_def)
  have "\<bar>?d * dec_unit\<bar> < dec_bound"
    by (rule abs_mult_less [OF d(2), of dec_unit "10 ^ 18"]) (simp_all add: dec_unit_def dec_bound_def)
  then obtain avg where avg: "dQuo L ?d (dec_of_int (uint target)) = Some avg"
    using dQuo_total [OF L, of "dec_of_int (uint target)"] tpos dec_unit_pos by (metis not_less order_refl)
  have avg_b: "0 \<le> avg" "\<bar>avg\<bar> \<le> 2 ^ 64 * 10 ^ 18 + 2"
    using dQuo_nonneg [OF L avg d(1)] dQuo_bound [OF L avg tpos] d(2) tpos dec_unit_pos by linarith+
  have lr_b: "\<bar>lr\<bar> \<le> 10 ^ 18" using s(5,6) by (simp add: dec_of_int_def dec_unit_def)
  have "\<bar>lr * avg\<bar> < 10 ^ 60"
    by (rule abs_mult_less [OF lr_b avg_b(2)]) simp
  then obtain adj where adj: "dMul L lr avg = Some adj"
    using dMul_total [OF L, of lr avg] by (auto simp: dec_bound_def)
  have adj_b: "0 \<le> adj" "\<bar>adj\<bar> \<le> 2 ^ 64 * 10 ^ 18 + 3"
    using dMul_nonneg [OF L adj s(5) avg_b(1)] dMul_bound [OF L adj] avg_b lr_b
    by (simp_all add: dec_unit_def)
  have add: "dAdd L dec_one adj = Some (dec_one + adj)"
    using adj_b by (intro dAdd_total [OF L]) (simp add: dec_bound_def dec_of_int_def dec_unit_def)
  have "\<bar>base * (dec_one + adj)\<bar> < dec_bound"
    by (rule abs_mult_less [of base "2 ^ 64 * 10 ^ 18" _ "2 ^ 64 * 10 ^ 18 + 3 + 10 ^ 18"])
      (use s(2,3) adj_b in \<open>simp_all add: dec_bound_def dec_of_int_def dec_unit_def\<close>)
  then obtain price where price: "dMul L base (dec_one + adj) = Some price"
    using dMul_total [OF L] by blast
  have "base \<le> price" by (rule dMul_ge_left [OF L price s(2)]) (use adj_b in simp)
  then show ?thesis
    using s cur tgt mb sub avg adj add price
    by (auto simp: UpdateBaseGasPrice_def UpdateBaseGasPrice_body_def Let_def)
qed

theorem base_gas_price_rises_witness:
  "\<exists>g. sBaseGasPrice (UpdateBaseGasPrice std_dec DefaultParams 100000000
       (DefaultState\<lparr>sWindow := Some [80000000]\<rparr>)) = Some g \<and> 10000000000000000 \<le> g"
  by (rule base_gas_price_rises [OF std_dec_laws, where lr = 125000000000000000 and cur = 80000000
        and target = 50000000 and mb = 10000000000000000])
    (simp_all add: default_defs slot_def win_def GetTargetBlockGas_def
      round_div_def in_int64_def min_int64_def max_int64_def u64_of_int64_def)

text \<open>
  C8: the price follows the use of the blocks: after a block at or below the target it is at most the
  old price (or the minimum, when the old one was below it), after a block at or above the target
  it is at least the old price. The target is not zero; the bounds on the price and the rate are
  those under which no decimal operation overflows.
\<close>

theorem base_gas_price_follows_use:
  assumes "dec_laws L" "Params_ValidateBasic p = Ok ()" "pMinBaseGasPrice p = Some mb"
    "sBaseGasPrice s = Some base" "0 \<le> base" "base < 2 ^ 64 * dec_unit"
    "sLearningRate s = Some lr" "0 \<le> lr" "lr \<le> dec_one"
    "slot s (sIndex s) = Ok cur" "GetTargetBlockGas L maxBlockGas p = Ok target" "target \<noteq> 0"
  shows "\<exists>g. sBaseGasPrice (UpdateBaseGasPrice L p maxBlockGas s) = Some g \<and>
    (cur \<le> target \<longrightarrow> g \<le> max base mb) \<and> (target \<le> cur \<longrightarrow> base \<le> g)"
proof -
  from base_gas_price_floor [OF assms(2)] obtain g where "sBaseGasPrice (UpdateBaseGasPrice L p maxBlockGas s) = Some g"
    by blast
  moreover have "cur \<le> target \<Longrightarrow> g \<le> max base mb"
    using base_gas_price_falls [OF assms(1,2,3,4,5,7,8,10,11)] calculation by auto
  moreover have "target \<le> cur \<Longrightarrow> base \<le> g"
    using base_gas_price_rises [OF assms(1,3,4,5,6,7,8,9,10,11) _ assms(12)] calculation(1) by auto
  ultimately show ?thesis by blast
qed

theorem base_gas_price_follows_use_witness:
  "\<exists>g. sBaseGasPrice (UpdateBaseGasPrice std_dec DefaultParams 100000000
       (DefaultState\<lparr>sWindow := Some [80000000]\<rparr>)) = Some g \<and> 10000000000000000 \<le> g"
proof -
  have "\<exists>g. sBaseGasPrice (UpdateBaseGasPrice std_dec DefaultParams 100000000 (DefaultState\<lparr>sWindow := Some [80000000]\<rparr>)) = Some g \<and>
      ((80000000 :: u64) \<le> 50000000 \<longrightarrow> g \<le> max 10000000000000000 10000000000000000) \<and> ((50000000 :: u64) \<le> 80000000 \<longrightarrow> 10000000000000000 \<le> g)"
    by (rule base_gas_price_follows_use [OF std_dec_laws, where lr = 125000000000000000])
      (simp_all add: Params_ValidateBasic_def nilOr_def default_defs slot_def win_def GetTargetBlockGas_def
        round_div_def in_int64_def min_int64_def max_int64_def u64_of_int64_def)
  then show ?thesis by auto
qed

text \<open>
  The learning rate stays between the minimum and the maximum of the parameters, on the
  increase branch, the decrease branch and the recovered panic.
\<close>

lemma learning_rate_bounds:
  assumes L: "dec_laws L" and p: "Params_ValidateBasic p = Ok ()"
    and mi: "pMinLearningRate p = Some mi" and ma: "pMaxLearningRate p = Some ma"
    and s: "sLearningRate s = Some lr" "mi \<le> lr" "lr \<le> ma"
  shows "\<exists>lr'. sLearningRate (UpdateLearningRate L p maxBlockGas s) = Some lr' \<and> mi \<le> lr' \<and> lr' \<le> ma \<and>
     UpdateLearningRate L p maxBlockGas s = s\<lparr>sLearningRate := Some lr'\<rparr>"
proof (cases "UpdateLearningRate_body L p maxBlockGas s")
  case (Ok lr')
  from p obtain al be where al: "pAlpha p = Some al" "0 \<le> al" "pBeta p = Some be" "0 \<le> be" "be \<le> dec_one" "0 \<le> mi"
    unfolding Params_ValidateBasic_iff using mi by (elim params_okE) auto
  consider x where "dAdd L al lr = Some x" "lr' = (if ma < x then ma else x)"
    | x where "dMul L lr be = Some x" "lr' = (if x < mi then mi else x)"
    using Ok al(1,3) s(1) mi ma unfolding UpdateLearningRate_body_def by (auto split: if_splits)
  then have "mi \<le> lr' \<and> lr' \<le> ma"
  proof cases
    case (1 x)
    then show ?thesis using dAdd_exact [OF L 1(1)] al(2) s(2,3) by auto
  next
    case (2 x)
    then have "x \<le> lr" using dMul_le_left [OF L 2(1)] al(5,6) s(2) by simp
    with 2(2) s show ?thesis by auto
  qed
  with Ok show ?thesis by (auto simp: UpdateLearningRate_def)
qed (use s mi in \<open>auto simp: UpdateLearningRate_def\<close>)

section \<open>The window is the gas of the last blocks\<close>

text \<open>
  The abstract view of the ring buffer: the gas of the current block first, then that of the
  blocks before it, as many as the window has slots.
\<close>

definition recent :: "state \<Rightarrow> u64 list" where
  "recent s = rev (rotate (Suc (unat (sIndex s))) (win s))"

definition window_ok :: "state \<Rightarrow> bool" where
  "window_ok s \<longleftrightarrow> unat (sIndex s) < length (win s) \<and> length (win s) < 2 ^ 64"

lemma rotate_split: "k \<le> length xs \<Longrightarrow> rotate k xs = drop k xs @ take k xs"
  by (cases "k = length xs") (simp_all add: rotate_drop_take)

lemma recent_split:
  assumes "window_ok s"
  shows "recent s = (win s ! unat (sIndex s)) # rev (take (unat (sIndex s)) (win s)) @
           rev (drop (Suc (unat (sIndex s))) (win s))"
  using assms by (simp add: recent_def window_ok_def rotate_split take_Suc_conv_app_nth del: rotate_Suc)

text \<open>
  In the abstract view \<open>Update\<close> adds the gas (as \<open>uint64\<close>) to the current block and
  touches no other, or fails with \<open>ErrMaxGasExceeded\<close> exactly when the sum is above the
  maximum; it never panics.
\<close>

lemma Update_ring:
  assumes "window_ok s"
  shows "case Update gas maxBlockGas s of
      Ok s' \<Rightarrow> hd (recent s) + gas \<le> maxBlockGas \<and> window_ok s' \<and>
        recent s' = (hd (recent s) + gas) # tl (recent s) \<and>
        sBaseGasPrice s' = sBaseGasPrice s \<and> sLearningRate s' = sLearningRate s
    | Err e \<Rightarrow> e = Dynamicfee_ErrMaxGasExceeded \<and> maxBlockGas < hd (recent s) + gas
    | Panic \<Rightarrow> False"
proof (cases "maxBlockGas < hd (recent s) + gas")
  case True
  then show ?thesis using assms
    by (simp add: Update_def slot_def recent_split window_ok_def Let_def)
next
  case False
  define s' where "s' = s\<lparr>sWindow := Some ((win s)[unat (sIndex s) := hd (recent s) + gas])\<rparr>"
  have i: "unat (sIndex s) < length (win s)" using assms by (simp add: window_ok_def)
  have step: "Update gas maxBlockGas s = Ok s'"
    using False i assms by (simp add: Update_def slot_def set_slot_def recent_split s'_def Let_def)
  have wf: "window_ok s'" using assms by (simp add: s'_def window_ok_def win_def)
  have "recent s' = (hd (recent s) + gas) # tl (recent s)"
    using recent_split [OF wf] recent_split [OF assms] i by (simp add: s'_def win_def)
  with step wf False show ?thesis by (simp add: s'_def not_less)
qed

lemma next_index:
  assumes "window_ok s"
  shows "unat ((sIndex s + 1) mod of_nat (length (win s))) =
     (if Suc (unat (sIndex s)) = length (win s) then 0 else Suc (unat (sIndex s)))"
proof -
  from assms have "unat (sIndex s) < length (win s)" "length (win s) < 2 ^ 64"
    by (auto simp: window_ok_def)
  then have "unat (sIndex s + 1) = Suc (unat (sIndex s))" "unat (of_nat (length (win s)) :: u64) = length (win s)"
    by (simp_all add: unat_word_ariths unat_of_nat)
  then show ?thesis using \<open>unat (sIndex s) < length (win s)\<close> by (simp add: unat_mod)
qed

text \<open>
  In the abstract view \<open>IncrementHeight\<close> starts a new block with no gas and forgets the
  oldest one; the index stays in range and the prices stay as they are.
\<close>

lemma IncrementHeight_ring:
  assumes "window_ok s"
  shows "\<exists>s'. IncrementHeight s = Ok s' \<and> window_ok s' \<and> recent s' = 0 # butlast (recent s) \<and>
     sBaseGasPrice s' = sBaseGasPrice s \<and> sLearningRate s' = sLearningRate s"
proof -
  let ?i = "(sIndex s + 1) mod of_nat (length (win s))"
  note i = next_index [OF assms]
  have lt: "unat (sIndex s) < length (win s)" "win s \<noteq> []" using assms by (auto simp: window_ok_def)
  have ok: "unat ?i < length (win s)" using lt by (auto simp: i)
  define s' where "s' = s\<lparr>sIndex := ?i, sWindow := Some ((win s)[unat ?i := 0])\<rparr>"
  have step: "IncrementHeight s = Ok s'"
    using lt ok by (simp add: IncrementHeight_def set_slot_def Let_def win_def s'_def)
  have wf: "window_ok s'" using assms ok by (simp add: window_ok_def s'_def win_def)
  have "recent s' = 0 # rev (take (unat ?i) (win s)) @ rev (drop (Suc (unat ?i)) (win s))"
    using recent_split [OF wf] ok by (simp add: s'_def win_def)
  also have "\<dots> = 0 # butlast (recent s)"
  proof (cases "Suc (unat (sIndex s)) = length (win s)")
    case True
    then show ?thesis using lt by (simp add: i recent_def rotate_split butlast_rev drop_Suc del: rotate_Suc)
  next
    case False
    then have "Suc (unat (sIndex s)) < length (win s)" using lt by simp
    then show ?thesis
      by (auto simp: i False recent_def rotate_split butlast_append butlast_rev tl_drop drop_Suc
          simp del: rotate_Suc)
  qed
  finally show ?thesis using step wf by (auto simp: s'_def)
qed

end
