(* ===== verification/Dynamicfee_Keeper.thy ===== *)
theory Dynamicfee_Keeper
  imports Dynamicfee_State
begin

text \<open>
  \<open>x/dynamicfee/keeper\<close>: the store of the module, the end blocker, the message server, genesis
  and the gas price queries, with the \<open>DenomResolver\<close> interface of \<open>types/resolver.go\<close> as a
  locale. Logging is left out, but not the calls made to compute what is logged: they can panic.
\<close>

section \<open>Store\<close>

record store =
  stParams :: "params cell"
  stState :: "state cell"
  stEnabledHeight :: "int cell"

definition zero_params :: params where
  "zero_params = \<lparr> pAlpha = None, pBeta = None, pGamma = None, pMinBaseGasPrice = None,
     pTargetBlockUtilization = None, pDefaultMaxBlockGas = 0, pMinLearningRate = None,
     pMaxLearningRate = None, pWindow = 0, pFeeDenom = [], pEnabled = False \<rparr>"

definition zero_state :: state where
  "zero_state = \<lparr> sBaseGasPrice = None, sLearningRate = None, sWindow = None, sIndex = 0 \<rparr>"

definition decode_err :: err where "decode_err = ErrExternal 1"

definition GetParams :: "store \<Rightarrow> params res" where
  "GetParams st = (case stParams st of Absent \<Rightarrow> Ok zero_params | Corrupt \<Rightarrow> Err decode_err | Value p \<Rightarrow> Ok p)"

definition SetParams :: "params \<Rightarrow> store \<Rightarrow> store" where
  "SetParams p st = st\<lparr>stParams := Value p\<rparr>"

definition GetState :: "store \<Rightarrow> state res" where
  "GetState st = (case stState st of Absent \<Rightarrow> Ok zero_state | Corrupt \<Rightarrow> Err decode_err | Value s \<Rightarrow> Ok s)"

definition SetState :: "state \<Rightarrow> store \<Rightarrow> store" where
  "SetState s st = st\<lparr>stState := Value s\<rparr>"

definition GetEnabledHeight :: "store \<Rightarrow> int res" where
  "GetEnabledHeight st =
     (case stEnabledHeight st of Absent \<Rightarrow> Ok (- 1) | Corrupt \<Rightarrow> Err decode_err | Value h \<Rightarrow> Ok h)"

definition SetEnabledHeight :: "int \<Rightarrow> store \<Rightarrow> store" where
  "SetEnabledHeight h st = st\<lparr>stEnabledHeight := Value h\<rparr>"

lemma store_get_set [simp]:
  "GetParams (SetParams p st) = Ok p" "GetState (SetParams p st) = GetState st"
  "GetEnabledHeight (SetParams p st) = GetEnabledHeight st"
  "GetState (SetState s st) = Ok s" "GetParams (SetState s st) = GetParams st"
  "GetEnabledHeight (SetState s st) = GetEnabledHeight st"
  "GetEnabledHeight (SetEnabledHeight h st) = Ok h" "GetParams (SetEnabledHeight h st) = GetParams st"
  "GetState (SetEnabledHeight h st) = GetState st"
  by (simp_all add: GetParams_def SetParams_def GetState_def SetState_def GetEnabledHeight_def
      SetEnabledHeight_def)

section \<open>End blocker\<close>

text \<open>The block context: its height and the \<open>max_gas\<close> of the consensus parameters (an \<open>int64\<close>).\<close>

record block_ctx =
  cBlockHeight :: int
  cMaxGas :: int

definition GetMaxBlockGas :: "block_ctx \<Rightarrow> params \<Rightarrow> u64" where
  "GetMaxBlockGas ctx p =
     (if cMaxGas ctx = 0 \<or> cMaxGas ctx = - 1 then pDefaultMaxBlockGas p else u64_of_int64 (cMaxGas ctx))"

definition UpdateDynamicfee :: "dec_lib \<Rightarrow> block_ctx \<Rightarrow> store \<Rightarrow> store res" where
  "UpdateDynamicfee L ctx st =
     bindR (GetParams st) (\<lambda>p.
     if \<not> pEnabled p then Ok st
     else
       let maxBlockGas = GetMaxBlockGas ctx p in
       bindR (GetState st) (\<lambda>s0.
       let s1 = UpdateLearningRate L p maxBlockGas s0;
           s2 = UpdateBaseGasPrice L p maxBlockGas s1 in
       bindR (GetAverageGas L maxBlockGas s2) (\<lambda>_.
       bindR (GetNetGas L maxBlockGas p s2) (\<lambda>_.
       bindR (IncrementHeight s2) (\<lambda>s3.
       Ok (SetState s3 st))))))"

definition EndBlock :: "dec_lib \<Rightarrow> block_ctx \<Rightarrow> store \<Rightarrow> store res" where
  "EndBlock L ctx st = UpdateDynamicfee L ctx st"

definition GetBaseGasPrice :: "store \<Rightarrow> dec option res" where
  "GetBaseGasPrice st = bindR (GetState st) (\<lambda>s. Ok (sBaseGasPrice s))"

definition GetLearningRate :: "store \<Rightarrow> dec option res" where
  "GetLearningRate st = bindR (GetState st) (\<lambda>s. Ok (sLearningRate s))"

section \<open>The denom resolver and the gas price queries\<close>

record 'x resolver =
  ConvertToDenom :: "'x \<Rightarrow> deccoin \<Rightarrow> string \<Rightarrow> deccoin res"
  ExtraDenoms :: "'x \<Rightarrow> string list res"

definition ResolveToDenom :: "'x resolver option \<Rightarrow> 'x \<Rightarrow> deccoin \<Rightarrow> string \<Rightarrow> deccoin res" where
  "ResolveToDenom r x coin denom =
     (case r of None \<Rightarrow> Err Dynamicfee_ErrResolverNotSet | Some r \<Rightarrow> ConvertToDenom r x coin denom)"

definition GetMinGasPrice :: "coins_lib \<Rightarrow> 'x resolver option \<Rightarrow> 'x \<Rightarrow> store \<Rightarrow> string \<Rightarrow> deccoin res" where
  "GetMinGasPrice C r x st denom =
     bindR (GetBaseGasPrice st) (\<lambda>baseGasPrice.
     bindR (GetParams st) (\<lambda>p.
     call baseGasPrice (\<lambda>base.
     bindR (must (NewDecCoinFromDec C (pFeeDenom p) base)) (\<lambda>price.
     if pFeeDenom p = denom then Ok price else ResolveToDenom r x price denom))))"

text \<open>A denomination whose conversion returns an error is skipped; a panic is not caught.\<close>

definition GetMinGasPrices :: "coins_lib \<Rightarrow> 'x resolver option \<Rightarrow> 'x \<Rightarrow> store \<Rightarrow> deccoins res" where
  "GetMinGasPrices C r x st =
     bindR (GetBaseGasPrice st) (\<lambda>baseGasPrice.
     bindR (GetParams st) (\<lambda>p.
     call baseGasPrice (\<lambda>base.
     bindR (must (NewDecCoinFromDec C (pFeeDenom p) base)) (\<lambda>minGasPrice.
     bindR (must (NewDecCoins C [minGasPrice])) (\<lambda>minGasPrices.
     bindR (case r of None \<Rightarrow> Panic | Some r \<Rightarrow> ExtraDenoms r x) (\<lambda>extraDenoms.
     foldR (\<lambda>denom acc. case ResolveToDenom r x minGasPrice denom of
         Ok gasPrice \<Rightarrow> must (DecCoinsAdd C acc [gasPrice])
       | Err _ \<Rightarrow> Ok acc
       | Panic \<Rightarrow> Panic) extraDenoms minGasPrices))))))"

text \<open>
  The contract of a resolver: a coin already in the denomination is returned as it is, and
  a conversion ends in the denomination asked for.
\<close>

locale denom_resolver =
  fixes C :: coins_lib
    and convert :: "'x \<Rightarrow> deccoin \<Rightarrow> string \<Rightarrow> deccoin res"
    and extra :: "'x \<Rightarrow> string list res"
  assumes convert_same: "dcDenom coin = denom \<Longrightarrow> convert x coin denom = Ok coin"
    and convert_denom: "coins_laws C \<Longrightarrow> convert x coin denom = Ok coin' \<Longrightarrow> dcDenom coin' = denom"
begin

lemma min_gas_price_denom:
  assumes C: "coins_laws C"
    and ok: "GetMinGasPrice C (Some \<lparr>ConvertToDenom = convert, ExtraDenoms = extra\<rparr>) x st denom = Ok price"
  shows "dcDenom price = denom"
  using ok by (auto simp: GetMinGasPrice_def ResolveToDenom_def split: if_splits
      dest: NewDecCoinFromDec_result [OF C] convert_denom [OF C])

lemma min_gas_price_fee_denom:
  assumes "GetParams st = Ok p"
  shows "GetMinGasPrice C (Some \<lparr>ConvertToDenom = convert, ExtraDenoms = extra\<rparr>) x st (pFeeDenom p) =
    GetMinGasPrice C None x st (pFeeDenom p)"
  using assms by (cases "GetBaseGasPrice st") (simp_all add: GetMinGasPrice_def)

end

text \<open>The two resolvers of \<open>types/resolver.go\<close>, written for tests of the module.\<close>

definition TestDenomResolver :: "coins_lib \<Rightarrow> 'x resolver" where
  "TestDenomResolver C = \<lparr>
     ConvertToDenom = (\<lambda>x coin denom. if dcDenom coin = denom then Ok coin
        else must (NewDecCoinFromDec C denom (dcAmount coin))),
     ExtraDenoms = (\<lambda>x. Ok [])\<rparr>"

definition ErrorDenomResolver :: "'x resolver" where
  "ErrorDenomResolver = \<lparr>
     ConvertToDenom = (\<lambda>x coin denom. if dcDenom coin = denom then Ok coin
        else Err (ErrText ''error resolving denom'')),
     ExtraDenoms = (\<lambda>x. Ok [])\<rparr>"

interpretation test_resolver: denom_resolver C "ConvertToDenom (TestDenomResolver C)"
    "ExtraDenoms (TestDenomResolver C)" for C
  by unfold_locales (auto simp: TestDenomResolver_def split: if_splits dest: NewDecCoinFromDec_result)

interpretation error_resolver: denom_resolver C "ConvertToDenom ErrorDenomResolver"
    "ExtraDenoms ErrorDenomResolver" for C
  by unfold_locales (auto simp: ErrorDenomResolver_def split: if_splits)

section \<open>Message server\<close>

record msg_update_params =
  mAuthority :: string
  mParams :: params

definition MsgUpdateParams_ValidateBasic :: "addr_lib \<Rightarrow> msg_update_params \<Rightarrow> unit res" where
  "MsgUpdateParams_ValidateBasic A m =
     bindR (orErr (ErrExternal 2) (FromBech32 A (mAuthority m))) (\<lambda>_. Ok ())"

definition MsgServer_UpdateParams :: "string \<Rightarrow> block_ctx \<Rightarrow> msg_update_params \<Rightarrow> store \<Rightarrow> store res" where
  "MsgServer_UpdateParams authority ctx m st =
     bindR (failIf (mAuthority m \<noteq> authority) (ErrText ''invalid authority to execute message'')) (\<lambda>_.
     bindR (GetParams st) (\<lambda>gotParams.
     let st1 = (if \<not> pEnabled gotParams \<and> pEnabled (mParams m)
                then SetEnabledHeight (cBlockHeight ctx) st else st);
         p = mParams m;
         st2 = SetParams p st1;
         newState = NewState (pWindow p) (pMinBaseGasPrice p) (pMinLearningRate p)
     in Ok (SetState newState st2)))"

section \<open>Genesis\<close>

definition InitGenesis :: "genesis \<Rightarrow> store \<Rightarrow> store res" where
  "InitGenesis gs st =
     bindR (panicOnErr (Genesis_ValidateBasic gs)) (\<lambda>_.
     if pWindow (gsParams gs) \<noteq> of_nat (length (win (gsState gs))) then Panic
     else Ok (SetEnabledHeight (- 1) (SetState (gsState gs) (SetParams (gsParams gs) st))))"

definition ExportGenesis :: "store \<Rightarrow> genesis res" where
  "ExportGenesis st =
     bindR (panicOnErr (GetParams st)) (\<lambda>p.
     bindR (panicOnErr (GetState st)) (\<lambda>s. Ok \<lparr>gsParams = p, gsState = s\<rparr>))"

section \<open>Correctness\<close>

text \<open>What the end blocker needs of the context and of the parameters: a non-zero limit that fits an \<open>int64\<close>.\<close>

definition gas_limit_ok :: "block_ctx \<Rightarrow> params \<Rightarrow> bool" where
  "gas_limit_ok ctx p \<longleftrightarrow> 0 < uint (GetMaxBlockGas ctx p) \<and> uint (GetMaxBlockGas ctx p) < 2 ^ 63"

text \<open>The invariant of the market under validated parameters.\<close>

definition market_inv :: "params \<Rightarrow> state \<Rightarrow> bool" where
  "market_inv p s \<longleftrightarrow> window_ok s \<and> length (win s) = unat (pWindow p) \<and>
     (\<exists>g mb. sBaseGasPrice s = Some g \<and> pMinBaseGasPrice p = Some mb \<and> mb \<le> g) \<and>
     (\<exists>lr mi ma. sLearningRate s = Some lr \<and> pMinLearningRate p = Some mi \<and>
        pMaxLearningRate p = Some ma \<and> mi \<le> lr \<and> lr \<le> ma)"

lemma UpdateLearningRate_frame [simp]:
  "win (UpdateLearningRate L p m s) = win s" "sIndex (UpdateLearningRate L p m s) = sIndex s"
  "sBaseGasPrice (UpdateLearningRate L p m s) = sBaseGasPrice s"
  by (simp_all add: UpdateLearningRate_def win_def split: res.splits)

lemma UpdateBaseGasPrice_frame [simp]:
  "win (UpdateBaseGasPrice L p m s) = win s" "sIndex (UpdateBaseGasPrice L p m s) = sIndex s"
  "sLearningRate (UpdateBaseGasPrice L p m s) = sLearningRate s"
  by (simp_all add: UpdateBaseGasPrice_def win_def split: res.splits)

lemma GetTargetBlockGas_total:
  assumes L: "dec_laws L" and p: "params_ok p" and m: "uint m < 2 ^ 63"
  shows "\<exists>t. GetTargetBlockGas L m p = Ok t \<and> t \<le> m"
proof -
  from p obtain tu where tu: "pTargetBlockUtilization p = Some tu" "0 < tu" "tu \<le> dec_one"
    by (elim params_okE)
  let ?d = "dec_of_int (uint m)"
  have "\<bar>?d\<bar> \<le> 2 ^ 64 * 10 ^ 18" using dec_of_uint_bound [of m] by simp
  then have "\<bar>?d * tu\<bar> < dec_bound"
    by (rule abs_mult_less [of _ _ _ "10 ^ 18"])
      (use tu in \<open>simp_all add: dec_bound_def dec_of_int_def dec_unit_def\<close>)
  then obtain c where c: "dMul L ?d tu = Some c" using dMul_total [OF L] by blast
  have c_b: "0 \<le> c" "c \<le> ?d"
    using dMul_nonneg [OF L c] dMul_le_left [OF L c] tu by simp_all
  then have tr: "dTruncateInt L c = c div dec_unit" using dTruncateInt_nonneg [OF L] by simp
  have "c div dec_unit \<le> ?d div dec_unit" using c_b(2) by (intro zdiv_mono1) simp_all
  then have t_b: "0 \<le> c div dec_unit" "c div dec_unit \<le> uint m"
    using c_b(1) by (simp_all add: dec_of_int_def pos_imp_zdiv_nonneg_iff)
  then have "in_int64 (c div dec_unit)" using m by (simp add: in_int64_def min_int64_def max_int64_def)
  then have "GetTargetBlockGas L m p = Ok (u64_of_int64 (c div dec_unit))"
    using tu(1) c tr iInt64_eq [OF L] by (simp add: GetTargetBlockGas_def)
  moreover have "u64_of_int64 (c div dec_unit) \<le> m"
    using t_b m by (simp add: word_le_def u64_of_int64_nonneg)
  ultimately show ?thesis by blast
qed

lemma GetAverageGas_total:
  assumes L: "dec_laws L" and m: "0 < uint m" "uint m < 2 ^ 63"
    and w: "win s \<noteq> []" "length (win s) < 2 ^ 64"
  shows "\<exists>a. GetAverageGas L m s = Ok a"
proof -
  let ?n = "int (length (win s))"
  define total where "total = fold (\<lambda>gas t. t + gas) (win s) (0 :: u64)"
  have m_b: "\<bar>dec_of_int (uint m)\<bar> \<le> 2 ^ 63 * 10 ^ 18"
    using m by (simp add: dec_of_int_def dec_unit_def)
  have n_b: "\<bar>dec_of_int ?n\<bar> \<le> 2 ^ 64 * 10 ^ 18"
    using w(2) by (simp add: dec_of_int_def dec_unit_def)
  have "\<bar>dec_of_int (uint m) * dec_of_int ?n\<bar> < dec_bound"
    by (rule abs_mult_less [OF m_b n_b]) (simp add: dec_bound_def)
  then obtain d where d: "dMul L (dec_of_int (uint m)) (dec_of_int ?n) = Some d"
    using dMul_total [OF L] by blast
  then have "d = uint m * dec_of_int ?n" by (rule dMul_int_left [OF L])
  then have "d \<noteq> 0" using m w by (simp add: dec_of_int_def)
  moreover have "\<bar>dec_of_int (uint total) * dec_unit\<bar> < dec_bound"
  proof (rule abs_mult_less [of _ "2 ^ 64 * 10 ^ 18" _ "10 ^ 18"])
    show "\<bar>dec_of_int (uint total)\<bar> \<le> 2 ^ 64 * 10 ^ 18" using dec_of_uint_bound [of total] by simp
  qed (simp_all add: dec_unit_def dec_bound_def)
  ultimately obtain a where "dQuo L (dec_of_int (uint total)) d = Some a"
    using dQuo_total [OF L] by blast
  with d show ?thesis by (auto simp: GetAverageGas_def Let_def total_def)
qed

lemma EndBlock_market_step:
  assumes L: "dec_laws L" and p: "GetParams st = Ok p" "pEnabled p" "Params_ValidateBasic p = Ok ()"
    and s: "GetState st = Ok s" "market_inv p s" and gas: "gas_limit_ok ctx p"
  shows "\<exists>s'. EndBlock L ctx st = Ok (SetState s' st) \<and> market_inv p s' \<and>
     recent s' = 0 # butlast (recent s)"
proof -
  let ?m = "GetMaxBlockGas ctx p"
  define s1 where "s1 = UpdateLearningRate L p ?m s"
  define s2 where "s2 = UpdateBaseGasPrice L p ?m s1"
  from s(2) obtain lr mi ma where lr: "sLearningRate s = Some lr" "pMinLearningRate p = Some mi"
      "pMaxLearningRate p = Some ma" "mi \<le> lr" "lr \<le> ma"
    and w: "window_ok s" "length (win s) = unat (pWindow p)"
    by (auto simp: market_inv_def)
  have ok: "params_ok p" using p(3) by (simp add: Params_ValidateBasic_iff)
  have m: "0 < uint ?m" "uint ?m < 2 ^ 63" using gas by (auto simp: gas_limit_ok_def)
  have w2: "window_ok s2" "recent s2 = recent s"
    using w by (simp_all add: s2_def s1_def window_ok_def recent_def)
  then have ne: "win s2 \<noteq> []" "length (win s2) < 2 ^ 64" by (auto simp: window_ok_def)
  obtain a where a: "GetAverageGas L ?m s2 = Ok a" using GetAverageGas_total [OF L m ne] by blast
  obtain t where "GetTargetBlockGas L ?m p = Ok t" using GetTargetBlockGas_total [OF L ok m(2)] by blast
  then obtain n where n: "GetNetGas L ?m p s2 = Ok n" by (auto simp: GetNetGas_def)
  obtain s3 where s3: "IncrementHeight s2 = Ok s3" "window_ok s3" "recent s3 = 0 # butlast (recent s2)"
      "sBaseGasPrice s3 = sBaseGasPrice s2" "sLearningRate s3 = sLearningRate s2"
    using IncrementHeight_ring [OF w2(1)] by blast
  have step: "EndBlock L ctx st = Ok (SetState s3 st)"
    using p s(1) a n s3(1) by (simp add: EndBlock_def UpdateDynamicfee_def Let_def s1_def s2_def)
  have len: "length (win s3) = length (win s2)"
    using arg_cong [OF s3(3), of length] ne by (simp add: recent_def)
  have "\<exists>g mb. sBaseGasPrice s2 = Some g \<and> pMinBaseGasPrice p = Some mb \<and> mb \<le> g"
    using base_gas_price_floor [OF p(3), of L ?m s1] by (auto simp: s2_def)
  moreover have "\<exists>lr'. sLearningRate s2 = Some lr' \<and> mi \<le> lr' \<and> lr' \<le> ma"
    using learning_rate_bounds [OF L p(3) lr(2,3,1,4,5), of ?m] by (auto simp: s2_def s1_def)
  ultimately have "market_inv p s3"
    using s3 w len lr(2,3) by (auto simp: market_inv_def s2_def s1_def)
  with step s3(3) w2(2) show ?thesis by auto
qed


text \<open>A disabled market: the end blocker leaves the store alone.\<close>

lemma EndBlock_disabled: "GetParams st = Ok p \<Longrightarrow> \<not> pEnabled p \<Longrightarrow> EndBlock L ctx st = Ok st"
  by (simp add: EndBlock_def UpdateDynamicfee_def)

text \<open>An update of the parameters starts a fresh market for them.\<close>

lemma NewState_fields [simp]:
  "win (NewState w g r) = replicate (unat w) 0" "sIndex (NewState w g r) = 0"
  "sBaseGasPrice (NewState w g r) = g" "sLearningRate (NewState w g r) = r"
  by (simp_all add: NewState_def win_def)

lemma NewState_window_ok: "w \<noteq> 0 \<Longrightarrow> window_ok (NewState w g r)"
  using unsigned_less [of w, where ?'a = nat] by (simp add: window_ok_def unat_gt_0)

lemma NewState_market:
  assumes "params_ok p"
  shows "market_inv p (NewState (pWindow p) (pMinBaseGasPrice p) (pMinLearningRate p))"
proof -
  obtain mb mi ma where p: "pWindow p \<noteq> 0" "pMinBaseGasPrice p = Some mb"
      "pMinLearningRate p = Some mi" "pMaxLearningRate p = Some ma" "mi \<le> ma"
    using assms unfolding params_ok_def by blast
  then show ?thesis by (simp add: market_inv_def NewState_window_ok)
qed

lemma UpdateParams_result:
  assumes "MsgServer_UpdateParams authority ctx m st = Ok st'"
  shows "mAuthority m = authority" "GetParams st' = Ok (mParams m)"
    "GetState st' = Ok (NewState (pWindow (mParams m)) (pMinBaseGasPrice (mParams m)) (pMinLearningRate (mParams m)))"
    "\<exists>p. GetParams st = Ok p \<and> GetEnabledHeight st' =
       (if \<not> pEnabled p \<and> pEnabled (mParams m) then Ok (cBlockHeight ctx) else GetEnabledHeight st)"
proof -
  from assms obtain p where p: "GetParams st = Ok p" "mAuthority m = authority" and
    st': "st' = SetState (NewState (pWindow (mParams m)) (pMinBaseGasPrice (mParams m)) (pMinLearningRate (mParams m)))
      (SetParams (mParams m)
        (if \<not> pEnabled p \<and> pEnabled (mParams m) then SetEnabledHeight (cBlockHeight ctx) st else st))"
    unfolding MsgServer_UpdateParams_def Let_def bindR_eq_Ok failIf_eq_Ok by blast
  from p st' show "mAuthority m = authority" "GetParams st' = Ok (mParams m)"
    "GetState st' = Ok (NewState (pWindow (mParams m)) (pMinBaseGasPrice (mParams m)) (pMinLearningRate (mParams m)))"
    "\<exists>p. GetParams st = Ok p \<and> GetEnabledHeight st' =
       (if \<not> pEnabled p \<and> pEnabled (mParams m) then Ok (cBlockHeight ctx) else GetEnabledHeight st)"
    by simp_all
qed

text \<open>What genesis import stores is what export returns.\<close>

lemma InitGenesis_export:
  "InitGenesis gs st = Ok st' \<Longrightarrow> ExportGenesis st' = Ok gs \<and> GetEnabledHeight st' = Ok (- 1)"
  by (auto simp: InitGenesis_def ExportGenesis_def split: if_splits)

end
