(* ===== verification/Photon.thy ===== *)
theory Photon
  imports Dynamicfee_Keeper
begin

text \<open>
  \<open>x/photon\<close>: the fee token, minted only by burning the bond token. Parameters, the conversion
  rate, the mint handler, the resolver that the fee market uses for other denominations, and
  the ante decorator that restricts the denomination of fees.
\<close>

section \<open>Parameters, store and environment\<close>

definition photon_Denom :: string where "photon_Denom = ''uphoton''"
definition photon_ModuleName :: string where "photon_ModuleName = ''photon''"
definition photon_MaxSupply :: int where "photon_MaxSupply = 1000000000000000"
definition app_BondDenom :: string where "app_BondDenom = ''ulight''"

record photon_params =
  MintDisabled :: bool
  TxFeeExceptions :: "string list"

definition photon_NewParams :: "bool \<Rightarrow> string list \<Rightarrow> photon_params" where
  "photon_NewParams mintDisabled txFeeExceptions =
     \<lparr>MintDisabled = mintDisabled, TxFeeExceptions = txFeeExceptions\<rparr>"

definition photon_DefaultParams :: photon_params where
  "photon_DefaultParams = photon_NewParams False [''/hikari.photon.v1.MsgMintPhoton'']"

definition photon_Params_ValidateBasic :: "photon_params \<Rightarrow> unit res" where
  "photon_Params_ValidateBasic p = Ok ()"

definition photon_GetParams :: "photon_params cell \<Rightarrow> photon_params res" where
  "photon_GetParams st = (case st of
     Absent \<Rightarrow> Ok \<lparr>MintDisabled = False, TxFeeExceptions = []\<rparr> | Corrupt \<Rightarrow> Panic | Value p \<Rightarrow> Ok p)"

definition photon_SetParams :: "photon_params \<Rightarrow> photon_params cell \<Rightarrow> photon_params cell" where
  "photon_SetParams p st = Value p"

record 'x photon_env =
  peBank :: "'x bank_lib"
  peBondDenom :: "'x \<Rightarrow> string res"
  peAddr :: addr_lib
  peAuthority :: string

section \<open>Keeper\<close>

definition PhotonConversionRate :: "dec_lib \<Rightarrow> dec \<Rightarrow> dec \<Rightarrow> dec res" where
  "PhotonConversionRate L bondDenomSupply uphotonSupply =
     bindR (must (dSub L (dec_of_int photon_MaxSupply) uphotonSupply)) (\<lambda>remainMintableUphotons.
     if remainMintableUphotons < 0 then Ok 0
     else if bondDenomSupply = 0 then Panic
     else must (dQuo L remainMintableUphotons bondDenomSupply))"

definition photon_rate :: "dec_lib \<Rightarrow> 'x photon_env \<Rightarrow> string \<Rightarrow> 'x \<Rightarrow> dec res" where
  "photon_rate L E bondDenom x =
     PhotonConversionRate L (dec_of_int (GetSupply (peBank E) x bondDenom))
       (dec_of_int (GetSupply (peBank E) x photon_Denom))"

definition photon_ConvertToDenom ::
  "dec_lib \<Rightarrow> coins_lib \<Rightarrow> 'x photon_env \<Rightarrow> 'x \<Rightarrow> deccoin \<Rightarrow> string \<Rightarrow> deccoin res" where
  "photon_ConvertToDenom L C E x coin denom =
     (if dcDenom coin = denom then Ok coin
      else
        bindR (peBondDenom E x) (\<lambda>bondDenom.
        if denom = bondDenom then
          bindR (photon_rate L E denom x) (\<lambda>conversionRate.
          bindR (must (dQuo L (dcAmount coin) conversionRate)) (\<lambda>amount.
          must (NewDecCoinFromDec C denom amount)))
        else Err (ErrText ''error resolving denom'')))"

definition photon_ExtraDenoms :: "'x photon_env \<Rightarrow> 'x \<Rightarrow> string list res" where
  "photon_ExtraDenoms E x = bindR (peBondDenom E x) (\<lambda>bondDenom. Ok [bondDenom])"

definition photon_resolver :: "dec_lib \<Rightarrow> coins_lib \<Rightarrow> 'x photon_env \<Rightarrow> 'x resolver" where
  "photon_resolver L C E = \<lparr>ConvertToDenom = photon_ConvertToDenom L C E, ExtraDenoms = photon_ExtraDenoms E\<rparr>"

text \<open>The photon keeper is a resolver of the fee market.\<close>

interpretation photon_denoms: denom_resolver C "photon_ConvertToDenom L C E" "photon_ExtraDenoms E" for L C E
  by unfold_locales (auto simp: photon_ConvertToDenom_def split: if_splits dest: NewDecCoinFromDec_result)

section \<open>Messages\<close>

record msg_mint_photon =
  mpToAddress :: string
  mpAmount :: coin

definition MsgMintPhoton_ValidateBasic :: "coins_lib \<Rightarrow> addr_lib \<Rightarrow> msg_mint_photon \<Rightarrow> unit res" where
  "MsgMintPhoton_ValidateBasic C A m =
     bindR (orErr ErrInvalidAddress (FromBech32 A (mpToAddress m))) (\<lambda>_.
     bindR (failIf (\<not> CoinValid C (mpAmount m)) ErrInvalidCoins) (\<lambda>_.
     bindR (failIf (\<not> 0 < Amount (mpAmount m)) ErrInvalidCoins) (\<lambda>_.
     failIf (Denom (mpAmount m) \<noteq> app_BondDenom) Photon_ErrBurnInvalidDenom)))"

text \<open>The state is the parameters' key and the rest of the chain; the response is the coin minted and the rate.\<close>

definition MintPhoton ::
  "dec_lib \<Rightarrow> coins_lib \<Rightarrow> 'x photon_env \<Rightarrow> msg_mint_photon \<Rightarrow> photon_params cell \<times> 'x \<Rightarrow>
     ((coin \<times> string) \<times> photon_params cell \<times> 'x) res" where
  "MintPhoton L C E msg = (\<lambda>(st, x).
     bindR (photon_GetParams st) (\<lambda>p.
     bindR (failIf (MintDisabled p) Photon_ErrMintDisabled) (\<lambda>_.
     bindR (peBondDenom E x) (\<lambda>bondDenom.
     bindR (failIf (Denom (mpAmount msg) \<noteq> bondDenom) Photon_ErrBurnInvalidDenom) (\<lambda>_.
     bindR (photon_rate L E bondDenom x) (\<lambda>conversionRate.
     let bondDenomToBurn = mpAmount msg in
     bindR (must (dMul L (dec_of_int (Amount bondDenomToBurn)) conversionRate)) (\<lambda>product.
     let uphotonToMint = dRoundInt L product in
     bindR (failIf (uphotonToMint = 0) Photon_ErrZeroMintPhotons) (\<lambda>_.
     bindR (must (NewCoins C [bondDenomToBurn])) (\<lambda>coinsToBurn.
     bindR (must (NewCoin C photon_Denom uphotonToMint)) (\<lambda>photons.
     bindR (must (NewCoins C [photons])) (\<lambda>coinsToMint.
     bindR (orErr ErrInvalidAddress (FromBech32 (peAddr E) (mpToAddress msg))) (\<lambda>to.
     bindR (SendToModule (peBank E) to photon_ModuleName coinsToBurn x) (\<lambda>x1.
     bindR (BurnCoins (peBank E) photon_ModuleName coinsToBurn x1) (\<lambda>x2.
     bindR (MintCoins (peBank E) photon_ModuleName coinsToMint x2) (\<lambda>x3.
     bindR (SendFromModule (peBank E) photon_ModuleName to coinsToMint x3) (\<lambda>x4.
     bindR (hdR coinsToMint) (\<lambda>minted.
     Ok ((minted, dStr L conversionRate), st, x4))))))))))))))))))"

record msg_photon_update =
  muAuthority :: string
  muParams :: photon_params

definition photon_MsgUpdateParams_ValidateBasic :: "addr_lib \<Rightarrow> msg_photon_update \<Rightarrow> unit res" where
  "photon_MsgUpdateParams_ValidateBasic A m =
     bindR (orErr ErrInvalidAddress (FromBech32 A (muAuthority m))) (\<lambda>_.
     photon_Params_ValidateBasic (muParams m))"

definition photon_UpdateParams ::
  "'x photon_env \<Rightarrow> msg_photon_update \<Rightarrow> photon_params cell \<times> 'x \<Rightarrow> (photon_params cell \<times> 'x) res" where
  "photon_UpdateParams E msg = (\<lambda>(st, x).
     bindR (failIf (peAuthority E \<noteq> muAuthority msg) Gov_ErrInvalidSigner) (\<lambda>_.
     Ok (photon_SetParams (muParams msg) st, x)))"

section \<open>Queries and genesis\<close>

definition photon_ConversionRate :: "dec_lib \<Rightarrow> 'x photon_env \<Rightarrow> 'x \<Rightarrow> string res" where
  "photon_ConversionRate L E x =
     bindR (case peBondDenom E x of Ok d \<Rightarrow> Ok d | Err _ \<Rightarrow> Err (ErrText ''failed to get bond denom'') | Panic \<Rightarrow> Panic)
       (\<lambda>bondDenom. bindR (photon_rate L E bondDenom x) (\<lambda>cr. Ok (dStr L cr)))"

definition photon_InitGenesis :: "photon_params \<Rightarrow> photon_params cell \<Rightarrow> photon_params cell" where
  "photon_InitGenesis p st = photon_SetParams p st"

definition photon_ExportGenesis :: "photon_params cell \<Rightarrow> photon_params res" where
  "photon_ExportGenesis st = photon_GetParams st"

section \<open>The fee decorator\<close>

record photon_fee_tx =
  pxFee :: coins
  pxMsgs :: "string list"

text \<open>A transaction is seen through its fee, if it has one, and the type URLs of its messages.\<close>

datatype photon_tx = PhotonFeeTx photon_fee_tx | PhotonOtherTx

definition AllowsAnyTxFee :: "string list \<Rightarrow> string list \<Rightarrow> bool" where
  "AllowsAnyTxFee msgs txFeeExceptions =
     (if txFeeExceptions \<noteq> [] \<and> hd txFeeExceptions = ''*'' then True
      else fold (\<lambda>msgTypeURL count. if msgTypeURL \<in> set txFeeExceptions then count + 1 else count) msgs (0 :: nat)
             = length msgs)"

definition ValidateFee_AnteHandle ::
  "coins_lib \<Rightarrow> photon_params cell \<Rightarrow> (photon_tx \<Rightarrow> bool \<Rightarrow> 'r res) \<Rightarrow> photon_tx \<Rightarrow> bool \<Rightarrow> 'r res" where
  "ValidateFee_AnteHandle C st next tx simulate =
     (case tx of PhotonOtherTx \<Rightarrow> Err ErrTxDecode
      | PhotonFeeTx feeTx \<Rightarrow>
        let feeCoins = pxFee feeTx in
        if CoinsIsZero C feeCoins then next tx simulate
        else
          bindR (photon_GetParams st) (\<lambda>p.
          if AllowsAnyTxFee (pxMsgs feeTx) (TxFeeExceptions p) then next tx simulate
          else
            bindR (failIf (1 < length feeCoins) Photon_ErrTooManyFeeCoins) (\<lambda>_.
            bindR (hdR feeCoins) (\<lambda>fee.
            if Denom fee \<noteq> photon_Denom then Err Photon_ErrInvalidFeeToken else next tx simulate))))"

section \<open>Correctness\<close>

lemma PhotonConversionRate_zero:
  assumes L: "dec_laws L" and full: "photon_MaxSupply \<le> u"
    and ok: "PhotonConversionRate L (dec_of_int b) (dec_of_int u) = Ok r"
  shows "r = 0"
proof -
  have le: "dec_of_int photon_MaxSupply \<le> dec_of_int u" using full by simp
  obtain m where m: "dSub L (dec_of_int photon_MaxSupply) (dec_of_int u) = Some m"
    "m < 0 \<and> r = 0 \<or> \<not> m < 0 \<and> b \<noteq> 0 \<and> dQuo L m (dec_of_int b) = Some r"
    using ok by (auto simp: PhotonConversionRate_def split: if_splits)
  show ?thesis
  proof (cases "m < 0")
    case True
    with m show ?thesis by simp
  next
    case False
    then have q: "dQuo L 0 (dec_of_int b) = Some r" "b \<noteq> 0" using m le dSub_exact [OF L m(1)] by auto
    have "2 * dec_unit * (\<bar>r\<bar> * \<bar>dec_of_int b\<bar>) \<le> \<bar>dec_of_int b\<bar> * (dec_unit + 2)"
      using dQuo_near [OF L q(1)] by (simp add: abs_mult)
    then have "\<bar>dec_of_int b\<bar> * (2 * dec_unit * \<bar>r\<bar>) \<le> \<bar>dec_of_int b\<bar> * (dec_unit + 2)"
      by (simp add: mult.commute mult.left_commute)
    then have "2 * dec_unit * \<bar>r\<bar> \<le> dec_unit + 2" using q(2) by simp
    then show ?thesis by (simp add: dec_unit_def)
  qed
qed

text \<open>
  Once the maximum supply of photons is reached, converting a gas price into the bond
  denomination divides by a conversion rate of zero and panics; so does the list of all gas
  prices of the fee market, which catches only the errors of the resolver.
\<close>

theorem resolver_panics_at_max_supply:
  assumes L: "dec_laws L" and bond: "peBondDenom E x = Ok denom" and other: "dcDenom coin \<noteq> denom"
    and full: "photon_MaxSupply \<le> GetSupply (peBank E) x photon_Denom"
  shows "photon_ConvertToDenom L C E x coin denom = Panic"
proof (cases "photon_rate L E denom x")
  case (Ok r)
  then have "r = 0" using PhotonConversionRate_zero [OF L full] by (simp add: photon_rate_def)
  then have "dQuo L (dcAmount coin) r = None" using dQuo_nz [OF L] by (cases "dQuo L (dcAmount coin) r") auto
  with Ok show ?thesis using bond other by (simp add: photon_ConvertToDenom_def)
next
  case (Err e)
  then show ?thesis
    by (auto simp: photon_rate_def PhotonConversionRate_def bindR_eq_Err split: if_splits)
next
  case Panic
  then show ?thesis using bond other by (simp add: photon_ConvertToDenom_def)
qed

definition example_photon_env :: "std_state photon_env" where
  "example_photon_env = \<lparr>peBank = std_bank, peBondDenom = (\<lambda>x. Ok ''ulight''), peAddr = std_addr, peAuthority = ''gov''\<rparr>"

definition example_chain :: "int \<Rightarrow> int \<Rightarrow> std_state" where
  "example_chain light photon = \<lparr>xAcc = (\<lambda>_ d. if d = ''ulight'' then light else 0),
     xSup = (\<lambda>d. if d = ''ulight'' then light else photon)\<rparr>"

theorem resolver_panics_at_max_supply_witness:
  "photon_ConvertToDenom std_dec std_coins example_photon_env (example_chain 5000 1000000000000000)
     \<lparr>dcDenom = ''uphoton'', dcAmount = 10000000000000000\<rparr> ''ulight'' = Panic"
  by (rule resolver_panics_at_max_supply [OF std_dec_laws])
    (simp_all add: example_photon_env_def example_chain_def std_bank_def photon_MaxSupply_def photon_Denom_def)

text \<open>What a successful mint computed, step by step.\<close>

lemma MintPhoton_steps:
  assumes "MintPhoton L C E msg (st, x) = Ok ((minted, rate), st', x')"
  obtains p bond r prd burn ph mint to x1 x2 x3 where
    "photon_GetParams st = Ok p" "\<not> MintDisabled p" "peBondDenom E x = Ok bond" "Denom (mpAmount msg) = bond"
    "photon_rate L E bond x = Ok r" "dMul L (dec_of_int (Amount (mpAmount msg))) r = Some prd"
    "dRoundInt L prd \<noteq> 0" "NewCoins C [mpAmount msg] = Some burn"
    "NewCoin C photon_Denom (dRoundInt L prd) = Some ph" "NewCoins C [ph] = Some mint"
    "FromBech32 (peAddr E) (mpToAddress msg) = Some to"
    "SendToModule (peBank E) to photon_ModuleName burn x = Ok x1"
    "BurnCoins (peBank E) photon_ModuleName burn x1 = Ok x2"
    "MintCoins (peBank E) photon_ModuleName mint x2 = Ok x3"
    "SendFromModule (peBank E) photon_ModuleName to mint x3 = Ok x'"
    "minted = hd mint" "mint \<noteq> []" "rate = dStr L r" "st' = st"
  using assms unfolding MintPhoton_def
  by (auto simp: Let_def)

text \<open>
  A mint burns exactly the message's coin from the signer and mints the photons that the
  response names, that is burned amount times conversion rate, rounded, to the same account:
  the two supplies change by exactly these amounts, and no other supply and no other account
  changes, that of the module included.
\<close>

lemma MintPhoton_supplies:
  assumes L: "dec_laws L" and C: "coins_laws C" and B: "bank_laws C (peBank E)"
    and ok: "MintPhoton L C E msg (st, x) = Ok ((minted, rate), st', x')"
  shows "\<exists>r prd. photon_rate L E (Denom (mpAmount msg)) x = Ok r \<and>
     dMul L (dec_of_int (Amount (mpAmount msg))) r = Some prd \<and>
     minted = \<lparr>Denom = photon_Denom, Amount = dRoundInt L prd\<rparr> \<and> 0 < Amount minted \<and>
     (\<forall>d. GetSupply (peBank E) x' d = GetSupply (peBank E) x d
        - (if d = Denom (mpAmount msg) then Amount (mpAmount msg) else 0)
        + (if d = photon_Denom then Amount minted else 0)) \<and>
     (\<exists>to. FromBech32 (peAddr E) (mpToAddress msg) = Some to \<and>
        (\<forall>a d. AccBalance (peBank E) x' a d = AccBalance (peBank E) x a d
          + (if a = to then (if d = photon_Denom then Amount minted else 0)
               - (if d = Denom (mpAmount msg) then Amount (mpAmount msg) else 0) else 0)))"
proof -
  obtain p bond r prd burn ph mint to x1 x2 x3 where s:
    "peBondDenom E x = Ok bond" "Denom (mpAmount msg) = bond"
    "photon_rate L E bond x = Ok r" "dMul L (dec_of_int (Amount (mpAmount msg))) r = Some prd"
    "dRoundInt L prd \<noteq> 0" "NewCoins C [mpAmount msg] = Some burn"
    "NewCoin C photon_Denom (dRoundInt L prd) = Some ph" "NewCoins C [ph] = Some mint"
    "FromBech32 (peAddr E) (mpToAddress msg) = Some to"
    "SendToModule (peBank E) to photon_ModuleName burn x = Ok x1"
    "BurnCoins (peBank E) photon_ModuleName burn x1 = Ok x2"
    "MintCoins (peBank E) photon_ModuleName mint x2 = Ok x3"
    "SendFromModule (peBank E) photon_ModuleName to mint x3 = Ok x'"
    "minted = hd mint" "mint \<noteq> []"
    using MintPhoton_steps [OF ok] by metis
  have ph: "ph = \<lparr>Denom = photon_Denom, Amount = dRoundInt L prd\<rparr>" "0 < dRoundInt L prd"
    using NewCoin_result [OF C s(7)] s(5) by auto
  have "CoinsIsValid C mint" "\<And>d. amt mint d = (if d = photon_Denom then dRoundInt L prd else 0)"
    using NewCoins_result [OF C s(8)] ph by (simp_all add: amt_Cons)
  note mint = this
  have minted: "minted = ph" using single_coin [OF C mint(1) _ mint(2) ph(2)] s(14,15) ph by simp
  have "CoinsIsValid C burn"
    "\<And>d. amt burn d = (if d = Denom (mpAmount msg) then Amount (mpAmount msg) else 0)"
    using NewCoins_result [OF C s(6)] by (simp_all add: amt_Cons)
  note burn = this
  note moves = SendToModule_result [OF B burn(1) s(10)] BurnCoins_result [OF B burn(1) s(11)]
    MintCoins_result [OF B mint(1) s(12)] SendFromModule_result [OF B mint(1) s(13)]
  have "\<forall>d. GetSupply (peBank E) x' d = GetSupply (peBank E) x d
        - (if d = Denom (mpAmount msg) then Amount (mpAmount msg) else 0)
        + (if d = photon_Denom then Amount minted else 0)"
    using moves minted ph(1) by (simp add: burn(2) mint(2))
  moreover have "\<forall>a d. AccBalance (peBank E) x' a d = AccBalance (peBank E) x a d
          + (if a = to then (if d = photon_Denom then Amount minted else 0)
               - (if d = Denom (mpAmount msg) then Amount (mpAmount msg) else 0) else 0)"
    using moves minted ph(1) by (auto simp: burn(2) mint(2))
  ultimately show ?thesis using s(2-4,9) minted ph by auto
qed

text \<open>
  Rounding: at the conversion rate of a chain with fewer than \<open>10^18 - 1\<close> bond units, burning at
  most the bond supply gives at most what remains to be minted.
\<close>

lemma rate_times_burn_bound:
  assumes L: "dec_laws L" and rate: "PhotonConversionRate L (dec_of_int b) (dec_of_int u) = Ok r"
    and b: "0 < b" "b \<le> dec_unit - 2" and u: "u \<le> photon_MaxSupply" and n: "0 \<le> n" "n \<le> b"
    and prd: "dMul L (dec_of_int n) r = Some prd"
  shows "dRoundInt L prd \<le> photon_MaxSupply - u"
proof -
  let ?R = "photon_MaxSupply - u" and ?U = dec_unit
  have prd_eq: "prd = n * r" by (rule dMul_int_left [OF L prd])
  have "dSub L (dec_of_int photon_MaxSupply) (dec_of_int u) = Some (dec_of_int ?R)"
    using rate dSub_exact [OF L, of "dec_of_int photon_MaxSupply" "dec_of_int u"]
    by (auto simp: PhotonConversionRate_def dec_of_int_def left_diff_distrib)
  moreover have "\<not> dec_of_int ?R < 0" using u by (simp add: not_less)
  ultimately have q: "dQuo L (dec_of_int ?R) (dec_of_int b) = Some r"
    using rate b by (simp add: PhotonConversionRate_def)
  have r0: "0 \<le> r" using dQuo_nonneg [OF L q] u b by simp
  have "2 * ?U * \<bar>r * dec_of_int b - dec_of_int ?R * ?U\<bar> \<le> dec_of_int b * (?U + 2)"
    using dQuo_near [OF L q] b by simp
  then have "2 * ?U * (r * dec_of_int b - dec_of_int ?R * ?U) \<le> dec_of_int b * (?U + 2)"
    by (rule order_trans [rotated]) (intro mult_left_mono, auto)
  then have "?U * (2 * ?U * (r * b - ?R * ?U)) \<le> ?U * (b * (?U + 2))"
    by (simp add: dec_of_int_def algebra_simps)
  then have bound: "2 * ?U * (r * b - ?R * ?U) \<le> b * (?U + 2)" by simp
  have "b * (?U + 2) \<le> (?U - 2) * (?U + 2)" using b by (intro mult_right_mono) auto
  also have "\<dots> < ?U * ?U" by (simp add: algebra_simps)
  finally have "2 * ?U * (r * b - ?R * ?U) < ?U * ?U" using bound by linarith
  then have "?U * (2 * (r * b - ?R * ?U)) < ?U * ?U" by (simp add: algebra_simps)
  then have half: "2 * (r * b - ?R * ?U) < ?U" by simp
  have "n * r \<le> b * r" using n r0 by (intro mult_right_mono) auto
  then have prod_b: "2 * (prd - ?R * ?U) < ?U" using half prd_eq by (simp add: mult.commute)
  have near: "2 * \<bar>dRoundInt L prd * ?U - prd\<bar> \<le> ?U"
    using L by (simp add: dec_laws_def dec_round_laws_def)
  have "dRoundInt L prd * ?U < (?R + 1) * ?U" using near prod_b by (simp add: algebra_simps abs_if split: if_splits)
  then show ?thesis by simp
qed

text \<open>
  C19: no mint exceeds the maximum supply of photons: if the supply is within it before, it is
  within it after, despite the two roundings (for a bond supply below \<open>10^18 - 1\<close> units, a
  hundred times that of the chain, and a burn that does not exceed the bond supply).
\<close>

theorem MintPhoton_max_supply:
  assumes L: "dec_laws L" and C: "coins_laws C" and B: "bank_laws C (peBank E)"
    and ok: "MintPhoton L C E msg (st, x) = Ok ((minted, rate), st', x')"
    and b: "GetSupply (peBank E) x (Denom (mpAmount msg)) = b" "b \<le> dec_unit - 2"
    and n: "0 < Amount (mpAmount msg)" "Amount (mpAmount msg) \<le> b"
    and bond: "Denom (mpAmount msg) \<noteq> photon_Denom"
    and u: "GetSupply (peBank E) x photon_Denom \<le> photon_MaxSupply"
  shows "GetSupply (peBank E) x' photon_Denom \<le> photon_MaxSupply"
proof -
  obtain r prd where s: "photon_rate L E (Denom (mpAmount msg)) x = Ok r"
      "dMul L (dec_of_int (Amount (mpAmount msg))) r = Some prd"
      "minted = \<lparr>Denom = photon_Denom, Amount = dRoundInt L prd\<rparr>"
      "GetSupply (peBank E) x' photon_Denom = GetSupply (peBank E) x photon_Denom + Amount minted"
    using MintPhoton_supplies [OF L C B ok] bond by auto
  have "dRoundInt L prd \<le> photon_MaxSupply - GetSupply (peBank E) x photon_Denom"
    by (rule rate_times_burn_bound [OF L, of b _ r "Amount (mpAmount msg)"])
      (use s(1,2) b n u in \<open>simp_all add: photon_rate_def\<close>)
  with s(3,4) show ?thesis by simp
qed

lemma example_mint:
  "\<exists>minted rate st' x'. MintPhoton std_dec std_coins example_photon_env
     \<lparr>mpToAddress = ''h'', mpAmount = \<lparr>Denom = ''ulight'', Amount = 50\<rparr>\<rparr>
     (Value photon_DefaultParams, example_chain 5000 999999999999000) = Ok ((minted, rate), st', x')"
  by (simp add: MintPhoton_def Let_def photon_GetParams_def photon_DefaultParams_def photon_NewParams_def example_photon_env_def
      example_chain_def photon_rate_def PhotonConversionRate_def photon_MaxSupply_def photon_Denom_def std_bank_defs
      dec_of_int_def dec_unit_def round_div_def std_coins_def std_valid_def std_addr_def amt_Cons photon_ModuleName_def)

theorem MintPhoton_max_supply_witness:
  "\<exists>minted rate st' x'. MintPhoton std_dec std_coins example_photon_env
     \<lparr>mpToAddress = ''h'', mpAmount = \<lparr>Denom = ''ulight'', Amount = 50\<rparr>\<rparr>
     (Value photon_DefaultParams, example_chain 5000 999999999999000) = Ok ((minted, rate), st', x') \<and>
     GetSupply std_bank x' photon_Denom \<le> photon_MaxSupply"
proof -
  obtain minted rate st' x' where ok: "MintPhoton std_dec std_coins example_photon_env
     \<lparr>mpToAddress = ''h'', mpAmount = \<lparr>Denom = ''ulight'', Amount = 50\<rparr>\<rparr>
     (Value photon_DefaultParams, example_chain 5000 999999999999000) = Ok ((minted, rate), st', x')"
    using example_mint by blast
  have "bank_laws std_coins (peBank example_photon_env)" by (simp add: example_photon_env_def std_bank_laws)
  from MintPhoton_max_supply [OF std_dec_laws std_coins_laws this ok, of 5000] ok show ?thesis
    by (simp add: example_photon_env_def std_bank_def example_chain_def dec_unit_def photon_Denom_def photon_MaxSupply_def)
qed

lemma AllowsAnyTxFee_iff:
  "AllowsAnyTxFee msgs ex \<longleftrightarrow> (ex \<noteq> [] \<and> hd ex = ''*'') \<or> set msgs \<subseteq> set ex"
proof -
  have "fold (\<lambda>m c. if m \<in> set ex then c + 1 else c) msgs k = k + length (filter (\<lambda>m. m \<in> set ex) msgs)" for k :: nat
    by (induction msgs arbitrary: k) auto
  moreover have "length (filter P ms) = length ms \<longleftrightarrow> (\<forall>m \<in> set ms. P m)" for P and ms :: "string list"
  proof (induction ms)
    case (Cons m ms)
    have "length (filter P ms) \<noteq> Suc (length ms)" using length_filter_le [of P ms] by linarith
    with Cons show ?case by simp
  qed simp
  ultimately show ?thesis by (auto simp: AllowsAnyTxFee_def)
qed

text \<open>
  The fee decorator lets a transaction through exactly when it pays no fee, or all its
  messages are excepted (or the exceptions start with the wildcard), or its only fee coin is
  photon.
\<close>

theorem ValidateFee_iff:
  assumes "photon_GetParams st = Ok p" and "CoinsIsZero C []"
  shows "ValidateFee_AnteHandle C st next (PhotonFeeTx t) simulate =
    (if CoinsIsZero C (pxFee t) \<or> (TxFeeExceptions p \<noteq> [] \<and> hd (TxFeeExceptions p) = ''*'') \<or>
        set (pxMsgs t) \<subseteq> set (TxFeeExceptions p) \<or> map Denom (pxFee t) = [photon_Denom]
     then next (PhotonFeeTx t) simulate
     else if 1 < length (pxFee t) then Err Photon_ErrTooManyFeeCoins else Err Photon_ErrInvalidFeeToken)"
  using assms by (cases "pxFee t") (auto simp: ValidateFee_AnteHandle_def AllowsAnyTxFee_iff Let_def)

theorem ValidateFee_iff_witness:
  "ValidateFee_AnteHandle std_coins (Value photon_DefaultParams) (\<lambda>t s. Ok ())
     (PhotonFeeTx \<lparr>pxFee = [\<lparr>Denom = ''ulight'', Amount = 5\<rparr>], pxMsgs = [''/cosmos.bank.v1beta1.MsgSend'']\<rparr>) False
   = Err Photon_ErrInvalidFeeToken"
  by (subst ValidateFee_iff [of _ photon_DefaultParams])
    (simp_all add: photon_GetParams_def std_coins_def photon_DefaultParams_def photon_NewParams_def photon_Denom_def)

end
