(* ===== verification/Dynamicfee_Ante.thy ===== *)
theory Dynamicfee_Ante
  imports Dynamicfee_Keeper
begin

text \<open>
  \<open>x/dynamicfee/ante/fee.go\<close> and \<open>x/dynamicfee/post/post.go\<close>: the fee check and deduction before
  a transaction runs, its priority, and the update of the fee market after it. The rest of the
  chain state is of type \<open>'x\<close>; accounts, fee grants, the bank and the gas meter are parameters.
\<close>

section \<open>Transactions and context\<close>

record fee_tx =
  tGas :: u64
  tFee :: coins
  tPayer :: addr
  tGranter :: "addr option"

datatype tx = FeeTx fee_tx | NotFeeTx

record 'x ante_ctx =
  aBlock :: block_ctx
  aMinGasPrices :: deccoins
  aPriority :: int
  aStore :: store
  aExt :: 'x

type_synonym 'x ante_next = "'x ante_ctx \<Rightarrow> tx \<Rightarrow> bool \<Rightarrow> 'x ante_ctx res"

text \<open>
  \<open>UseGrantedFees\<close> is \<open>None\<close> when the app has no fee grant keeper; \<open>GetAccount\<close> gives the
  address stored in the account.
\<close>

record 'x fee_env =
  feUseGrantedFees :: "(addr \<Rightarrow> addr \<Rightarrow> coins \<Rightarrow> tx \<Rightarrow> 'x \<Rightarrow> 'x res) option"
  feGetAccount :: "'x \<Rightarrow> addr \<Rightarrow> addr option"
  feConsumeGas :: "nat \<Rightarrow> 'x \<Rightarrow> 'x res"
  feBank :: "'x bank_lib"
  feResolver :: "'x resolver option"

definition BankSendGasConsumption :: nat where "BankSendGasConsumption = 385"

definition FeeCollectorName :: string where "FeeCollectorName = ''fee_collector''"

section \<open>Fee check, priority and deduction\<close>

definition CheckTxFee :: "dec_lib \<Rightarrow> coins_lib \<Rightarrow> deccoin \<Rightarrow> coin \<Rightarrow> int \<Rightarrow> unit res" where
  "CheckTxFee L C gasPrice feeCoin feeGas =
     (if dcAmount gasPrice = 0 then Ok ()
      else
        let glDec = dec_of_int feeGas in
        bindR (must (dMul L (dcAmount gasPrice) glDec)) (\<lambda>limitFee.
        bindR (must (dCeil L limitFee)) (\<lambda>ceil.
        bindR (must (NewCoin C (dcDenom gasPrice) (dRoundInt L ceil))) (\<lambda>requiredFee.
        bindR (must (CoinIsGTE C feeCoin requiredFee)) (\<lambda>enough.
        failIf (\<not> enough) ErrInsufficientFee)))))"

definition gasPricePrecision :: nat where "gasPricePrecision = 6"

definition GetTxPriority :: "dec_lib \<Rightarrow> coin \<Rightarrow> int \<Rightarrow> deccoin \<Rightarrow> int res" where
  "GetTxPriority L fee gasLimit currentGasPrice =
     (if gasLimit = 0 then Ok 0
      else if dcAmount currentGasPrice = 0 then must (iInt64 L (Amount fee))
      else
        bindR (must (dQuoInt64 L (dec_of_int (Amount fee)) gasLimit)) (\<lambda>effectiveGasPrice.
        bindR (must (dQuo L effectiveGasPrice (dcAmount currentGasPrice))) (\<lambda>normalizedGasPrice.
        bindR (must (dMulInt64 L normalizedGasPrice (10 ^ gasPricePrecision))) (\<lambda>scaledGasPrice.
        if dec_of_int max_int64 \<le> scaledGasPrice then Ok max_int64
        else if scaledGasPrice \<le> dec_one then Ok 0
        else must (iInt64 L (dTruncateInt L scaledGasPrice))))))"

definition DeductFees :: "coins_lib \<Rightarrow> 'x fee_env \<Rightarrow> tx \<Rightarrow> coin \<Rightarrow> 'x \<Rightarrow> 'x res" where
  "DeductFees C E sdkTx providedFee x =
     (case sdkTx of NotFeeTx \<Rightarrow> Err ErrTxDecode
      | FeeTx feeTx \<Rightarrow>
        bindR (case tGranter feeTx of
            None \<Rightarrow> Ok (tPayer feeTx, x)
          | Some feeGranter \<Rightarrow>
              (case feUseGrantedFees E of
                 None \<Rightarrow> Err ErrInvalidRequest
               | Some useGrantedFees \<Rightarrow>
                   if feeGranter \<noteq> tPayer feeTx \<and> \<not> CoinIsNil C providedFee
                   then bindR (must (NewCoins C [providedFee])) (\<lambda>fees.
                        bindR (useGrantedFees feeGranter (tPayer feeTx) fees sdkTx x) (\<lambda>x.
                        Ok (feeGranter, x)))
                   else Ok (feeGranter, x))) (\<lambda>(deductFeesFrom, x).
        bindR (orErr ErrUnknownAddress (feGetAccount E x deductFeesFrom)) (\<lambda>acc.
        bindR (must (NewCoins C [providedFee])) (\<lambda>fees.
        case SendToModule (feBank E) acc FeeCollectorName fees x of
          Ok x \<Rightarrow> Ok x
        | Err _ \<Rightarrow> Err ErrInsufficientFunds
        | Panic \<Rightarrow> Panic))))"

section \<open>The ante handler\<close>

definition anteHandle :: "dec_lib \<Rightarrow> coins_lib \<Rightarrow> 'x fee_env \<Rightarrow> 'x ante_next \<Rightarrow> 'x ante_next" where
  "anteHandle L C E next ctx tx simulate =
     (if cBlockHeight (aBlock ctx) = 0 then next ctx tx simulate
      else case tx of NotFeeTx \<Rightarrow> Err ErrTxDecode
      | FeeTx feeTx \<Rightarrow>
        bindR (failIf (\<not> simulate \<and> cBlockHeight (aBlock ctx) > 0 \<and> tGas feeTx = 0) ErrInvalidGasLimit) (\<lambda>_.
        bindR (GetParams (aStore ctx)) (\<lambda>p.
        if \<not> pEnabled p then next ctx tx simulate
        else
          let feeCoins = tFee feeTx; gas = tGas feeTx in
          bindR (failIf (feeCoins = [] \<and> \<not> simulate) Dynamicfee_ErrNoFeeCoins) (\<lambda>_.
          bindR (failIf (1 < length feeCoins) Dynamicfee_ErrTooManyFeeCoins) (\<lambda>_.
          bindR (must (NewCoin C (pFeeDenom p) 0)) (\<lambda>zeroCoin.
          let payCoin = (if \<not> simulate then hd feeCoins else zeroCoin);
              feeGas = int64_of_u64 gas in
          bindR (GetMinGasPrice C (feResolver E) (aExt ctx) (aStore ctx) (Denom payCoin)) (\<lambda>minGasPrice.
          bindR (must (NewDecCoins C [minGasPrice])) (\<lambda>minGasPrices.
          let ctx1 = ctx\<lparr>aMinGasPrices := minGasPrices\<rparr> in
          bindR (if \<not> simulate then CheckTxFee L C minGasPrice payCoin feeGas else Ok ()) (\<lambda>_.
          bindR (DeductFees C E tx payCoin (aExt ctx1)) (\<lambda>x2.
          bindR (if simulate then feConsumeGas E BankSendGasConsumption x2 else Ok x2) (\<lambda>x3.
          let ctx3 = ctx1\<lparr>aExt := x3\<rparr> in
          bindR (if Denom payCoin = pFeeDenom p
             then GetTxPriority L payCoin (int64_of_u64 gas) minGasPrice
             else
               bindR (GetMinGasPrice C (feResolver E) (aExt ctx3) (aStore ctx3) (pFeeDenom p)) (\<lambda>baseGasPrice.
               bindR (must (dQuo L (dcAmount baseGasPrice) (dcAmount minGasPrice))) (\<lambda>factor.
               bindR (must (dMul L (dec_of_int (Amount payCoin)) factor)) (\<lambda>converted.
               bindR (must (NewCoin C (pFeeDenom p) (dTruncateInt L converted))) (\<lambda>feeCoin.
               GetTxPriority L feeCoin (int64_of_u64 gas) baseGasPrice))))) (\<lambda>priority.
          next (ctx3\<lparr>aPriority := priority\<rparr>) tx simulate))))))))))))"

definition AnteHandle ::
  "dec_lib \<Rightarrow> coins_lib \<Rightarrow> 'x fee_env \<Rightarrow> ('x ante_next \<Rightarrow> 'x ante_next) option \<Rightarrow> 'x ante_next \<Rightarrow> 'x ante_next" where
  "AnteHandle L C E fallback next ctx tx simulate =
     bindR (GetParams (aStore ctx)) (\<lambda>p.
     if pEnabled p then anteHandle L C E next ctx tx simulate
     else case fallback of Some f \<Rightarrow> f next ctx tx simulate | None \<Rightarrow> next ctx tx simulate)"

section \<open>The post handler\<close>

definition PostHandle ::
  "u64 \<Rightarrow> (block_ctx \<Rightarrow> store \<Rightarrow> 'r res) \<Rightarrow> block_ctx \<Rightarrow> store \<Rightarrow> 'r res" where
  "PostHandle gasConsumed next ctx st =
     (if cBlockHeight ctx = 0 then next ctx st
      else
        bindR (GetParams st) (\<lambda>p.
        if \<not> pEnabled p then next ctx st
        else
          bindR (GetEnabledHeight st) (\<lambda>enabledHeight.
          if cBlockHeight ctx \<le> enabledHeight then next ctx st
          else
            bindR (GetState st) (\<lambda>s.
            let maxBlockGas = GetMaxBlockGas ctx p in
            bindR (Update gasConsumed maxBlockGas s) (\<lambda>s'.
            next ctx (SetState s' st))))))"

section \<open>Fee check and priority\<close>

text \<open>
  C20: for a non-negative gas limit and price, the fee is accepted exactly when its amount is
  at least price times gas (rounded up), and refused otherwise with
  \<open>ErrInsufficientFee\<close>: no accepted transaction underpays.
\<close>

theorem CheckTxFee_accepts_iff:
  assumes L: "dec_laws L" and C: "coins_laws C"
    and p: "0 < dcAmount price" and g: "0 \<le> feeGas" and fit: "dcAmount price * dec_of_int feeGas < dec_bound"
    and d: "Denom fee = dcDenom price" and nc: "\<And>n. 0 \<le> n \<Longrightarrow> NewCoin C (dcDenom price) n \<noteq> None"
  shows "CheckTxFee L C price fee feeGas =
    (if dcAmount price * feeGas \<le> Amount fee * dec_unit then Ok () else Err ErrInsufficientFee)"
proof -
  let ?x = "dcAmount price * feeGas"
  have x0: "0 \<le> ?x" using p g by simp
  have "\<bar>dcAmount price * dec_of_int feeGas\<bar> < dec_bound" using p g fit by simp
  then obtain l where l: "dMul L (dcAmount price) (dec_of_int feeGas) = Some l"
    using dMul_total [OF L] by blast
  have l_eq: "l = ?x" by (rule dMul_exact [OF L l]) (simp add: dec_of_int_def)
  have "?x * 1 \<le> ?x * dec_unit" using x0 by (intro mult_left_mono) (simp_all add: dec_unit_def)
  then have "\<bar>l\<bar> < dec_bound" using l_eq x0 fit by (simp add: dec_of_int_def mult.assoc)
  then obtain c where c: "dCeil L l = Some c" using dCeil_total [OF L] by blast
  then obtain n where n: "c = dec_of_int n" "l \<le> c" "c < l + dec_unit"
    using dCeil_result [OF L] by blast
  have n0: "0 \<le> n" using n l_eq x0 by (metis dec_of_int_nonneg order_trans)
  then obtain req where req: "NewCoin C (dcDenom price) n = Some req" using nc by blast
  then have req_eq: "req = \<lparr>Denom = dcDenom price, Amount = n\<rparr>" using NewCoin_result [OF C] by blast
  have "n \<le> Amount fee \<longleftrightarrow> ?x \<le> Amount fee * dec_unit"
  proof
    assume "n \<le> Amount fee"
    moreover have "?x \<le> n * dec_unit" using n l_eq by (simp add: dec_of_int_def)
    ultimately show "?x \<le> Amount fee * dec_unit" by (rule le_dec_unit_trans [rotated])
  next
    assume "?x \<le> Amount fee * dec_unit"
    then have "dec_of_int n < dec_of_int (Amount fee + 1)"
      using n l_eq by (simp add: dec_of_int_def algebra_simps)
    then show "n \<le> Amount fee" by simp
  qed
  then show ?thesis
    using p l c n(1) req req_eq d
    by (simp add: CheckTxFee_def Let_def dRoundInt_int [OF L] CoinIsGTE_eq [OF C] failIf_def)
qed

theorem CheckTxFee_accepts_iff_witness:
  "CheckTxFee std_dec std_coins \<lparr>dcDenom = ''uphoton'', dcAmount = 10000000000000000\<rparr>
     \<lparr>Denom = ''uphoton'', Amount = 2000\<rparr> 200000 = Ok ()"
  using CheckTxFee_accepts_iff [OF std_dec_laws std_coins_laws,
      of "\<lparr>dcDenom = ''uphoton'', dcAmount = 10000000000000000\<rparr>" 200000 "\<lparr>Denom = ''uphoton'', Amount = 2000\<rparr>"]
  by (simp add: dec_bound_def dec_of_int_def dec_unit_def std_coins_def)

lemma dQuo_bound_any:
  assumes L: "dec_laws L" and q: "dQuo L a b = Some c" and b: "0 < b"
  shows "\<bar>c\<bar> \<le> \<bar>a\<bar> * dec_unit + 1"
proof -
  have "2 * dec_unit * \<bar>c * b - a * dec_unit\<bar> \<le> b * (dec_unit + 2)"
    using dQuo_near [OF L q] b by simp
  also have "\<dots> \<le> b * (2 * dec_unit)"
    using b by (intro mult_left_mono) (auto simp: dec_unit_def)
  finally have "\<bar>c * b - a * dec_unit\<bar> \<le> b" by (simp add: dec_unit_def)
  then have "\<bar>c * b\<bar> \<le> \<bar>a * dec_unit\<bar> + b" by linarith
  then have "\<bar>c\<bar> * b \<le> \<bar>a\<bar> * dec_unit + b" using b by (simp add: abs_mult)
  moreover have "\<bar>a\<bar> * dec_unit * 1 \<le> \<bar>a\<bar> * dec_unit * b" using b by (intro mult_left_mono) auto
  ultimately have "\<bar>c\<bar> * b \<le> (\<bar>a\<bar> * dec_unit + 1) * b" unfolding distrib_right by linarith
  then show ?thesis using b by simp
qed

lemma dQuoInt64_eq:
  "dec_laws L \<Longrightarrow> 0 \<le> a \<Longrightarrow> 0 < n \<Longrightarrow> dQuoInt64 L a n = Some (a div n)"
proof -
  assume L: "dec_laws L" and a: "0 \<le> a" and n: "0 < n"
  obtain c where c: "dQuoInt64 L a n = Some c"
    using L n unfolding dec_laws_def dec_quo_laws_def by (metis not_Some_eq less_irrefl)
  then have "c = sgn a * sgn n * (\<bar>a\<bar> div \<bar>n\<bar>)" using L by (simp add: dec_laws_def dec_quo_laws_def)
  with c a n show ?thesis by (cases "a = 0") auto
qed

text \<open>
  For a fee that fits an \<open>int64\<close> the priority is always computed (no division by zero, no
  overflow, whatever the gas limit and the price), and it is an \<open>int64\<close> that is not negative.
\<close>

theorem GetTxPriority_total:
  assumes L: "dec_laws L" and fee: "0 \<le> Amount fee" "Amount fee \<le> max_int64"
    and g: "0 \<le> gasLimit" and p: "0 \<le> dcAmount price"
  shows "succeeds (GetTxPriority L fee gasLimit price) (\<lambda>n. 0 \<le> n \<and> n \<le> max_int64)"
proof (cases "gasLimit = 0 \<or> dcAmount price = 0")
  case True
  then show ?thesis using fee
    by (auto simp: GetTxPriority_def iInt64_eq [OF L] in_int64_def min_int64_def max_int64_def)
next
  case False
  let ?fee = "dec_of_int (Amount fee)"
  let ?eff = "?fee div gasLimit"
  have pos: "0 < gasLimit" "0 < dcAmount price" using False g p by simp_all
  have fee_b: "0 \<le> ?fee" "?fee \<le> 2 ^ 63 * 10 ^ 18"
    using fee by (simp_all add: dec_of_int_def dec_unit_def max_int64_def)
  have "?fee * 1 \<le> ?fee * gasLimit" using fee_b(1) pos by (intro mult_left_mono) auto
  then have "?eff \<le> ?fee" using zdiv_mono1 [of ?fee "?fee * gasLimit" gasLimit] pos by simp
  then have eff: "0 \<le> ?eff" "\<bar>?eff\<bar> \<le> 2 ^ 63 * 10 ^ 18"
    using fee_b pos by (simp_all add: pos_imp_zdiv_nonneg_iff)
  have "\<bar>?eff * dec_unit\<bar> < dec_bound"
    by (rule abs_mult_less [OF eff(2), of _ "10 ^ 18"]) (simp_all add: dec_unit_def dec_bound_def)
  then obtain q where q: "dQuo L ?eff (dcAmount price) = Some q"
    using dQuo_total [OF L] pos(2) by (metis less_irrefl)
  have "\<bar>q\<bar> \<le> 2 ^ 63 * 10 ^ 18 * 10 ^ 18 + 1"
    using dQuo_bound_any [OF L q pos(2)] eff(2) by (simp add: dec_unit_def)
  then have "\<bar>q * 10 ^ gasPricePrecision\<bar> < dec_bound"
    by (rule abs_mult_less [of _ _ _ "10 ^ 6"]) (simp_all add: gasPricePrecision_def dec_bound_def)
  then have m: "dMulInt64 L q (10 ^ gasPricePrecision) = Some (q * 10 ^ gasPricePrecision)"
    using dMulInt64_total [OF L] by blast
  define s where "s = q * 10 ^ gasPricePrecision"
  have trunc: "0 \<le> dTruncateInt L s \<and> dTruncateInt L s \<le> max_int64"
    if "dec_one < s" "s < dec_of_int max_int64"
  proof -
    have s0: "0 \<le> s" using that(1) dec_of_int_nonneg [of 1] by linarith
    moreover have "s div dec_unit \<le> dec_of_int max_int64 div dec_unit" using that(2) by (intro zdiv_mono1) auto
    ultimately show ?thesis using dTruncateInt_nonneg [OF L] by (simp add: dec_of_int_def pos_imp_zdiv_nonneg_iff)
  qed
  show ?thesis
    using False pos dQuoInt64_eq [OF L fee_b(1) pos(1)] q m trunc
    by (auto simp: GetTxPriority_def s_def [symmetric] iInt64_eq [OF L] in_int64_def min_int64_def max_int64_def not_le)
qed

theorem GetTxPriority_total_witness:
  "succeeds (GetTxPriority std_dec \<lparr>Denom = ''uphoton'', Amount = 4000\<rparr> 200000
      \<lparr>dcDenom = ''uphoton'', dcAmount = 10000000000000000\<rparr>) (\<lambda>n. 0 \<le> n \<and> n \<le> max_int64)"
  by (rule GetTxPriority_total [OF std_dec_laws]) (simp_all add: max_int64_def)

section \<open>What the ante handler guarantees\<close>

lemma CheckTxFee_pays:
  assumes L: "dec_laws L" and C: "coins_laws C" and ok: "CheckTxFee L C price fee feeGas = Ok ()"
  shows "dcAmount price = 0 \<or> (Denom fee = dcDenom price \<and> dcAmount price * feeGas \<le> Amount fee * dec_unit)"
proof (cases "dcAmount price = 0")
  case False
  with ok obtain l c req where steps: "dMul L (dcAmount price) (dec_of_int feeGas) = Some l" "dCeil L l = Some c"
      "NewCoin C (dcDenom price) (dRoundInt L c) = Some req" "CoinIsGTE C fee req = Some True"
    by (auto simp: CheckTxFee_def Let_def)
  have l: "l = dcAmount price * feeGas" by (rule dMul_exact [OF L steps(1)]) (simp add: dec_of_int_def)
  obtain n where n: "c = dec_of_int n" "l \<le> c" using dCeil_result [OF L steps(2)] by blast
  then have "req = \<lparr>Denom = dcDenom price, Amount = n\<rparr>"
    using NewCoin_result [OF C steps(3)] L by simp
  with steps(4) have "Denom fee = dcDenom price" "n \<le> Amount fee"
    by (auto simp: CoinIsGTE_eq [OF C] split: if_splits)
  moreover have "dcAmount price * feeGas \<le> n * dec_unit" using n l by (simp add: dec_of_int_def)
  ultimately show ?thesis using le_dec_unit_trans by blast
qed simp

lemma DeductFees_collects:
  assumes C: "coins_laws C" and B: "bank_laws C (feBank E)" and t: "tGranter t = None"
    and ok: "DeductFees C E (FeeTx t) fee x = Ok x'"
  shows "\<exists>acc. feGetAccount E x (tPayer t) = Some acc \<and> (\<forall>c d. AccBalance (feBank E) x' c d = AccBalance (feBank E) x c d
      - (if c = acc \<and> d = Denom fee then Amount fee else 0)
      + (if c = ModuleAddr (feBank E) FeeCollectorName \<and> d = Denom fee then Amount fee else 0))"
    and "GetSupply (feBank E) x' = GetSupply (feBank E) x"
proof -
  from ok t obtain acc fees where acc: "feGetAccount E x (tPayer t) = Some acc"
      "NewCoins C [fee] = Some fees" "SendToModule (feBank E) acc FeeCollectorName fees x = Ok x'"
    by (auto simp: DeductFees_def split: res.splits)
  have fees: "CoinsIsValid C fees" "amt fees d = (if d = Denom fee then Amount fee else 0)" for d
    using NewCoins_result [OF C acc(2)] by (simp_all add: amt_Cons)
  note sent = SendToModule_result [OF B fees(1) acc(3)]
  show "\<exists>acc. feGetAccount E x (tPayer t) = Some acc \<and> (\<forall>c d. AccBalance (feBank E) x' c d = AccBalance (feBank E) x c d
      - (if c = acc \<and> d = Denom fee then Amount fee else 0)
      + (if c = ModuleAddr (feBank E) FeeCollectorName \<and> d = Denom fee then Amount fee else 0))"
    using sent fees(2) acc(1) by (intro exI [of _ acc]) simp
  from sent show "GetSupply (feBank E) x' = GetSupply (feBank E) x" by simp
qed

lemma AnteHandle_collects:
  assumes L: "dec_laws L" and C: "coins_laws C" and B: "bank_laws C (feBank E)"
    and p: "GetParams (aStore ctx) = Ok p" "pEnabled p" and h: "cBlockHeight (aBlock ctx) \<noteq> 0"
    and t: "tGranter t = None" and ok: "AnteHandle L C E fallback next ctx (FeeTx t) False = Ok r"
  shows "\<exists>ctx' fee price. next ctx' (FeeTx t) False = Ok r \<and> tFee t = [fee] \<and>
    GetMinGasPrice C (feResolver E) (aExt ctx) (aStore ctx) (Denom fee) = Ok price \<and>
    (dcAmount price = 0 \<or> dcAmount price * int64_of_u64 (tGas t) \<le> Amount fee * dec_unit) \<and>
    (\<exists>acc. feGetAccount E (aExt ctx) (tPayer t) = Some acc \<and> (\<forall>c d. AccBalance (feBank E) (aExt ctx') c d =
      AccBalance (feBank E) (aExt ctx) c d - (if c = acc \<and> d = Denom fee then Amount fee else 0)
      + (if c = ModuleAddr (feBank E) FeeCollectorName \<and> d = Denom fee then Amount fee else 0))) \<and>
    aStore ctx' = aStore ctx \<and> aBlock ctx' = aBlock ctx"
proof -
  from ok p h obtain price x' prices prio where
      fee: "tFee t \<noteq> []" "\<not> 1 < length (tFee t)" and
      steps: "GetMinGasPrice C (feResolver E) (aExt ctx) (aStore ctx) (Denom (hd (tFee t))) = Ok price"
      "CheckTxFee L C price (hd (tFee t)) (int64_of_u64 (tGas t)) = Ok ()"
      "DeductFees C E (FeeTx t) (hd (tFee t)) (aExt ctx) = Ok x'"
      "next (ctx\<lparr>aMinGasPrices := prices, aExt := x', aPriority := prio\<rparr>) (FeeTx t) False = Ok r"
    unfolding AnteHandle_def anteHandle_def by (auto simp: Let_def split del: if_split)
  from fee obtain c where c: "tFee t = [c]" by (cases "tFee t"; cases "tl (tFee t)") auto
  let ?ctx' = "ctx\<lparr>aMinGasPrices := prices, aExt := x', aPriority := prio\<rparr>"
  show ?thesis
    by (rule exI [of _ ?ctx'], rule exI [of _ c], rule exI [of _ price])
      (use c steps CheckTxFee_pays [OF L C steps(2)] DeductFees_collects(1) [OF C B t steps(3), unfolded c list.sel] in
        \<open>simp split del: if_split, blast\<close>)
qed


definition example_fee_env :: "std_state fee_env" where
  "example_fee_env = \<lparr>feUseGrantedFees = None, feGetAccount = (\<lambda>x a. Some a), feConsumeGas = (\<lambda>n x. Ok x),
     feBank = std_bank, feResolver = None\<rparr>"

definition example_ante_ctx :: "std_state ante_ctx" where
  "example_ante_ctx = \<lparr>aBlock = \<lparr>cBlockHeight = 7, cMaxGas = -1\<rparr>, aMinGasPrices = [], aPriority = 0,
     aStore = \<lparr>stParams = Value DefaultParams, stState = Value DefaultState, stEnabledHeight = Value (- 1)\<rparr>,
     aExt = \<lparr>xAcc = (\<lambda>_ _. 5000), xSup = (\<lambda>_. 100000)\<rparr>\<rparr>"

definition example_fee_tx :: fee_tx where
  "example_fee_tx = \<lparr>tGas = 200000, tFee = [\<lparr>Denom = ''uphoton'', Amount = 4000\<rparr>], tPayer = [1], tGranter = None\<rparr>"

lemma example_ante_passes:
  "\<exists>r. AnteHandle std_dec std_coins example_fee_env None (\<lambda>c t s. Ok c) example_ante_ctx (FeeTx example_fee_tx) False = Ok r"
  by (simp add: AnteHandle_def anteHandle_def example_fee_env_def example_ante_ctx_def example_fee_tx_def
      GetParams_def GetState_def GetMinGasPrice_def GetBaseGasPrice_def default_defs Let_def CheckTxFee_def
      DeductFees_def std_coins_def std_bank_defs GetTxPriority_def round_div_def int64_of_u64_def gasPricePrecision_def
      std_valid_def max_int64_def min_int64_def in_int64_def amt_Cons)


section \<open>The market over time\<close>

text \<open>
  After a transaction the post handler adds its gas to the current block, and fails with
  \<open>ErrMaxGasExceeded\<close> (so the transaction is undone) exactly when the block would exceed
  its maximum. A panic is not possible, and the price and the learning rate are not touched.
\<close>

theorem PostHandle_records_gas:
  assumes p: "GetParams st = Ok p" "pEnabled p" and h: "cBlockHeight ctx \<noteq> 0"
    and eh: "GetEnabledHeight st = Ok eh" "eh < cBlockHeight ctx"
    and s: "GetState st = Ok s" "window_ok s"
  shows "case PostHandle gas (\<lambda>_ st. Ok st) ctx st of
      Ok st' \<Rightarrow> hd (recent s) + gas \<le> GetMaxBlockGas ctx p \<and>
        (\<exists>s'. st' = SetState s' st \<and> window_ok s' \<and> recent s' = (hd (recent s) + gas) # tl (recent s) \<and>
           sBaseGasPrice s' = sBaseGasPrice s \<and> sLearningRate s' = sLearningRate s)
    | Err e \<Rightarrow> e = Dynamicfee_ErrMaxGasExceeded \<and> GetMaxBlockGas ctx p < hd (recent s) + gas
    | Panic \<Rightarrow> False"
  using Update_ring [OF s(2), of gas "GetMaxBlockGas ctx p"] p h eh s(1)
  by (cases "Update gas (GetMaxBlockGas ctx p) s") (auto simp: PostHandle_def Let_def)

theorem PostHandle_records_gas_witness:
  "PostHandle 100000000 (\<lambda>_ st. Ok st) \<lparr>cBlockHeight = 7, cMaxGas = -1\<rparr>
     \<lparr>stParams = Value DefaultAIMDParams, stState = Value DefaultAIMDState, stEnabledHeight = Value (- 1)\<rparr> \<noteq> Panic"
proof -
  let ?st = "\<lparr>stParams = Value DefaultAIMDParams, stState = Value DefaultAIMDState, stEnabledHeight = Value (- 1)\<rparr>"
  have "GetParams ?st = Ok DefaultAIMDParams" "pEnabled DefaultAIMDParams" "GetEnabledHeight ?st = Ok (- 1)"
    "GetState ?st = Ok DefaultAIMDState"
    by (simp_all add: GetParams_def GetState_def GetEnabledHeight_def DefaultAIMDParams_def NewParams_def)
  moreover have "window_ok DefaultAIMDState"
    unfolding DefaultAIMDState_def by (rule NewState_window_ok) simp
  ultimately show ?thesis
    using PostHandle_records_gas [of ?st DefaultAIMDParams "\<lparr>cBlockHeight = 7, cMaxGas = -1\<rparr>" "- 1"
        DefaultAIMDState 100000000]
    by (auto split: res.splits)
qed

text \<open>The steps of the chain that write the store of the module.\<close>

inductive market_step :: "dec_lib \<Rightarrow> string \<Rightarrow> store \<Rightarrow> store \<Rightarrow> bool"
  for L :: dec_lib and authority :: string where
  tx: "PostHandle gas (\<lambda>_ st. Ok st) ctx st = Ok st' \<Longrightarrow> market_step L authority st st'"
| end_block: "GetParams st = Ok p \<Longrightarrow> gas_limit_ok ctx p \<Longrightarrow> EndBlock L ctx st = Ok st' \<Longrightarrow>
    market_step L authority st st'"
| update: "Params_ValidateBasic (mParams m) = Ok () \<Longrightarrow>
    MsgServer_UpdateParams authority ctx m st = Ok st' \<Longrightarrow> market_step L authority st st'"

definition market_ok :: "store \<Rightarrow> bool" where
  "market_ok st \<longleftrightarrow> (\<exists>p s. GetParams st = Ok p \<and> Params_ValidateBasic p = Ok () \<and>
     GetState st = Ok s \<and> market_inv p s)"

lemma PostHandle_market_ok:
  assumes "market_ok st" "PostHandle gas (\<lambda>_ st. Ok st) ctx st = Ok st'"
  shows "market_ok st'"
proof -
  obtain p s where ps: "GetParams st = Ok p" "Params_ValidateBasic p = Ok ()" "GetState st = Ok s" "market_inv p s"
    using assms(1) by (auto simp: market_ok_def)
  then have w: "window_ok s" "length (win s) = unat (pWindow p)" by (simp_all add: market_inv_def)
  consider "st' = st" | s' where "Update gas (GetMaxBlockGas ctx p) s = Ok s'" "st' = SetState s' st"
    using assms(2) ps by (auto simp: PostHandle_def Let_def split: if_splits)
  then show ?thesis
  proof cases
    case (2 s')
    then have u: "window_ok s'" "recent s' = (hd (recent s) + gas) # tl (recent s)"
        "sBaseGasPrice s' = sBaseGasPrice s" "sLearningRate s' = sLearningRate s"
      using Update_ring [OF w(1), of gas "GetMaxBlockGas ctx p"] by auto
    have "length (win s') = length (win s)"
      using arg_cong [OF u(2), of length] w(1) by (auto simp: recent_def window_ok_def)
    with u ps 2(2) w have "market_inv p s'" by (auto simp: market_inv_def)
    with ps 2(2) show ?thesis by (auto simp: market_ok_def)
  qed (use assms in simp)
qed

lemma EndBlock_market_ok:
  assumes L: "dec_laws L" and ok: "market_ok st" "GetParams st = Ok p" "gas_limit_ok ctx p"
  shows "\<exists>st'. EndBlock L ctx st = Ok st' \<and> market_ok st'"
proof (cases "pEnabled p")
  case True
  with ok EndBlock_market_step [OF L ok(2) True] show ?thesis
    by (fastforce simp: market_ok_def)
qed (use ok EndBlock_disabled in auto)

lemma market_step_ok:
  assumes L: "dec_laws L" and step: "market_step L authority st st'" and ok: "market_ok st"
  shows "market_ok st'"
  using step
proof cases
  case (tx gas ctx)
  then show ?thesis using PostHandle_market_ok ok by blast
next
  case (end_block p ctx)
  then show ?thesis using EndBlock_market_ok [OF L ok] by fastforce
next
  case (update m ctx)
  then show ?thesis using UpdateParams_result [OF update(2)] NewState_market
    by (auto simp: market_ok_def Params_ValidateBasic_iff)
qed



text \<open>
  C25: the parameters of an update are not validated by the message server or by the message:
  an update with a window of zero slots is accepted from the authority, and with the market
  enabled the end blocker panics in the next block (an empty window has no average).
\<close>

theorem UpdateParams_zero_window_panics:
  assumes L: "dec_laws L" and p: "GetParams st = Ok p" and m: "mAuthority m = authority"
    "pWindow (mParams m) = 0" "pEnabled (mParams m)"
  shows "\<exists>st'. MsgServer_UpdateParams authority ctx m st = Ok st' \<and> EndBlock L ctx' st' = Panic"
proof -
  obtain st' where st': "MsgServer_UpdateParams authority ctx m st = Ok st'"
    using p m by (auto simp: MsgServer_UpdateParams_def Let_def)
  have avg: "GetAverageGas L g s = Panic" if "win s = []" for g s
  proof (cases "dMul L (dec_of_int (uint g)) (dec_of_int (int (length (win s))))")
    case (Some d)
    then have "d = 0" using dMul_int_left [OF L Some] that by simp
    then have "dQuo L 0 d = None" using dQuo_nz [OF L, of 0 d] by (cases "dQuo L 0 d") auto
    with Some \<open>d = 0\<close> that show ?thesis by (simp add: GetAverageGas_def Let_def)
  qed (simp add: GetAverageGas_def)
  from UpdateParams_result [OF st'] m have "EndBlock L ctx' st' = Panic"
    by (simp add: EndBlock_def UpdateDynamicfee_def Let_def avg)
  with st' show ?thesis by blast
qed

theorem UpdateParams_zero_window_panics_witness:
  "\<exists>st'. MsgServer_UpdateParams ''gov'' \<lparr>cBlockHeight = 7, cMaxGas = -1\<rparr>
      \<lparr>mAuthority = ''gov'', mParams = DefaultParams\<lparr>pWindow := 0\<rparr>\<rparr> (aStore example_ante_ctx) = Ok st' \<and>
    EndBlock std_dec \<lparr>cBlockHeight = 8, cMaxGas = -1\<rparr> st' = Panic"
  by (rule UpdateParams_zero_window_panics [OF std_dec_laws, where p = DefaultParams])
    (simp_all add: example_ante_ctx_def GetParams_def default_defs)

end
