(* ===== verification/App_Ante.thy ===== *)
theory App_Ante
  imports Gov_Instance Photon Dynamicfee_Ante
begin

text \<open>
  \<open>ante/gov_vote_ante.go\<close>, \<open>ante/ante.go\<close> and \<open>post/post.go\<close>: the decorator that asks a voter
  for a minimum stake, and the chains of decorators a transaction of the application goes through
  before and after it runs. The decorators of the SDK and of IBC, and the function that chains
  decorators, are parameters; the fee decorators of the modules are those of \<open>Photon\<close> and
  \<open>Dynamicfee_Ante\<close>.
\<close>

section \<open>Messages of a transaction\<close>

text \<open>
  The messages the decorator tells apart: those of governance (any other message is a
  \<open>MsgOther\<close> there), the votes of the legacy format, and the messages that execute others.
\<close>

datatype 'm tx_msg =
    V1Msg "'m gov_msg"
  | V1beta1MsgVote u64 string int
  | MsgExec "'m tx_msg any list"

text \<open>
  The staking keeper: the delegations an iteration visits, with the error it may end with; a
  validator, by what \<open>TokensFromSharesTruncated\<close> gives for it (\<open>Ok None\<close> is
  \<open>ErrNoValidatorFound\<close>).
\<close>

record 'x stake_env =
  seAddr :: addr_lib
  seValAddr :: "string \<Rightarrow> addr option"
  seDelegations :: "'x \<Rightarrow> addr \<Rightarrow> (string \<times> dec) list \<times> err option"
  seValidator :: "'x \<Rightarrow> addr \<Rightarrow> (dec \<Rightarrow> dec option) option res"

section \<open>The vote decorator\<close>

definition initial_minStakedTokens :: dec where "initial_minStakedTokens = dec_of_int 1000000"

definition maxDelegationsChecked :: nat where "maxDelegationsChecked = 100"

text \<open>
  The body of the iteration. The state is \<open>enoughStake\<close>, \<open>delegationCount\<close> and
  \<open>stakedTokens\<close>; the result says whether to stop. The variable \<open>minStakedTokens\<close> of the package,
  which tests set, is an argument.
\<close>

definition count_delegation ::
  "dec_lib \<Rightarrow> 'x stake_env \<Rightarrow> dec \<Rightarrow> 'x \<Rightarrow> string \<times> dec \<Rightarrow> bool \<times> nat \<times> dec \<Rightarrow> (bool \<times> bool \<times> nat \<times> dec) res" where
  "count_delegation L S minStakedTokens x delegation s =
     (let (validatorAddress, shares) = delegation; (enoughStake, delegationCount, stakedTokens) = s in
      bindR (must (seValAddr S validatorAddress)) (\<lambda>validatorAddr.
      bindR (panicOnErr (seValidator S x validatorAddr)) (\<lambda>validator.
      case validator of None \<Rightarrow> Ok (False, s)
      | Some tokensFromShares \<Rightarrow>
          bindR (must (tokensFromShares shares)) (\<lambda>tokens.
          bindR (must (dAdd L stakedTokens tokens)) (\<lambda>stakedTokens.
          if minStakedTokens \<le> stakedTokens then Ok (True, True, delegationCount, stakedTokens)
          else Ok (maxDelegationsChecked \<le> delegationCount + 1, enoughStake, delegationCount + 1, stakedTokens))))))"

text \<open>\<open>IterateDelegatorDelegations\<close>: until the callback stops, or the delegations end.\<close>

fun iterate_delegations ::
  "('d \<Rightarrow> 's \<Rightarrow> (bool \<times> 's) res) \<Rightarrow> 'd list \<Rightarrow> err option \<Rightarrow> 's \<Rightarrow> 's res" where
  "iterate_delegations cb [] err s = (case err of None \<Rightarrow> Ok s | Some e \<Rightarrow> Err e)"
| "iterate_delegations cb (d # ds) err s =
     bindR (cb d s) (\<lambda>(stop, s). if stop then Ok s else iterate_delegations cb ds err s)"

definition validVoter :: "dec_lib \<Rightarrow> 'x stake_env \<Rightarrow> dec \<Rightarrow> 'x \<Rightarrow> string \<Rightarrow> unit res" where
  "validVoter L S minStakedTokens x voter =
     bindR (orErr (ErrExternal 2) (FromBech32 (seAddr S) voter)) (\<lambda>accAddr.
     if minStakedTokens = 0 then Ok ()
     else
       let (delegations, err) = seDelegations S x accAddr in
       bindR (iterate_delegations (count_delegation L S minStakedTokens x) delegations err (False, 0, 0))
         (\<lambda>(enoughStake, _, _). failIf (\<not> enoughStake) App_ErrInsufficientStake))"

definition validMsg :: "dec_lib \<Rightarrow> 'x stake_env \<Rightarrow> dec \<Rightarrow> 'x \<Rightarrow> 'm tx_msg \<Rightarrow> unit res" where
  "validMsg L S minStakedTokens x m =
     (case m of
        V1beta1MsgVote _ voter _ \<Rightarrow> validVoter L S minStakedTokens x voter
      | V1Msg (MsgVote _ voter _ _) \<Rightarrow> validVoter L S minStakedTokens x voter
      | _ \<Rightarrow> Ok ())"

definition validAuthz :: "dec_lib \<Rightarrow> 'x stake_env \<Rightarrow> dec \<Rightarrow> 'x \<Rightarrow> 'm tx_msg any list \<Rightarrow> unit res" where
  "validAuthz L S minStakedTokens x msgs =
     foldR (\<lambda>v _. case v of Broken \<Rightarrow> Err App_ErrUnauthorized
       | Unpacked innerMsg \<Rightarrow> validMsg L S minStakedTokens x innerMsg) msgs ()"

definition ValidateVoteMsgs :: "dec_lib \<Rightarrow> 'x stake_env \<Rightarrow> dec \<Rightarrow> 'x \<Rightarrow> 'm tx_msg list \<Rightarrow> unit res" where
  "ValidateVoteMsgs L S minStakedTokens x msgs =
     foldR (\<lambda>m _. case m of MsgExec inner \<Rightarrow> validAuthz L S minStakedTokens x inner
       | _ \<Rightarrow> validMsg L S minStakedTokens x m) msgs ()"

section \<open>The chain of decorators\<close>

text \<open>A transaction: its messages, and what it is as a \<open>FeeTx\<close> if it is one.\<close>

record 'm app_tx =
  atMsgs :: "'m tx_msg list"
  atFeeTx :: "fee_tx option"

type_synonym ('m, 'x) handler = "'x ante_ctx \<Rightarrow> 'm app_tx \<Rightarrow> bool \<Rightarrow> 'x ante_ctx res"
type_synonym ('m, 'x) decorator = "('m, 'x) handler \<Rightarrow> ('m, 'x) handler"

definition GovVote_AnteHandle :: "dec_lib \<Rightarrow> 'x stake_env \<Rightarrow> dec \<Rightarrow> ('m, 'x) decorator" where
  "GovVote_AnteHandle L S minStakedTokens next ctx tx simulate =
     (if simulate then next ctx tx simulate
      else bindR (ValidateVoteMsgs L S minStakedTokens (aExt ctx) (atMsgs tx)) (\<lambda>_. next ctx tx simulate))"

text \<open>A transaction as the fee decorators see it; \<open>url\<close> is \<open>sdk.MsgTypeURL\<close>.\<close>

definition photon_view :: "('m tx_msg \<Rightarrow> string) \<Rightarrow> 'm app_tx \<Rightarrow> photon_tx" where
  "photon_view url tx = (case atFeeTx tx of None \<Rightarrow> PhotonOtherTx
     | Some f \<Rightarrow> PhotonFeeTx \<lparr>pxFee = tFee f, pxMsgs = map url (atMsgs tx)\<rparr>)"

definition fee_view :: "'m app_tx \<Rightarrow> tx" where
  "fee_view tx = (case atFeeTx tx of None \<Rightarrow> NotFeeTx | Some f \<Rightarrow> FeeTx f)"

definition photon_decorator ::
  "coins_lib \<Rightarrow> ('m tx_msg \<Rightarrow> string) \<Rightarrow> ('x \<Rightarrow> photon_params cell) \<Rightarrow> ('m, 'x) decorator" where
  "photon_decorator C url params next ctx tx simulate =
     ValidateFee_AnteHandle C (params (aExt ctx)) (\<lambda>_ s. next ctx tx s) (photon_view url tx) simulate"

definition dynamicfee_decorator ::
  "dec_lib \<Rightarrow> coins_lib \<Rightarrow> 'x fee_env \<Rightarrow> ('m, 'x) decorator \<Rightarrow> ('m, 'x) decorator" where
  "dynamicfee_decorator L C E fallback next ctx tx simulate =
     AnteHandle L C E (Some (\<lambda>n c _ s. fallback (\<lambda>c' tx' s'. n c' (fee_view tx') s') c tx s))
       (\<lambda>c _ s. next c tx s) ctx (fee_view tx) simulate"

text \<open>
  The decorators of other packages, and what chains decorators. \<open>sdSigGasConsume\<close> takes the gas
  consumer of signatures.
\<close>

record ('m, 'x, 'g) sdk_decorators =
  sdSetUpContext :: "('m, 'x) decorator"
  sdExtensionOptions :: "('m, 'x) decorator"
  sdValidateBasic :: "('m, 'x) decorator"
  sdTxTimeoutHeight :: "('m, 'x) decorator"
  sdValidateMemo :: "('m, 'x) decorator"
  sdConsumeGasForTxSize :: "('m, 'x) decorator"
  sdDeductFee :: "('m, 'x) decorator"
  sdSetPubKey :: "('m, 'x) decorator"
  sdValidateSigCount :: "('m, 'x) decorator"
  sdSigGasConsume :: "'g \<Rightarrow> ('m, 'x) decorator"
  sdSigVerification :: "('m, 'x) decorator"
  sdIncrementSequence :: "('m, 'x) decorator"
  sdRedundantRelay :: "('m, 'x) decorator"
  sdDefaultSigVerificationGasConsumer :: 'g
  sdChainAnteDecorators :: "('m, 'x) decorator list \<Rightarrow> ('m, 'x) handler"

text \<open>
  The options: a keeper is there or nil. The photon keeper is what it reads its parameters from,
  the dynamicfee keeper the environment of its decorator.
\<close>

record ('m, 'x, 'g) handler_options =
  hoAccountKeeper :: bool
  hoBankKeeper :: bool
  hoSignModeHandler :: bool
  hoIBCkeeper :: bool
  hoStakingKeeper :: "'x stake_env option"
  hoPhotonKeeper :: "('x \<Rightarrow> photon_params cell) option"
  hoDynamicfeeKeeper :: "'x fee_env option"
  hoSigGasConsumer :: "'g option"

definition NewAnteHandler ::
  "dec_lib \<Rightarrow> coins_lib \<Rightarrow> ('m tx_msg \<Rightarrow> string) \<Rightarrow> dec \<Rightarrow> ('m, 'x, 'g) sdk_decorators \<Rightarrow>
     ('m, 'x, 'g) handler_options \<Rightarrow> ('m, 'x) handler res" where
  "NewAnteHandler L C url minStakedTokens K opts =
     bindR (failIf (\<not> hoAccountKeeper opts) App_ErrLogic) (\<lambda>_.
     bindR (failIf (\<not> hoBankKeeper opts) App_ErrLogic) (\<lambda>_.
     bindR (failIf (\<not> hoSignModeHandler opts) App_ErrLogic) (\<lambda>_.
     bindR (failIf (\<not> hoIBCkeeper opts) App_ErrLogic) (\<lambda>_.
     bindR (orErr App_ErrNotFound (hoStakingKeeper opts)) (\<lambda>S.
     bindR (orErr App_ErrNotFound (hoPhotonKeeper opts)) (\<lambda>photonParams.
     bindR (orErr App_ErrNotFound (hoDynamicfeeKeeper opts)) (\<lambda>E.
     let sigGasConsumer = (case hoSigGasConsumer opts of None \<Rightarrow> sdDefaultSigVerificationGasConsumer K | Some g \<Rightarrow> g) in
     Ok (sdChainAnteDecorators K
       [sdSetUpContext K, sdExtensionOptions K, sdValidateBasic K, sdTxTimeoutHeight K, sdValidateMemo K,
        sdConsumeGasForTxSize K,
        GovVote_AnteHandle L S minStakedTokens,
        photon_decorator C url photonParams,
        dynamicfee_decorator L C E (sdDeductFee K),
        sdSetPubKey K, sdValidateSigCount K, sdSigGasConsume K sigGasConsumer, sdSigVerification K,
        sdIncrementSequence K, sdRedundantRelay K]))))))))"

text \<open>
  \<open>NewPostHandler\<close>: one decorator. \<open>None\<close> is a nil keeper; \<open>chain\<close> is
  \<open>sdk.ChainPostDecorators\<close>.
\<close>

definition NewPostHandler ::
  "(((block_ctx \<Rightarrow> store \<Rightarrow> store res) \<Rightarrow> block_ctx \<Rightarrow> store \<Rightarrow> store res) list \<Rightarrow> 'h) \<Rightarrow> u64 \<Rightarrow> bool \<Rightarrow> 'h res" where
  "NewPostHandler chain gasConsumed dynamicfeeKeeper =
     bindR (failIf (\<not> dynamicfeeKeeper) ErrLogic) (\<lambda>_. Ok (chain [PostHandle gasConsumed]))"

section \<open>Votes and stake\<close>

text \<open>
  The tokens of a delegation, if its validator exists; what the decorator counts: the first
  \<open>maxDelegationsChecked\<close> of them.
\<close>

definition stake_of :: "'x stake_env \<Rightarrow> 'x \<Rightarrow> string \<times> dec \<Rightarrow> dec option" where
  "stake_of S x d = (case seValAddr S (fst d) of None \<Rightarrow> None
     | Some va \<Rightarrow> (case seValidator S x va of Ok (Some f) \<Rightarrow> f (snd d) | _ \<Rightarrow> None))"

definition counted :: "'x stake_env \<Rightarrow> 'x \<Rightarrow> nat \<Rightarrow> (string \<times> dec) list \<Rightarrow> dec" where
  "counted S x n ds = sum_list (take n (List.map_filter (stake_of S x) ds))"

definition checked_stake :: "'x stake_env \<Rightarrow> 'x \<Rightarrow> addr \<Rightarrow> dec" where
  "checked_stake S x a = counted S x maxDelegationsChecked (fst (seDelegations S x a))"

text \<open>
  What the decorator relies on: stored delegations name valid validator addresses, an existing
  validator gives tokens for its shares and they are not negative, an iteration over delegations
  does not fail, and the tokens of an account fit a decimal.
\<close>

definition delegation_ok :: "'x stake_env \<Rightarrow> 'x \<Rightarrow> string \<times> dec \<Rightarrow> bool" where
  "delegation_ok S x d \<longleftrightarrow> (\<exists>va. seValAddr S (fst d) = Some va \<and>
     (seValidator S x va = Ok None \<or> (\<exists>f t. seValidator S x va = Ok (Some f) \<and> f (snd d) = Some t \<and> 0 \<le> t)))"

definition staking_laws :: "'x stake_env \<Rightarrow> 'x \<Rightarrow> bool" where
  "staking_laws S x \<longleftrightarrow> (\<forall>a. snd (seDelegations S x a) = None \<and> checked_stake S x a < dec_bound \<and>
     (\<forall>d \<in> set (fst (seDelegations S x a)). delegation_ok S x d))"

lemma delegation_cases:
  assumes "delegation_ok S x (v, sh)"
  obtains va where "seValAddr S v = Some va" "seValidator S x va = Ok None" "stake_of S x (v, sh) = None"
  | va f t where "seValAddr S v = Some va" "seValidator S x va = Ok (Some f)" "f sh = Some t" "0 \<le> t"
      "stake_of S x (v, sh) = Some t"
  using assms by (auto simp: delegation_ok_def stake_of_def)

lemma stake_nonneg: "delegation_ok S x d \<Longrightarrow> stake_of S x d = Some t \<Longrightarrow> 0 \<le> t"
  by (auto simp: delegation_ok_def stake_of_def)

lemma counted_nonneg:
  assumes "\<forall>d \<in> set ds. delegation_ok S x d"
  shows "0 \<le> counted S x n ds"
  unfolding counted_def
proof (rule sum_list_nonneg)
  fix t
  assume "t \<in> set (take n (List.map_filter (stake_of S x) ds))"
  then have "t \<in> set (List.map_filter (stake_of S x) ds)" by (rule in_set_takeD)
  then obtain d where "d \<in> set ds" "stake_of S x d = Some t" by (auto simp: map_filter_def)
  with assms stake_nonneg [of S x d t] show "0 \<le> t" by blast
qed

lemma counted_Nil [simp]: "counted S x n [] = 0"
  by (simp add: counted_def map_filter_def)

lemma counted_skip: "stake_of S x d = None \<Longrightarrow> counted S x n (d # ds) = counted S x n ds"
  by (simp add: counted_def map_filter_def)

lemma counted_add: "stake_of S x d = Some t \<Longrightarrow> counted S x (Suc n) (d # ds) = t + counted S x n ds"
  by (simp add: counted_def map_filter_def)

lemma counted_0 [simp]: "counted S x 0 ds = 0"
  by (simp add: counted_def)

text \<open>The iteration, from a state in which \<open>n\<close> delegations were counted, with \<open>s\<close> tokens.\<close>

lemma iterate_counts:
  assumes L: "dec_laws L"
  shows "\<forall>d \<in> set ds. delegation_ok S x d \<Longrightarrow> 0 \<le> s \<Longrightarrow> s < m \<Longrightarrow> n < maxDelegationsChecked \<Longrightarrow>
    s + counted S x (maxDelegationsChecked - n) ds < dec_bound \<Longrightarrow>
    \<exists>n' s'. iterate_delegations (count_delegation L S m x) ds None (False, n, s) =
      Ok (m \<le> s + counted S x (maxDelegationsChecked - n) ds, n', s')"
proof (induction ds arbitrary: n s)
  case Nil
  then show ?case by simp
next
  case (Cons d ds)
  obtain v sh where d: "d = (v, sh)" by (cases d)
  have "delegation_ok S x (v, sh)" using Cons.prems(1) by (simp add: d)
  then show ?case
  proof (cases rule: delegation_cases)
    case (1 va)
    with Cons show ?thesis by (simp add: d count_delegation_def counted_skip)
  next
    case (2 va f t)
    obtain k where k: "maxDelegationsChecked - n = Suc k" "maxDelegationsChecked - Suc n = k"
      using Cons.prems(4) by (cases "maxDelegationsChecked - n") auto
    have rest: "0 \<le> counted S x k ds" using Cons.prems(1) by (intro counted_nonneg) simp
    have split: "counted S x (Suc k) (d # ds) = t + counted S x k ds"
      using 2 by (simp add: d counted_add)
    have "dAdd L s t = Some (s + t)"
      using Cons.prems split 2 rest k by (intro dAdd_total [OF L]) simp
    then have step: "count_delegation L S m x d (False, n, s) = (if m \<le> s + t then Ok (True, True, n, s + t)
        else Ok (maxDelegationsChecked \<le> Suc n, False, Suc n, s + t))"
      using 2 by (simp add: d count_delegation_def)
    consider "m \<le> s + t" | "s + t < m" "maxDelegationsChecked \<le> Suc n" | "s + t < m" "Suc n < maxDelegationsChecked"
      by linarith
    then show ?thesis
    proof cases
      case 1
      then show ?thesis using rest by (simp add: step split k)
    next
      case A: 2
      then have "k = 0" using k by simp
      with A show ?thesis using split k by (simp add: step)
    next
      case A: 3
      with Cons.IH [of "s + t" "Suc n"] Cons.prems 2 split show ?thesis by (simp add: step k add.assoc)
    qed
  qed
qed

lemma validVoter_result:
  assumes L: "dec_laws L" and S: "staking_laws S x" and m: "0 \<le> m"
  shows "validVoter L S m x voter = (case FromBech32 (seAddr S) voter of None \<Rightarrow> Err (ErrExternal 2)
    | Some a \<Rightarrow> if m \<le> checked_stake S x a then Ok () else Err App_ErrInsufficientStake)"
proof (cases "FromBech32 (seAddr S) voter")
  case (Some a)
  obtain ds where ds: "seDelegations S x a = (ds, None)" "\<forall>d \<in> set ds. delegation_ok S x d"
    and bound: "checked_stake S x a < dec_bound"
    using S unfolding staking_laws_def by (metis prod.collapse)
  then have stake: "checked_stake S x a = counted S x maxDelegationsChecked ds" by (simp add: checked_stake_def)
  show ?thesis
  proof (cases "m = 0")
    case True
    with counted_nonneg [OF ds(2)] stake show ?thesis by (simp add: validVoter_def Some)
  next
    case False
    with iterate_counts [OF L ds(2), of 0 m 0] m bound stake show ?thesis
      by (auto simp: validVoter_def Some ds maxDelegationsChecked_def)
  qed
qed (simp add: validVoter_def)

lemma foldR_all_Ok: "foldR (\<lambda>v _. f v) vs () = Ok () \<longleftrightarrow> (\<forall>v \<in> set vs. f v = Ok ())"
  by (induction vs) auto

lemma foldR_no_Panic: "\<forall>v \<in> set vs. f v \<noteq> Panic \<Longrightarrow> foldR (\<lambda>v _. f v) vs () \<noteq> Panic"
  by (induction vs) (auto simp: bindR_eq_Panic)

text \<open>The votes the decorator looks at: those of the transaction and those one \<open>MsgExec\<close> away.\<close>

definition voter_of :: "'m tx_msg \<Rightarrow> string option" where
  "voter_of m = (case m of V1beta1MsgVote _ voter _ \<Rightarrow> Some voter | V1Msg (MsgVote _ voter _ _) \<Rightarrow> Some voter | _ \<Rightarrow> None)"

definition looked_at :: "'m tx_msg \<Rightarrow> 'm tx_msg any list" where
  "looked_at m = (case m of MsgExec inner \<Rightarrow> inner | _ \<Rightarrow> [Unpacked m])"

lemma validMsg_voter: "validMsg L S m x msg = (case voter_of msg of None \<Rightarrow> Ok () | Some v \<Rightarrow> validVoter L S m x v)"
  by (simp add: validMsg_def voter_of_def split: tx_msg.splits gov_msg.splits)

lemma ValidateVoteMsgs_looked_at:
  "ValidateVoteMsgs L S m x msgs = foldR (\<lambda>msg _. validAuthz L S m x (looked_at msg)) msgs ()"
proof -
  have "validMsg L S m x msg = validAuthz L S m x [Unpacked msg]" for msg
    by (cases "validMsg L S m x msg") (simp_all add: validAuthz_def)
  then show ?thesis
    by (auto simp: ValidateVoteMsgs_def looked_at_def fun_eq_iff split: tx_msg.splits
        intro!: arg_cong [of _ _ "\<lambda>f. foldR f msgs ()"])
qed

lemma voters_accepted:
  fixes msgs :: "'m tx_msg list"
  assumes "dec_laws L" and "staking_laws S x" and "0 \<le> m"
  shows "ValidateVoteMsgs L S m x msgs = Ok () \<longleftrightarrow>
      (\<forall>msg \<in> set msgs. \<forall>v \<in> set (looked_at msg). \<exists>i. v = Unpacked i \<and>
        (\<forall>voter. voter_of i = Some voter \<longrightarrow> (\<exists>a. FromBech32 (seAddr S) voter = Some a \<and> m \<le> checked_stake S x a)))"
proof -
  let ?f = "\<lambda>v. case v of Broken \<Rightarrow> Err App_ErrUnauthorized | Unpacked i \<Rightarrow> validMsg L S m x i"
  have "?f v = Ok () \<longleftrightarrow> (\<exists>i. v = Unpacked i \<and>
      (\<forall>voter. voter_of i = Some voter \<longrightarrow> (\<exists>a. FromBech32 (seAddr S) voter = Some a \<and> m \<le> checked_stake S x a)))"
    for v :: "'m tx_msg any"
    by (auto simp: validMsg_voter validVoter_result [OF assms] split: any.splits option.splits)
  then show ?thesis by (simp only: ValidateVoteMsgs_looked_at validAuthz_def foldR_all_Ok)
qed

lemma votes_no_panic:
  assumes "dec_laws L" and "staking_laws S x" and "0 \<le> m"
  shows "ValidateVoteMsgs L S m x msgs \<noteq> Panic"
  unfolding ValidateVoteMsgs_looked_at validAuthz_def
  by (intro foldR_no_Panic ballI)
    (auto simp: validMsg_voter validVoter_result [OF assms] split: any.splits option.splits)

text \<open>
  C11: with a staking keeper that works as documented, the decorator accepts the messages exactly
  when every message packed in a \<open>MsgExec\<close> can be read and every vote, in the transaction or
  directly in a \<open>MsgExec\<close> of it, comes from an account whose first hundred delegations to
  existing validators are worth the minimum stake; and it never panics.
\<close>

theorem voters_hold_minimum_stake:
  assumes "dec_laws L" and "staking_laws S x" and "0 \<le> m"
  shows "(ValidateVoteMsgs L S m x msgs = Ok () \<longleftrightarrow>
      (\<forall>msg \<in> set msgs. \<forall>v \<in> set (looked_at msg). \<exists>i. v = Unpacked i \<and>
        (\<forall>voter. voter_of i = Some voter \<longrightarrow> (\<exists>a. FromBech32 (seAddr S) voter = Some a \<and> m \<le> checked_stake S x a)))) \<and>
    ValidateVoteMsgs L S m x msgs \<noteq> Panic"
  using voters_accepted [OF assms] votes_no_panic [OF assms] by blast

definition std_staking :: "'x stake_env" where
  "std_staking = \<lparr>seAddr = std_addr, seValAddr = (\<lambda>v. Some []),
     seDelegations = (\<lambda>x a. (if a = [2] then [(''val'', dec_of_int 2000000)] else [], None)),
     seValidator = (\<lambda>x va. Ok (Some Some))\<rparr>"

lemma std_staking_laws: "staking_laws std_staking x"
  by (simp add: staking_laws_def std_staking_def delegation_ok_def checked_stake_def counted_def map_filter_def
      stake_of_def maxDelegationsChecked_def dec_of_int_def dec_unit_def dec_bound_def)

lemma std_stakes:
  "FromBech32 (seAddr std_staking) (ToBech32 std_addr a) = Some a"
  "checked_stake std_staking x a = (if a = [2] then dec_of_int 2000000 else 0)"
  "initial_minStakedTokens \<le> dec_of_int 2000000" "\<not> initial_minStakedTokens \<le> 0"
  using std_addr_laws
  by (simp_all add: std_staking_def addr_laws_def checked_stake_def counted_def map_filter_def stake_of_def maxDelegationsChecked_def
      initial_minStakedTokens_def) (simp add: dec_of_int_def dec_unit_def)

theorem voters_hold_minimum_stake_witness:
  "ValidateVoteMsgs std_dec std_staking initial_minStakedTokens () [V1Msg (MsgVote 1 (ToBech32 std_addr [2]) OptionYes []) :: unit tx_msg] = Ok () \<and>
   ValidateVoteMsgs std_dec std_staking initial_minStakedTokens ()
     [MsgExec [Unpacked (V1Msg (MsgVote 1 (ToBech32 std_addr [3]) OptionYes [])) :: unit tx_msg any]] \<noteq> Ok ()"
proof -
  have "0 \<le> initial_minStakedTokens" by (simp add: initial_minStakedTokens_def)
  note accepts = voters_hold_minimum_stake [OF std_dec_laws std_staking_laws this]
  show ?thesis by (simp add: accepts looked_at_def voter_of_def std_stakes)
qed

text \<open>
  C23: the minimum stake is not asked of a weighted vote, nor of a vote inside a \<open>MsgExec\<close> inside
  a \<open>MsgExec\<close>, although the weighted vote with all its weight on one option does what the vote
  does.
\<close>

theorem minimum_stake_bypassed:
  "ValidateVoteMsgs L S m x [V1Msg (MsgVoteWeighted i voter opts md)] = Ok () \<and>
   ValidateVoteMsgs L S m x [MsgExec [Unpacked (MsgExec [Unpacked (V1Msg (MsgVote i voter opt md))])]] = Ok () \<and>
   msg_VoteWeighted E i voter (NewNonSplitVoteOption (geDec E) opt) md w = msg_Vote E i voter opt md w"
  by (simp add: ValidateVoteMsgs_def validAuthz_def validMsg_def msg_VoteWeighted_def msg_Vote_def)

section \<open>The ante handler of the application\<close>

text \<open>
  A decorator of another package goes on with the next one, or fails; it changes neither the
  block nor the store of the fee market.
\<close>

definition forwards :: "('m, 'x) decorator \<Rightarrow> bool" where
  "forwards d \<longleftrightarrow> (\<forall>next ctx tx simulate r. d next ctx tx simulate = Ok r \<longrightarrow>
     (\<exists>ctx'. next ctx' tx simulate = Ok r \<and> aStore ctx' = aStore ctx \<and> aBlock ctx' = aBlock ctx))"

definition chained :: "('m, 'x) decorator list \<Rightarrow> ('m, 'x) handler" where
  "chained ds = foldr (\<lambda>d next. d next) ds (\<lambda>ctx tx simulate. Ok ctx)"

definition decorator_laws :: "('m, 'x, 'g) sdk_decorators \<Rightarrow> bool" where
  "decorator_laws K \<longleftrightarrow> (\<forall>ds. ds \<noteq> [] \<longrightarrow> sdChainAnteDecorators K ds = chained ds) \<and>
     (\<forall>d \<in> {sdSetUpContext K, sdExtensionOptions K, sdValidateBasic K, sdTxTimeoutHeight K, sdValidateMemo K,
        sdConsumeGasForTxSize K}. forwards d)"

lemma chained_append: "chained (as @ bs) = foldr (\<lambda>d next. d next) as (chained bs)"
  by (simp add: chained_def)

lemma forwards_all:
  assumes "\<forall>d \<in> set ds. forwards d" and "foldr (\<lambda>d next. d next) ds h ctx tx simulate = Ok r"
  shows "\<exists>ctx'. h ctx' tx simulate = Ok r \<and> aStore ctx' = aStore ctx \<and> aBlock ctx' = aBlock ctx"
  using assms
proof (induction ds arbitrary: ctx)
  case (Cons d ds)
  from Cons.prems obtain ctx1 where c1: "foldr (\<lambda>d next. d next) ds h ctx1 tx simulate = Ok r"
      "aStore ctx1 = aStore ctx" "aBlock ctx1 = aBlock ctx"
    unfolding forwards_def by (simp, blast)
  moreover have "\<forall>d \<in> set ds. forwards d" using Cons.prems(1) by simp
  ultimately show ?case using Cons.IH by metis
qed auto

lemma photon_decorator_passes:
  assumes "photon_decorator C url params next ctx tx s = Ok r" and "atFeeTx tx = Some f" and "tFee f = [fee]"
  shows "next ctx tx s = Ok r \<and> (CoinsIsZero C [fee] \<or> Denom fee = photon_Denom \<or>
    (\<exists>p. photon_GetParams (params (aExt ctx)) = Ok p \<and> AllowsAnyTxFee (map url (atMsgs tx)) (TxFeeExceptions p)))"
  using assms by (auto simp: photon_decorator_def photon_view_def ValidateFee_AnteHandle_def Let_def split: if_splits)


definition std_decorators :: "(unit, std_state, unit) sdk_decorators" where
  "std_decorators = \<lparr>sdSetUpContext = (\<lambda>n. n), sdExtensionOptions = (\<lambda>n. n), sdValidateBasic = (\<lambda>n. n),
     sdTxTimeoutHeight = (\<lambda>n. n), sdValidateMemo = (\<lambda>n. n), sdConsumeGasForTxSize = (\<lambda>n. n), sdDeductFee = (\<lambda>n. n),
     sdSetPubKey = (\<lambda>n. n), sdValidateSigCount = (\<lambda>n. n), sdSigGasConsume = (\<lambda>_ n. n), sdSigVerification = (\<lambda>n. n),
     sdIncrementSequence = (\<lambda>n. n), sdRedundantRelay = (\<lambda>n. n), sdDefaultSigVerificationGasConsumer = (),
     sdChainAnteDecorators = chained\<rparr>"

definition std_options :: "(unit, std_state, unit) handler_options" where
  "std_options = \<lparr>hoAccountKeeper = True, hoBankKeeper = True, hoSignModeHandler = True, hoIBCkeeper = True,
     hoStakingKeeper = Some std_staking, hoPhotonKeeper = Some (\<lambda>x. Value photon_DefaultParams),
     hoDynamicfeeKeeper = Some example_fee_env, hoSigGasConsumer = None\<rparr>"

definition std_vote_tx :: "unit app_tx" where
  "std_vote_tx = \<lparr>atMsgs = [V1Msg (MsgVote 1 (ToBech32 std_addr [2]) OptionYes [])], atFeeTx = Some example_fee_tx\<rparr>"

lemma forwards_id: "forwards (\<lambda>n. n)"
  unfolding forwards_def by blast

lemma std_decorator_laws: "decorator_laws std_decorators"
  by (simp add: decorator_laws_def std_decorators_def forwards_id)

lemma std_vote_accepted:
  "ValidateVoteMsgs std_dec std_staking initial_minStakedTokens x [V1Msg (MsgVote 1 (ToBech32 std_addr [2]) OptionYes [])] = Ok ()"
proof -
  have "0 \<le> initial_minStakedTokens" by (simp add: initial_minStakedTokens_def)
  note accepts = voters_accepted [OF std_dec_laws std_staking_laws this]
  show ?thesis by (simp add: accepts looked_at_def voter_of_def std_stakes)
qed

lemma std_vote_tx_runs:
  "\<exists>h r. NewAnteHandler std_dec std_coins (\<lambda>_. []) initial_minStakedTokens std_decorators std_options = Ok h \<and>
     h example_ante_ctx std_vote_tx False = Ok r"
proof -
  have "photon_decorator std_coins (\<lambda>_. []) (\<lambda>x. Value photon_DefaultParams) n c std_vote_tx False = n c std_vote_tx False"
    for n and c :: "std_state ante_ctx"
    by (simp add: photon_decorator_def photon_view_def std_vote_tx_def example_fee_tx_def ValidateFee_AnteHandle_def
        photon_GetParams_def photon_Denom_def Let_def)
  moreover have "dynamicfee_decorator std_dec std_coins example_fee_env (\<lambda>n. n) (\<lambda>c t s. Ok c) example_ante_ctx std_vote_tx False =
      AnteHandle std_dec std_coins example_fee_env None (\<lambda>c t s. Ok c) example_ante_ctx (FeeTx example_fee_tx) False"
    by (simp add: dynamicfee_decorator_def fee_view_def std_vote_tx_def AnteHandle_def example_ante_ctx_def GetParams_def default_defs)
  ultimately show ?thesis
    using example_ante_passes std_vote_accepted
    by (simp add: NewAnteHandler_def std_options_def std_decorators_def chained_def GovVote_AnteHandle_def Let_def)
      (simp add: std_vote_tx_def)
qed


end
