(* ===== verification/Gov_Example.thy ===== *)
theory Gov_Example
  imports Gov_Instance
begin

text \<open>
  A block of the concrete chain of \<open>Gov_Instance\<close>, worked out: the vote of the only delegator
  passes the proposal, its deposit is refunded, and the end blocker writes the minimum deposits.
\<close>

section \<open>Reading the environment\<close>

lemma std_back [simp]: "FromBech32 std_addr (ToBech32 std_addr a) = Some a"
  using std_addr_laws by (simp add: addr_laws_def)

lemma std_bank_simps [simp]:
  "SendToModule std_bank a m = std_move a (std_module_addr m)" "SendFromModule std_bank m a = std_move (std_module_addr m) a"
  "AccBalance std_bank = xAcc" "GetSupply std_bank = xSup" "ModuleAddr std_bank = std_module_addr"
  by (simp_all add: std_bank_def)

lemma std_env_simps [simp]:
  "geDec std_gov_env = std_dec" "geCoins std_gov_env = std_coins" "geAddr std_gov_env = std_addr"
  "geLengthPrefix std_gov_env a = (if length a < 256 then Some (word_of_nat (length a) # a) else None)"
  "geBank std_gov_env = std_bank" "geAuthority std_gov_env = ''gov''" "geMaxMetadataLen std_gov_env = 255"
  "geGovAddr std_gov_env = std_module_addr ''gov''"
  "geBeforeHandler std_gov_env = msg_ValidateBasic std_dec std_coins std_addr (\<lambda>_. Ok ())"
  "geChargeProposal std_gov_env p x = Some x" "geTotalBonded std_gov_env x = Ok 1000"
  "geBondedValidators std_gov_env x = Ok [''val'' \<mapsto> \<lparr>valBondedTokens = 1000, valDelegatorShares = dec_of_int 1000\<rparr>]"
  "geDelegations std_gov_env x a = (if a = [2] then [(''val'', dec_of_int 1000)] else [], None)"
  "geHook std_gov_env h x = Some x" "geOtherHandler std_gov_env m = Some Ok"
  by (simp_all add: std_gov_env_def)

lemma std_params_simps [simp]: "gpBurnVoteQuorum std_gov_params = False" "gpBurnDepositNoThreshold std_gov_params = show_dec (dec_with_prec 80 2)"
  "gpQuorumRange std_gov_params = Some \<lparr>qrMax = show_dec (dec_with_prec 50 2), qrMin = show_dec (dec_with_prec 10 2)\<rparr>"
  "gpThreshold std_gov_params = show_dec (dec_with_prec 667 3)"
  "gpMinDepositThrottler std_gov_params =
     Some \<lparr>thFloorValue = [\<lparr>Denom = ''stake'', Amount = 10000000\<rparr>], thUpdatePeriod = Some (hour * 24 * 7),
            thTarget = 2, thIncreaseRatio = show_dec (dec_with_prec 5 2), thDecreaseRatio = show_dec (dec_with_prec 25 3),
            thDecreaseSensitivityTargetDistance = 2\<rparr>"
  "gpMinInitialDepositThrottler std_gov_params =
     Some \<lparr>thFloorValue = [\<lparr>Denom = ''stake'', Amount = 100000\<rparr>], thUpdatePeriod = Some (hour * 24),
            thTarget = 5, thIncreaseRatio = show_dec (dec_with_prec 1 2), thDecreaseRatio = show_dec (dec_with_prec 5 3),
            thDecreaseSensitivityTargetDistance = 2\<rparr>"
  "gpQuorumCheckCount std_gov_params = 0" "gpVotingPeriod std_gov_params = Some DefaultVotingPeriod"
  "gpMaxDepositPeriod std_gov_params = Some DefaultDepositPeriod" "gpMinDepositRatio std_gov_params = show_dec (dec_with_prec 1 2)"
  by (simp_all add: std_gov_params_def gov_DefaultParams_def Let_def gov_NewParams_def)

lemma std_voting_simps [simp]: "prId std_voting = 1" "prStatus std_voting = StatusVotingPeriod" "prVotingEndTime std_voting = Some 100"
   "prMessages std_voting = []" "prEndorsed std_voting = False" "ProposalKinds std_voting = 1"
  by (simp_all add: std_voting_def NewProposal_def ProposalKinds_def ProposalKindAny_def)

text \<open>The default parameters are valid.\<close>

lemma std_params_valid: "gov_Params_ValidateBasic std_dec std_coins std_gov_params = Ok ()"
proof -
  have s: "Seconds (hour * 24 * 7) = 604800" "Seconds (hour * 24) = 86400" "Seconds (hour * 24 * 21) = 1814400" "Seconds (504 * hour) = 1814400" "Seconds (168 * hour) = 604800"
    using Seconds_whole [of 604800] Seconds_whole [of 86400] Seconds_whole [of 1814400] by (simp_all add: hour_def mult.commute)
  have v: "CoinsIsValid std_coins [\<lparr>Denom = ''stake'', Amount = n\<rparr>] \<longleftrightarrow> 0 < n" for n by (simp add: std_coins_def std_valid_def)
  have a: "Params_deprecated std_dec std_coins std_gov_params = Ok ()"
    by (simp add: Params_deprecated_def std_gov_params_def gov_DefaultParams_def Let_def gov_NewParams_def DefaultDepositPeriod_def hour_def second_def)
  have b: "Params_quorums std_dec std_coins std_gov_params = Ok ()"
    by (simp add: Params_quorums_def quorum_value_ok_def range_order_ok_def std_gov_params_def gov_DefaultParams_def Let_def gov_NewParams_def
       read_show_dec dec_with_prec_def dec_of_int_def dec_unit_def)
  have c: "Params_thresholds std_dec std_coins std_gov_params = Ok (dec_with_prec 667 3, dec_with_prec 9 1, dec_with_prec 9 1)"
    by (simp add: Params_thresholds_def std_gov_params_def gov_DefaultParams_def Let_def gov_NewParams_def
       read_show_dec dec_with_prec_def dec_of_int_def dec_unit_def)
  have d: "Params_voting std_dec std_coins std_gov_params = Ok ()"
    by (simp add: Params_voting_def std_gov_params_def gov_DefaultParams_def Let_def gov_NewParams_def DefaultVotingPeriod_def minVotingPeriod_def s
       read_show_dec dec_with_prec_def dec_of_int_def dec_unit_def)
  have e: "throttler_ok std_dec std_coins (gpVotingPeriod std_gov_params) (gpMinDepositThrottler std_gov_params) = Ok ()"
    "throttler_ok std_dec std_coins (gpVotingPeriod std_gov_params) (gpMinInitialDepositThrottler std_gov_params) = Ok ()"
    by (simp_all add: throttler_ok_def DefaultVotingPeriod_def s v maxDecreaseSensitivity_def
       read_show_dec dec_with_prec_def dec_of_int_def dec_unit_def del: Seconds_nonpos)
  have f: "burn_threshold_ok std_dec std_gov_params (dec_with_prec 667 3, dec_with_prec 9 1, dec_with_prec 9 1) = Ok ()"
    by (simp add: burn_threshold_ok_def read_show_dec dec_with_prec_def dec_of_int_def dec_unit_def)
  show ?thesis by (simp only: gov_Params_ValidateBasic_def a b c d e f bindR.simps)
qed
section \<open>The block at 150\<close>

lemma std_quorum:
  assumes "gov_GetParams w = std_gov_params" "gEma (wGov w) = show_dec 0" "ProposalKinds p = 1"
  shows "getQuorumAndThreshold std_gov_env w p = Ok (dec_with_prec 10 2, dec_with_prec 667 3)"
  using assms by (simp add: getQuorumAndThreshold_def kind_bits GetQuorum_def quorum_from_def GetParticipationEMA_def
      ema_get_def Let_def read_show_dec dec_with_prec_def computeQuorum_def dec_unit_def round_div_def)

lemma std_votes: "GetVotes std_world 1 = [std_vote OptionYes]"
  by (simp add: GetVotes_def kv_under_def std_gov_defs)

lemma std_deposits: "gDeposits (wGov w) = gDeposits (wGov std_world) \<Longrightarrow>
    GetDeposits w 1 = [NewDeposit std_addr 1 [2] [\<lparr>Denom = ''stake'', Amount = 500\<rparr>]]"
  by (simp add: GetDeposits_def kv_under_def std_gov_defs)

definition std_tallied :: "(unit, std_state) world" where
  "std_tallied = on_gov (gVotes_update (kv_del (1,[1,2]))) std_world"

lemma std_tallied_params: "gov_GetParams std_tallied = std_gov_params" "gEma (wGov std_tallied) = show_dec 0"
  by (simp_all add: std_tallied_def gov_GetParams_def std_gov_defs)

lemma std_tally: "Tally std_gov_env std_voting std_world = Ok (tally_done True False dec_one (NewTallyResult 1000 0 0), std_tallied)"
proof -
  have "tallyVotes std_gov_env std_voting [''val'' \<mapsto> \<lparr>valBondedTokens = 1000, valDelegatorShares = dec_of_int 1000\<rparr>] True std_world
    = Ok (dec_of_int 1000, no_counts(OptionYes \<mapsto> dec_of_int 1000), None, std_tallied)"
    by (simp add: tallyVotes_def std_votes std_vote_def NewVote_def NewNonSplitVoteOption_def must_addr_def
       read_show_dec voting_power_def tally_delegation_def tally_option_def no_counts_def dec_of_int_def dec_unit_def
       round_div_def deleteVote_def addr_key_def std_tallied_def)
  moreover have "tally_outcome std_gov_env std_voting (dec_of_int 1000) (no_counts(OptionYes \<mapsto> dec_of_int 1000)) 1000 std_tallied = Ok (tally_done True False dec_one (NewTallyResult 1000 0 0))"
    using std_quorum [OF std_tallied_params, of std_voting]
    by (simp add: tally_outcome_def) (simp add: NewTallyResultFromMap_def counts_of_def no_counts_def dec_of_int_def dec_with_prec_def dec_unit_def round_div_def)
  ultimately show ?thesis
    by (simp add: Tally_def)
qed


definition std_after :: "(unit, std_state) world" where
  "std_after = \<lparr>wGov = std_gov_store\<lparr>gProposals := [(1, std_voting\<lparr>prStatus := StatusPassed,
      prFinalTallyResult := Some (NewTallyResult 1000 0 0)\<rparr>)], gProposalID := Some 2, gActiveNumber := Some 0,
      gEma := show_dec (dec_with_prec 2 1)\<rparr>,
     wExt = std_bank_state\<lparr>xAcc := (\<lambda>c d. (if c = std_module_addr ''gov'' then 500 else 1000) -
       (if c = std_module_addr ''gov'' then amt [\<lparr>Denom = ''stake'', Amount = 500\<rparr>] d else 0) +
       (if c = [2] then amt [\<lparr>Denom = ''stake'', Amount = 500\<rparr>] d else 0))\<rparr>\<rparr>"

lemma ProposalKinds_cong: "prMessages p = prMessages q \<Longrightarrow> ProposalKinds p = ProposalKinds q"
  by (simp add: ProposalKinds_def)

lemma std_end_voting: "end_voting_period std_gov_env 150 std_voting std_world = Ok (False, std_after)"
proof -
  have "ProposalKinds (std_voting\<lparr>prStatus := StatusPassed, prFinalTallyResult := Some (NewTallyResult 1000 0 0)\<rparr>) = 1"
    using ProposalKinds_cong [of "std_voting\<lparr>prStatus := StatusPassed, prFinalTallyResult := Some (NewTallyResult 1000 0 0)\<rparr>" std_voting] by simp
  then show ?thesis
    by (simp add: end_voting_period_def std_tally RefundAndDeleteDeposits_def tally_done_def std_deposits std_tallied_def
        NewDeposit_def must_addr_def)
      (simp add: execute_messages_def GetMsgs_def unpacked_def Let_def UpdateParticipationEMA_def on_ext_def delete_deposit_def
        addr_key_def run_hook_def SetProposal_def on_gov_def std_world_def std_voting_store_def std_gov_store_def
        std_bank_state_def std_move_def std_covers_def amt_Cons RemoveFromActiveProposalQueue_def
        DecrementActiveProposalsNumber_def GetActiveProposalsNumber_def SetActiveProposalsNumber_def kv_del_def kind_bits
        GetParticipationEMA_def ema_get_def read_show_dec ema_next_def SetParticipationEMA_def std_after_def
        gov_ModuleName_def dec_of_int_def dec_unit_def dec_with_prec_def round_div_def)
qed


text \<open>Without active proposals, the minimum deposits are set to their floors.\<close>

lemma std_long_ago: "0 \<le> B \<Longrightarrow> time_sub B zero_time = max_int64"
  by (simp add: time_sub_def zero_time_def max_int64_def min_int64_def)

lemma std_floor: "0 \<le> r \<Longrightarrow> r < dec_one \<Longrightarrow> 0 < n \<Longrightarrow>
    GetNewMinDeposit std_dec std_coins [\<lparr>Denom = ''stake'', Amount = n\<rparr>] [] r = Ok [\<lparr>Denom = ''stake'', Amount = n\<rparr>]"
proof -
  assume r: "0 \<le> r" "r < dec_one" "0 < n"
  obtain c where c: "dMul std_dec (dec_of_int n) r = Some c" by simp
  have "c = n * r" by (rule dMul_int_left [OF std_dec_laws c])
  moreover have "0 \<le> n * r" "n * r < n * dec_unit" using r by (simp_all add: dec_of_int_def)
  ultimately have cs: "0 \<le> c" "c < n * dec_unit" by simp_all
  have "c div dec_unit * dec_unit \<le> c" using pos_mod_sign [of dec_unit c] div_mult_mod_eq [of c dec_unit] dec_unit_pos by linarith
  with cs(2) have "c div dec_unit * dec_unit < n * dec_unit" by linarith
  then have "dTruncateInt std_dec c = c div dec_unit" "c div dec_unit < n"
    using dTruncateInt_nonneg [OF std_dec_laws cs(1)] by (simp_all del: std_dec_simps)
  with c show ?thesis by (simp add: GetNewMinDeposit_def scaled_amount_def del: std_dec_simps)
qed

lemma std_min_deposits:
  assumes "0 \<le> B"
  shows "next_min_deposit std_dec std_coins (gpMinInitialDepositThrottler std_gov_params) 0 ([], zero_time) B True =
      Ok (Some [\<lparr>Denom = ''stake'', Amount = 100000\<rparr>])"
    "next_min_deposit std_dec std_coins (gpMinDepositThrottler std_gov_params) 0 ([], zero_time) B True =
      Ok (Some [\<lparr>Denom = ''stake'', Amount = 10000000\<rparr>])"
  by (simp_all add: next_min_deposit_def std_long_ago [OF assms] std_floor hour_def second_def max_int64_def dec_of_int_def
      read_show_dec dec_with_prec_def dec_unit_def round_div_def)

definition std_quiet :: "(unit, std_state) world \<Rightarrow> bool" where
  "std_quiet w \<longleftrightarrow> gpMinDepositThrottler (gov_GetParams w) = gpMinDepositThrottler std_gov_params \<and>
     gpMinInitialDepositThrottler (gov_GetParams w) = gpMinInitialDepositThrottler std_gov_params \<and>
     GetActiveProposalsNumber w = 0 \<and> GetInactiveProposalsNumber w = 0 \<and>
     gLastMinDeposit (wGov w) = None \<and> gLastMinInitialDeposit (wGov w) = None"

definition std_floors :: "time \<Rightarrow> (unit, std_state) world \<Rightarrow> (unit, std_state) world" where
  "std_floors B w = SetLastMinDeposit [\<lparr>Denom = ''stake'', Amount = 10000000\<rparr>] B
    (SetLastMinInitialDeposit [\<lparr>Denom = ''stake'', Amount = 100000\<rparr>] B w)"

lemma std_block_end:
  assumes "std_quiet w" "0 \<le> B"
  shows "bindR (UpdateMinInitialDeposit std_gov_env B True w) (UpdateMinDeposit std_gov_env B True) = Ok (std_floors B w)"
proof -
  let ?w = "SetLastMinInitialDeposit [\<lparr>Denom = ''stake'', Amount = 100000\<rparr>] B w"
  have "GetLastMinInitialDeposit w = ([], zero_time)" "GetLastMinDeposit ?w = ([], zero_time)"
    "gov_GetParams ?w = gov_GetParams w" "GetActiveProposalsNumber ?w = 0" "GetInactiveProposalsNumber w = 0"
    using assms(1) by (simp_all add: std_quiet_def gov_GetParams_def GetLastMinInitialDeposit_def
       SetLastMinInitialDeposit_def GetActiveProposalsNumber_def GetLastMinDeposit_def on_gov_def)
  with assms std_min_deposits [OF assms(2)] show ?thesis
    by (simp add: std_quiet_def UpdateMinInitialDeposit_def UpdateMinDeposit_def std_floors_def del: std_params_simps)
qed

lemma std_block: "EndBlocker std_gov_env 150 std_world = Ok (std_floors 150 std_after)"
proof -
  have q: "gInactiveQueue (wGov std_world) = []" "gQuorumQueue (wGov std_world) = []" "gActiveQueue (wGov std_world) = [((100, 1), ())]"
    by (simp_all add: std_gov_defs)
  have "std_quiet std_after"
    by (simp add: std_quiet_def) (simp add: gov_GetParams_def std_after_def std_gov_store_def GetInactiveProposalsNumber_def
        GetActiveProposalsNumber_def)
  from std_block_end [OF this, of 150] show ?thesis
    by (simp add: EndBlocker_def IterateInactiveProposalsQueue_def IterateQuorumCheckQueue_def IterateActiveProposalsQueue_def
        q due_def std_end_voting)
qed

end
