(* ===== verification/Coredaos.thy ===== *)
theory Coredaos
  imports Gov_Chain Gov_Example
begin

text \<open>
  \<open>x/coredaos\<close>: the steering and the oversight DAO annotate, endorse, extend and veto proposals
  under vote, through the keeper of the governance module; a staking hook keeps the two from
  delegating. The state is the parameter cell of the module beside the governance world. The
  staking keeper is a parameter.
\<close>

section \<open>Parameters, messages and environment\<close>

record dao_params =
  SteeringDaoAddress :: string
  OversightDaoAddress :: string
  VotingPeriodExtensionsLimit :: u32
  VotingPeriodExtensionDuration :: "duration option"

definition dao_NewParams :: "string \<Rightarrow> string \<Rightarrow> u32 \<Rightarrow> duration \<Rightarrow> dao_params" where
  "dao_NewParams steeringDaoAddress oversightDaoAddress limit dur =
     \<lparr>SteeringDaoAddress = steeringDaoAddress, OversightDaoAddress = oversightDaoAddress,
      VotingPeriodExtensionsLimit = limit, VotingPeriodExtensionDuration = Some dur\<rparr>"

definition dao_DefaultParams :: dao_params where
  "dao_DefaultParams = dao_NewParams [] [] 3 (hour * 24 * 7)"

definition dao_Params_ValidateBasic :: "addr_lib \<Rightarrow> dao_params \<Rightarrow> unit res" where
  "dao_Params_ValidateBasic A p =
     bindR (failIf (SteeringDaoAddress p \<noteq> [] \<and> FromBech32 A (SteeringDaoAddress p) = None)
       (ErrText ''invalid steering DAO address'')) (\<lambda>_.
     bindR (failIf (OversightDaoAddress p \<noteq> [] \<and> FromBech32 A (OversightDaoAddress p) = None)
       (ErrText ''invalid oversight DAO address'')) (\<lambda>_.
     bindR (orErr (ErrText ''voting period extension duration must not be nil'') (VotingPeriodExtensionDuration p)) (\<lambda>d.
     failIf (Seconds d \<le> 0) (ErrText ''voting period extension duration must be positive''))))"

datatype dao_msg =
    MsgAnnotateProposal (anAnnotator: string) (anProposalId: u64) (anAnnotation: string) (anOverwrite: bool)
  | MsgEndorseProposal (enEndorser: string) (enProposalId: u64)
  | MsgExtendVotingPeriod (exExtender: string) (exProposalId: u64)
  | MsgVetoProposal (veVetoer: string) (veProposalId: u64) (veBurnDeposit: bool)
  | MsgUpdateDaoParams (duAuthority: string) (duParams: dao_params)

fun dao_msg_ValidateBasic :: "addr_lib \<Rightarrow> dao_msg \<Rightarrow> unit res" where
  "dao_msg_ValidateBasic A (MsgAnnotateProposal annotator _ annotation _) =
     bindR (valid_address A annotator) (\<lambda>_. failIf (annotation = []) ErrInvalidRequest)"
| "dao_msg_ValidateBasic A (MsgEndorseProposal endorser _) = valid_address A endorser"
| "dao_msg_ValidateBasic A (MsgExtendVotingPeriod extender _) = valid_address A extender"
| "dao_msg_ValidateBasic A (MsgVetoProposal vetoer _ _) = valid_address A vetoer"
| "dao_msg_ValidateBasic A (MsgUpdateDaoParams authority params) =
     bindR (valid_address A authority) (\<lambda>_. dao_Params_ValidateBasic A params)"

record ('m, 'x) dao_env =
  deGov :: "('m, 'x) gov_env"
  deAuthority :: string
  deBonded :: "'x \<Rightarrow> addr \<Rightarrow> int res"
  deUnbonding :: "'x \<Rightarrow> addr \<Rightarrow> int res"

type_synonym ('m, 'x) chain = "dao_params cell \<times> ('m, 'x) world"

definition dao_GetParams :: "dao_params cell \<Rightarrow> dao_params res" where
  "dao_GetParams st = (case st of
     Absent \<Rightarrow> Ok \<lparr>SteeringDaoAddress = [], OversightDaoAddress = [], VotingPeriodExtensionsLimit = 0,
                    VotingPeriodExtensionDuration = None\<rparr>
   | Corrupt \<Rightarrow> Panic | Value p \<Rightarrow> Ok p)"

section \<open>Handlers\<close>

text \<open>The first check of each handler: the function is enabled and the signer is the DAO.\<close>

definition only_dao :: "string \<Rightarrow> string \<Rightarrow> unit res" where
  "only_dao dao signer =
     bindR (failIf (dao = []) Coredaos_ErrFunctionDisabled) (\<lambda>_. failIf (signer \<noteq> dao) Coredaos_ErrInvalidSigner)"

text \<open>The next two: the proposal exists and is in its voting period.\<close>

definition proposal_under_vote :: "('m, 'x) world \<Rightarrow> u64 \<Rightarrow> 'm proposal res" where
  "proposal_under_vote w proposalId =
     bindR (orErr Gov_ErrUnknownProposal (GetProposal w proposalId)) (\<lambda>proposal.
     bindR (failIf (prStatus proposal \<noteq> StatusVotingPeriod) Gov_ErrInactiveProposal) (\<lambda>_. Ok proposal))"

definition AnnotateProposal ::
  "dao_params \<Rightarrow> string \<Rightarrow> u64 \<Rightarrow> string \<Rightarrow> bool \<Rightarrow> ('m, 'x) world \<Rightarrow> ('m, 'x) world res" where
  "AnnotateProposal params annotator proposalId annotation overwrite w =
     bindR (only_dao (SteeringDaoAddress params) annotator) (\<lambda>_.
     bindR (proposal_under_vote w proposalId) (\<lambda>proposal.
     bindR (failIf (prAnnotation proposal \<noteq> [] \<and> \<not> overwrite) Coredaos_ErrAnnotationAlreadyPresent) (\<lambda>_.
     Ok (SetProposal (proposal\<lparr>prAnnotation := annotation\<rparr>) w))))"

definition EndorseProposal ::
  "dao_params \<Rightarrow> string \<Rightarrow> u64 \<Rightarrow> ('m, 'x) world \<Rightarrow> ('m, 'x) world res" where
  "EndorseProposal params endorser proposalId w =
     bindR (only_dao (SteeringDaoAddress params) endorser) (\<lambda>_.
     bindR (proposal_under_vote w proposalId) (\<lambda>proposal.
     bindR (failIf (prEndorsed proposal) Coredaos_ErrProposalAlreadyEndorsed) (\<lambda>_.
     Ok (SetProposal (proposal\<lparr>prEndorsed := True\<rparr>) w))))"

definition ExtendVotingPeriod ::
  "dao_params \<Rightarrow> string \<Rightarrow> u64 \<Rightarrow> ('m, 'x) world \<Rightarrow> ('m, 'x) world res" where
  "ExtendVotingPeriod params extender proposalId w =
     bindR (failIf (SteeringDaoAddress params = [] \<and> OversightDaoAddress params = []) Coredaos_ErrFunctionDisabled) (\<lambda>_.
     bindR (failIf (extender \<noteq> SteeringDaoAddress params \<and> extender \<noteq> OversightDaoAddress params)
       Coredaos_ErrInvalidSigner) (\<lambda>_.
     bindR (proposal_under_vote w proposalId) (\<lambda>proposal.
     bindR (failIf (VotingPeriodExtensionsLimit params \<le> prTimesVotingPeriodExtended proposal)
       Gov_ErrInvalidProposalContent) (\<lambda>_.
     bindR (must (prVotingEndTime proposal)) (\<lambda>votingEndTime.
     bindR (must (VotingPeriodExtensionDuration params)) (\<lambda>d.
     let newEndTime = time_add votingEndTime d;
         w = RemoveFromActiveProposalQueue (prId proposal) votingEndTime w;
         proposal = proposal\<lparr>prVotingEndTime := Some newEndTime\<rparr>;
         w = InsertActiveProposalQueue (prId proposal) newEndTime w;
         proposal = proposal\<lparr>prTimesVotingPeriodExtended := prTimesVotingPeriodExtended proposal + 1\<rparr> in
     Ok (SetProposal proposal w)))))))"

definition VetoProposal ::
  "('m, 'x) gov_env \<Rightarrow> time \<Rightarrow> dao_params \<Rightarrow> string \<Rightarrow> u64 \<Rightarrow> bool \<Rightarrow> ('m, 'x) world \<Rightarrow> ('m, 'x) world res" where
  "VetoProposal E blockTime params vetoer proposalId burnDeposit w =
     bindR (only_dao (OversightDaoAddress params) vetoer) (\<lambda>_.
     bindR (proposal_under_vote w proposalId) (\<lambda>proposal.
     bindR (if burnDeposit then DeleteAndBurnDeposits E (prId proposal) w
        else RefundAndDeleteDeposits E (prId proposal) w) (\<lambda>w.
     let proposal = proposal\<lparr>prStatus := StatusVetoed, prFinalTallyResult := Some EmptyTallyResult\<rparr>;
         w = SetProposal proposal w in
     bindR (DeleteVotes E (prId proposal) w) (\<lambda>w.
     bindR (must (prVotingEndTime proposal)) (\<lambda>votingEndTime.
     let w = RemoveFromActiveProposalQueue (prId proposal) votingEndTime w in
     bindR (DecrementActiveProposalsNumber w) (\<lambda>w.
     bindR (UpdateMinInitialDeposit E blockTime True w) (\<lambda>w.
     UpdateMinDeposit E blockTime True w)))))))"

text \<open>A DAO that is to be named in the parameters must have no bonded and no unbonding tokens.\<close>

definition unstaked :: "('m, 'x) dao_env \<Rightarrow> 'x \<Rightarrow> string \<Rightarrow> unit res" where
  "unstaked D x dao =
     (if dao = [] then Ok ()
      else
        bindR (must_addr (deGov D) dao) (\<lambda>a.
        bindR (deBonded D x a) (\<lambda>delegatorBonded.
        bindR (deUnbonding D x a) (\<lambda>delegatorUnbonded.
        failIf (0 < delegatorBonded \<or> 0 < delegatorUnbonded) Coredaos_ErrCannotStake))))"

definition dao_UpdateParams ::
  "('m, 'x) dao_env \<Rightarrow> string \<Rightarrow> dao_params \<Rightarrow> ('m, 'x) chain \<Rightarrow> ('m, 'x) chain res" where
  "dao_UpdateParams D authority params c =
     bindR (failIf (deAuthority D \<noteq> authority) Coredaos_ErrInvalidSigner) (\<lambda>_.
     bindR (unstaked D (wExt (snd c)) (SteeringDaoAddress params)) (\<lambda>_.
     bindR (unstaked D (wExt (snd c)) (OversightDaoAddress params)) (\<lambda>_.
     Ok (Value params, snd c))))"

text \<open>A message of a transaction: it is validated, then given to its handler.\<close>

definition handle_dao_msg ::
  "('m, 'x) dao_env \<Rightarrow> time \<Rightarrow> dao_msg \<Rightarrow> ('m, 'x) chain \<Rightarrow> ('m, 'x) chain res" where
  "handle_dao_msg D blockTime msg c =
     bindR (dao_msg_ValidateBasic (geAddr (deGov D)) msg) (\<lambda>_.
     case msg of
       MsgUpdateDaoParams authority params \<Rightarrow> dao_UpdateParams D authority params c
     | _ \<Rightarrow>
         bindR (dao_GetParams (fst c)) (\<lambda>params.
         bindR (case msg of
             MsgAnnotateProposal annotator i annotation overwrite \<Rightarrow>
               AnnotateProposal params annotator i annotation overwrite (snd c)
           | MsgEndorseProposal endorser i \<Rightarrow> EndorseProposal params endorser i (snd c)
           | MsgExtendVotingPeriod extender i \<Rightarrow> ExtendVotingPeriod params extender i (snd c)
           | MsgVetoProposal vetoer i burn \<Rightarrow> VetoProposal (deGov D) blockTime params vetoer i burn (snd c)
           | _ \<Rightarrow> Panic) (\<lambda>w. Ok (fst c, w))))"

section \<open>The staking hook\<close>

text \<open>\<open>BeforeDelegationCreated\<close> and \<open>BeforeDelegationSharesModified\<close>; the other hooks do nothing.\<close>

definition validateDelegation :: "('m, 'x) gov_env \<Rightarrow> dao_params \<Rightarrow> addr \<Rightarrow> unit res" where
  "validateDelegation E params delAddr =
     bindR (if SteeringDaoAddress params \<noteq> []
        then bindR (must_addr E (SteeringDaoAddress params)) (\<lambda>a. failIf (delAddr = a) Coredaos_ErrCannotStake)
        else Ok ()) (\<lambda>_.
     if OversightDaoAddress params \<noteq> []
     then bindR (must_addr E (OversightDaoAddress params)) (\<lambda>a. failIf (delAddr = a) Coredaos_ErrCannotStake)
     else Ok ())"

definition BeforeDelegationCreated :: "('m, 'x) gov_env \<Rightarrow> dao_params cell \<Rightarrow> addr \<Rightarrow> unit res" where
  "BeforeDelegationCreated E st delAddr =
     bindR (dao_GetParams st) (\<lambda>params. validateDelegation E params delAddr)"

definition BeforeDelegationSharesModified :: "('m, 'x) gov_env \<Rightarrow> dao_params cell \<Rightarrow> addr \<Rightarrow> unit res" where
  "BeforeDelegationSharesModified E st delAddr =
     bindR (dao_GetParams st) (\<lambda>params. validateDelegation E params delAddr)"

section \<open>Genesis\<close>

definition dao_InitGenesis :: "addr_lib \<Rightarrow> dao_params \<Rightarrow> dao_params cell res" where
  "dao_InitGenesis A params = bindR (panicOnErr (dao_Params_ValidateBasic A params)) (\<lambda>_. Ok (Value params))"

definition dao_ExportGenesis :: "dao_params cell \<Rightarrow> dao_params res" where
  "dao_ExportGenesis st = dao_GetParams st"

section \<open>The proposals seen through the keeper\<close>

text \<open>
  What the module relies on of the governance keeper: a written proposal is read back, and the
  others are as they were.
\<close>

locale proposal_store =
  fixes get :: "'w \<Rightarrow> u64 \<Rightarrow> 'm proposal option"
    and set :: "'m proposal \<Rightarrow> 'w \<Rightarrow> 'w"
  assumes get_set: "get (set p w) i = (if i = prId p then Some p else get w i)"
begin

lemma edit_one:
  assumes "get w i = Some p" "prId p = i" "prId p' = prId p"
  shows "get (set p' w) j = (if j = i then Some p' else get w j)"
  using assms get_set by simp

lemma edit_twice: "prId p' = prId p \<Longrightarrow> get (set p' (set p w)) j = get (set p' w) j"
  by (simp add: get_set)

end

interpretation gov_keeper: proposal_store GetProposal SetProposal
  by unfold_locales simp

section \<open>What the DAOs may do\<close>

text \<open>The proposal a message names, when it is allowed on it, and what it makes of it.\<close>

fun dao_target :: "dao_msg \<Rightarrow> u64" where
  "dao_target (MsgAnnotateProposal _ i _ _) = i"
| "dao_target (MsgEndorseProposal _ i) = i"
| "dao_target (MsgExtendVotingPeriod _ i) = i"
| "dao_target (MsgVetoProposal _ i _) = i"
| "dao_target (MsgUpdateDaoParams _ _) = 0"

fun dao_allows :: "dao_params \<Rightarrow> dao_msg \<Rightarrow> 'm proposal \<Rightarrow> bool" where
  "dao_allows P (MsgAnnotateProposal a _ _ overwrite) p \<longleftrightarrow>
     a = SteeringDaoAddress P \<and> a \<noteq> [] \<and> (prAnnotation p = [] \<or> overwrite)"
| "dao_allows P (MsgEndorseProposal a _) p \<longleftrightarrow> a = SteeringDaoAddress P \<and> a \<noteq> [] \<and> \<not> prEndorsed p"
| "dao_allows P (MsgExtendVotingPeriod a _) p \<longleftrightarrow>
     (a = SteeringDaoAddress P \<or> a = OversightDaoAddress P) \<and> prTimesVotingPeriodExtended p < VotingPeriodExtensionsLimit P"
| "dao_allows P (MsgVetoProposal a _ _) p \<longleftrightarrow> a = OversightDaoAddress P \<and> a \<noteq> []"
| "dao_allows P (MsgUpdateDaoParams _ _) p \<longleftrightarrow> False"

fun dao_effect :: "dao_params \<Rightarrow> dao_msg \<Rightarrow> 'm proposal \<Rightarrow> 'm proposal" where
  "dao_effect P (MsgAnnotateProposal _ _ a _) p = p\<lparr>prAnnotation := a\<rparr>"
| "dao_effect P (MsgEndorseProposal _ _) p = p\<lparr>prEndorsed := True\<rparr>"
| "dao_effect P (MsgExtendVotingPeriod _ _) p =
     p\<lparr>prVotingEndTime := (case (prVotingEndTime p, VotingPeriodExtensionDuration P) of
         (Some t, Some d) \<Rightarrow> Some (time_add t d) | _ \<Rightarrow> None),
       prTimesVotingPeriodExtended := prTimesVotingPeriodExtended p + 1\<rparr>"
| "dao_effect P (MsgVetoProposal _ _ _) p = p\<lparr>prStatus := StatusVetoed, prFinalTallyResult := Some EmptyTallyResult\<rparr>"
| "dao_effect P (MsgUpdateDaoParams _ _) p = p"

lemma under_vote_Ok [simp]:
  "proposal_under_vote w i = Ok p \<longleftrightarrow> GetProposal w i = Some p \<and> prStatus p = StatusVotingPeriod"
  by (auto simp: proposal_under_vote_def)

lemma only_dao_Ok [simp]: "only_dao d s = Ok u \<longleftrightarrow> d \<noteq> [] \<and> s = d"
  by (auto simp: only_dao_def)

lemma DeleteVotes_frame: "DeleteVotes E i w = Ok w' \<Longrightarrow> frame w w'"
  unfolding DeleteVotes_def by (erule foldR_frame) (auto dest: deleteVote_frame)

text \<open>A veto writes the proposal, takes it from the queue, and counts one less.\<close>

lemma veto_core:
  assumes ve: "VetoProposal E B P a i burn w = Ok w'" and p: "GetProposal w i = Some p" "prId p = i" "prVotingEndTime p = Some t"
  defines "p' \<equiv> p\<lparr>prStatus := StatusVetoed, prFinalTallyResult := Some EmptyTallyResult\<rparr>"
  shows "prStatus p = StatusVotingPeriod" "a = OversightDaoAddress P" "a \<noteq> []"
    "core (wGov w') = (kv_set i p' (gProposals (wGov w)), gProposalID (wGov w), gInactiveQueue (wGov w),
      gInactiveNumber (wGov w), kv_del (t, i) (gActiveQueue (wGov w)), Some (counter (gActiveNumber (wGov w)) - 1),
      kv_del i (gVotingPeriod (wGov w)), gQuorumQueue (wGov w), gParams (wGov w))"
proof -
  from ve p obtain w1 w2 w3 w4 where st: "prStatus p = StatusVotingPeriod" "a = OversightDaoAddress P" "a \<noteq> []"
    and money: "(if burn then DeleteAndBurnDeposits E i w else RefundAndDeleteDeposits E i w) = Ok w1"
    and votes: "DeleteVotes E i (SetProposal p' w1) = Ok w2"
    and dec: "DecrementActiveProposalsNumber (RemoveFromActiveProposalQueue i t w2) = Ok w3"
    and mins: "UpdateMinInitialDeposit E B True w3 = Ok w4" "UpdateMinDeposit E B True w4 = Ok w'"
    unfolding VetoProposal_def Let_def p'_def by auto
  show "prStatus p = StatusVotingPeriod" "a = OversightDaoAddress P" "a \<noteq> []" by (rule st)+
  let ?w3 = "RemoveFromActiveProposalQueue i t w2"
  have w3: "w3 = SetActiveProposalsNumber (GetActiveProposalsNumber ?w3 - 1) ?w3"
    using dec by (simp add: DecrementActiveProposalsNumber_def Let_def split: if_splits)
  have "frame w w1" using money by (auto split: if_splits intro: frameI)
  then have c1: "core (wGov w1) = core (wGov w)" by (simp add: frame_def)
  have c2: "core (wGov w2) = core (wGov (SetProposal p' w1))" using DeleteVotes_frame [OF votes] by (simp add: frame_def)
  have "core (wGov w') = core (wGov w3)" using mins by (metis frame_def UpdateMinInitialDeposit_frame UpdateMinDeposit_frame)
  then show "core (wGov w') = (kv_set i p' (gProposals (wGov w)), gProposalID (wGov w), gInactiveQueue (wGov w),
      gInactiveNumber (wGov w), kv_del (t, i) (gActiveQueue (wGov w)), Some (counter (gActiveNumber (wGov w)) - 1),
      kv_del i (gVotingPeriod (wGov w)), gQuorumQueue (wGov w), gParams (wGov w))"
    using c1 c2 p(2) by (auto simp: core_def w3 p'_def SetActiveProposalsNumber_def GetActiveProposalsNumber_def
        RemoveFromActiveProposalQueue_def SetProposal_def)
qed

lemma queue_get [simp]:
  "GetProposal (InsertActiveProposalQueue k t w) i = GetProposal w i"
  "GetProposal (RemoveFromActiveProposalQueue k t w) i = GetProposal w i"
  by (simp_all add: GetProposal_def InsertActiveProposalQueue_def RemoveFromActiveProposalQueue_def)

text \<open>
  C10: a message of a DAO is accepted only for a proposal under vote, from the DAO that has the
  power, and within its limits (an existing annotation is kept unless it is to be overwritten, an
  endorsement happens once, extensions are counted); its whole effect on the proposals is the one
  change \<open>dao_effect\<close> to that proposal, and the parameters stay.
\<close>

theorem dao_message_refines:
  assumes h: "handle_dao_msg D B msg (st, w) = Ok (st', w')" and w: "winv (deGov D) w"
    and P: "dao_GetParams st = Ok P" and m: "\<And>au q. msg \<noteq> MsgUpdateDaoParams au q"
  shows "st' = st \<and> (\<exists>p. GetProposal w (dao_target msg) = Some p \<and> prStatus p = StatusVotingPeriod \<and>
    dao_allows P msg p \<and>
    (\<forall>j. GetProposal w' j = (if j = dao_target msg then Some (dao_effect P msg p) else GetProposal w j)))"
proof (cases msg)
  case (MsgAnnotateProposal a i an ov)
  with h P obtain p where p: "GetProposal w i = Some p" and "w' = SetProposal (p\<lparr>prAnnotation := an\<rparr>) w" "st' = st"
    "prStatus p = StatusVotingPeriod" "dao_allows P msg p"
    by (auto simp: handle_dao_msg_def AnnotateProposal_def)
  with MsgAnnotateProposal winv_proposal(1) [OF w p] show ?thesis
    by (auto simp: gov_keeper.edit_one [OF p])
next
  case (MsgEndorseProposal a i)
  with h P obtain p where p: "GetProposal w i = Some p" and "w' = SetProposal (p\<lparr>prEndorsed := True\<rparr>) w" "st' = st"
    "prStatus p = StatusVotingPeriod" "dao_allows P msg p"
    by (auto simp: handle_dao_msg_def EndorseProposal_def)
  with MsgEndorseProposal winv_proposal(1) [OF w p] show ?thesis
    by (auto simp: gov_keeper.edit_one [OF p])
next
  case (MsgExtendVotingPeriod a i)
  with h P obtain p t d where p: "GetProposal w i = Some p" and r: "prVotingEndTime p = Some t"
    "VotingPeriodExtensionDuration P = Some d" "st' = st" "prStatus p = StatusVotingPeriod" "dao_allows P msg p"
    "w' = SetProposal (p\<lparr>prVotingEndTime := Some (time_add t d),
       prTimesVotingPeriodExtended := prTimesVotingPeriodExtended p + 1\<rparr>)
      (InsertActiveProposalQueue (prId p) (time_add t d) (RemoveFromActiveProposalQueue (prId p) t w))"
    by (auto simp: handle_dao_msg_def ExtendVotingPeriod_def Let_def not_le)
  with MsgExtendVotingPeriod winv_proposal(1) [OF w p] show ?thesis by auto
next
  case (MsgVetoProposal a i b)
  with h P have v: "VetoProposal (deGov D) B P a i b w = Ok w'" and st: "st' = st"
    by (auto simp: handle_dao_msg_def)
  then obtain p where p: "GetProposal w i = Some p" "prStatus p = StatusVotingPeriod" by (auto simp: VetoProposal_def)
  note ok = winv_proposal [OF w p(1)]
  obtain t where t: "prVotingEndTime p = Some t" using ok(2) p(2) by (auto simp: proposal_ok_def)
  note c = veto_core [OF v p(1) ok(1) t]
  have "GetProposal w' j = (if j = i then Some (dao_effect P msg p) else GetProposal w j)" for j
    using core_eqD(1) [OF c(4)] MsgVetoProposal by (simp add: GetProposal_def)
  with MsgVetoProposal st p c(2,3) show ?thesis by auto
qed (use m in blast)

text \<open>The state stays well-formed; a veto needs that no quorum check of the proposal is pending.\<close>

definition dao_params_ok :: "dao_params cell \<Rightarrow> bool" where
  "dao_params_ok st \<longleftrightarrow> (\<forall>P. dao_GetParams st = Ok P \<longrightarrow>
     (\<forall>d. VotingPeriodExtensionDuration P = Some d \<longrightarrow> 0 < d))"

definition no_check_pending :: "dao_msg \<Rightarrow> ('m, 'x) world \<Rightarrow> bool" where
  "no_check_pending msg w \<longleftrightarrow> (case msg of
     MsgVetoProposal _ i _ \<Rightarrow> (\<forall>(t, j) \<in> fst ` set (gQuorumQueue (wGov w)). j \<noteq> i) | _ \<Rightarrow> True)"

lemma dao_params_valid:
  assumes "dao_Params_ValidateBasic A P = Ok ()"
  shows "dao_params_ok (Value P)"
  using assms by (auto simp: dao_Params_ValidateBasic_def dao_params_ok_def dao_GetParams_def not_le)

lemma dao_message_winv:
  assumes h: "handle_dao_msg D B msg (st, w) = Ok (st', w')" and w: "winv (deGov D) w" and st: "dao_params_ok st"
    and q: "no_check_pending msg w"
  shows "winv (deGov D) w'" "dao_params_ok st'" "room w n \<Longrightarrow> room w' n"
    "GetProposal w i = Some p \<Longrightarrow> decided p \<Longrightarrow> GetProposal w' i = Some p"
proof -
  have edit: "winv (deGov D) w' \<and> (\<forall>n. room w n \<longrightarrow> room w' n)"
    if "GetProposal w i = Some p" "w' = SetProposal p' w" "same_fields p' p" "prId p' = prId p" "\<not> decided p" for i p p'
    using update_moves [of w p' p _ B] that winv_proposal(1) [OF w that(1)] w winv_room [OF w] by (auto simp: moves_def)
  have kept: "GetProposal w' i = Some p"
    if m: "\<And>au q. msg \<noteq> MsgUpdateDaoParams au q" and p: "GetProposal w i = Some p" "decided p" for i p
  proof -
    obtain P where "dao_GetParams st = Ok P" using h m by (cases msg) (auto simp: handle_dao_msg_def)
    from dao_message_refines [OF h w this m] p show ?thesis by (auto simp: decided_def)
  qed
  have "winv (deGov D) w' \<and> dao_params_ok st' \<and> (\<forall>n. room w n \<longrightarrow> room w' n) \<and>
      (\<forall>i p. GetProposal w i = Some p \<and> decided p \<longrightarrow> GetProposal w' i = Some p)"
  proof (cases msg)
    case (MsgAnnotateProposal a i an ov)
    with h obtain p where "GetProposal w i = Some p" and "w' = SetProposal (p\<lparr>prAnnotation := an\<rparr>) w" "st' = st"
      "prStatus p = StatusVotingPeriod"
      by (auto simp: handle_dao_msg_def AnnotateProposal_def)
    with edit [of i p "p\<lparr>prAnnotation := an\<rparr>"] kept MsgAnnotateProposal st show ?thesis
      by (auto simp: same_fields_def decided_def)
  next
    case (MsgEndorseProposal a i)
    with h obtain p where "GetProposal w i = Some p" and "w' = SetProposal (p\<lparr>prEndorsed := True\<rparr>) w" "st' = st"
      "prStatus p = StatusVotingPeriod"
      by (auto simp: handle_dao_msg_def EndorseProposal_def)
    with edit [of i p "p\<lparr>prEndorsed := True\<rparr>"] kept MsgEndorseProposal st show ?thesis
      by (auto simp: same_fields_def decided_def)
  next
    case (MsgExtendVotingPeriod a i)
    with h obtain P p t d where P: "dao_GetParams st = Ok P" and p: "GetProposal w i = Some p" and r: "prVotingEndTime p = Some t"
      "VotingPeriodExtensionDuration P = Some d" "st' = st" "prStatus p = StatusVotingPeriod"
      "w' = SetProposal (p\<lparr>prVotingEndTime := Some (time_add t d),
         prTimesVotingPeriodExtended := prTimesVotingPeriodExtended p + 1\<rparr>)
        (InsertActiveProposalQueue (prId p) (time_add t d) (RemoveFromActiveProposalQueue (prId p) t w))"
      by (auto simp: handle_dao_msg_def ExtendVotingPeriod_def Let_def)
    note ok = winv_proposal [OF w p]
    have v: "in_vote w t i" using r(1,4) in_vote_iff [OF p] by blast
    have d: "0 < d" using st P r(2) by (simp add: dao_params_ok_def)
    let ?p = "p\<lparr>prVotingEndTime := Some (time_add t d), prTimesVotingPeriodExtended := prTimesVotingPeriodExtended p + 1\<rparr>"
    have "proposal_ok ?p" using ok(2) r(4) by (simp add: proposal_ok_def)
    note le = later_end [OF w p v _ _ this, of "time_add t d", simplified]
    have "winv (deGov D) w'" "checks w w'" using le [of w'] d r(4,5) ok(1) by (simp_all add: time_add_def)
    then show ?thesis using r(3) st by (auto simp: checks_def room_def)
  next
    case (MsgVetoProposal a i b)
    with h obtain P where v: "VetoProposal (deGov D) B P a i b w = Ok w'" and st': "st' = st"
      by (auto simp: handle_dao_msg_def)
    then obtain p where p: "GetProposal w i = Some p" "prStatus p = StatusVotingPeriod" by (auto simp: VetoProposal_def)
    note ok = winv_proposal [OF w p(1)]
    obtain t where t: "prVotingEndTime p = Some t" using ok(2) p(2) by (auto simp: proposal_ok_def)
    have vote: "in_vote w t i" using p(2) t in_vote_iff [OF p(1)] by blast
    have none: "\<not> kv_has (gQuorumQueue (wGov w)) (s, i)" for s
      using q MsgVetoProposal unfolding no_check_pending_def kv_has_in_keys by force
    let ?p = "p\<lparr>prStatus := StatusVetoed, prFinalTallyResult := Some EmptyTallyResult\<rparr>"
    have pk: "prId ?p = i" "proposal_ok ?p" "decided ?p" "sane_msgs (prMessages ?p)"
      using ok by (simp_all add: proposal_ok_def decided_def)
    from close_vote [OF w p(1) vote none pk veto_core(4) [OF v p(1) ok(1) t]] show ?thesis
      using kept MsgVetoProposal st st' by auto
  next
    case (MsgUpdateDaoParams au P)
    with h have "st' = Value P" "w' = w" "dao_Params_ValidateBasic (geAddr (deGov D)) P = Ok ()"
      by (auto simp: handle_dao_msg_def dao_UpdateParams_def)
    with w dao_params_valid show ?thesis by auto
  qed
  then show "winv (deGov D) w'" "dao_params_ok st'" "room w n \<Longrightarrow> room w' n"
    "GetProposal w i = Some p \<Longrightarrow> decided p \<Longrightarrow> GetProposal w' i = Some p" by blast+
qed

section \<open>Examples and further properties\<close>

definition std_dao_params :: dao_params where
  "std_dao_params = dao_NewParams (ToBech32 std_addr [3]) (ToBech32 std_addr [4]) 3 10"

definition std_dao_env :: "(unit, std_state) dao_env" where
  "std_dao_env = \<lparr>deGov = std_gov_env, deAuthority = ''gov'', deBonded = (\<lambda>_ _. Ok 0), deUnbonding = (\<lambda>_ _. Ok 0)\<rparr>"

lemma std_dao_simps [simp]: "deGov std_dao_env = std_gov_env" "dao_GetParams (Value p) = Ok p"
  by (simp_all add: std_dao_env_def dao_GetParams_def)

lemma std_dao_params_ok: "dao_params_ok (Value std_dao_params)"
  by (simp add: dao_params_ok_def std_dao_params_def dao_NewParams_def)

lemma std_extend: "\<exists>w'. handle_dao_msg std_dao_env 20 (MsgExtendVotingPeriod (ToBech32 std_addr [3]) 1) (Value std_dao_params, std_world)
    = Ok (Value std_dao_params, w')"
  by (simp add: handle_dao_msg_def valid_address_def ExtendVotingPeriod_def proposal_under_vote_def std_dao_params_def
      dao_NewParams_def Let_def) (simp add: std_addr_def std_voting_def NewProposal_def)

theorem dao_message_refines_witness:
  "\<exists>w'. handle_dao_msg std_dao_env 20 (MsgExtendVotingPeriod (ToBech32 std_addr [3]) 1) (Value std_dao_params, std_world)
     = Ok (Value std_dao_params, w') \<and> map_option prVotingEndTime (GetProposal w' 1) = Some (Some 110)"
proof -
  obtain w' where w': "handle_dao_msg std_dao_env 20 (MsgExtendVotingPeriod (ToBech32 std_addr [3]) 1)
      (Value std_dao_params, std_world) = Ok (Value std_dao_params, w')"
    using std_extend by blast
  from dao_message_refines [OF w', of std_dao_params] std_world_winv w' show ?thesis
    by (auto simp: std_dao_params_def dao_NewParams_def time_add_def)
qed

text \<open>
  A DAO that stakes cannot be named in the parameters, and a DAO that is named cannot
  stake: once an update is accepted, each of the two had no bonded and no unbonding tokens, and
  the staking hook refuses every delegation of either, and of nobody else.
\<close>

theorem daos_do_not_stake:
  assumes ok: "handle_dao_msg D B (MsgUpdateDaoParams authority P) c = Ok (st', w')"
  shows "w' = snd c \<and> authority = deAuthority D \<and>
    (\<forall>dao \<in> {SteeringDaoAddress P, OversightDaoAddress P} - {[]}. \<exists>a b u. FromBech32 (geAddr (deGov D)) dao = Some a \<and>
       deBonded D (wExt w') a = Ok b \<and> b \<le> 0 \<and> deUnbonding D (wExt w') a = Ok u \<and> u \<le> 0) \<and>
    (\<forall>a. BeforeDelegationCreated (deGov D) st' a =
       (if \<exists>dao \<in> {SteeringDaoAddress P, OversightDaoAddress P} - {[]}. FromBech32 (geAddr (deGov D)) dao = Some a
        then Err Coredaos_ErrCannotStake else Ok ()))"
proof -
  from ok have p: "dao_Params_ValidateBasic (geAddr (deGov D)) P = Ok ()"
    and u: "unstaked D (wExt (snd c)) (SteeringDaoAddress P) = Ok ()" "unstaked D (wExt (snd c)) (OversightDaoAddress P) = Ok ()"
    and a: "authority = deAuthority D" "st' = Value P" "w' = snd c"
    by (auto simp: handle_dao_msg_def dao_UpdateParams_def)
  have "\<exists>a b u. FromBech32 (geAddr (deGov D)) dao = Some a \<and>
       deBonded D (wExt w') a = Ok b \<and> b \<le> 0 \<and> deUnbonding D (wExt w') a = Ok u \<and> u \<le> 0"
    if "dao \<in> {SteeringDaoAddress P, OversightDaoAddress P} - {[]}" for dao
    using that u a(3) by (auto simp: unstaked_def must_addr_def not_less)
  note staked = this
  have known: "\<exists>x. FromBech32 (geAddr (deGov D)) dao = Some x" if "dao \<in> {SteeringDaoAddress P, OversightDaoAddress P} - {[]}" for dao
    using staked [OF that] by blast
  have hook: "BeforeDelegationCreated (deGov D) st' x = validateDelegation (deGov D) P x" for x
    by (simp add: BeforeDelegationCreated_def a(2) dao_GetParams_def)
  let ?s = "SteeringDaoAddress P" and ?o = "OversightDaoAddress P" and ?b = "FromBech32 (geAddr (deGov D))"
  have "validateDelegation (deGov D) P x = (if (?s \<noteq> [] \<and> ?b ?s = Some x) \<or> (?o \<noteq> [] \<and> ?b ?o = Some x)
      then Err Coredaos_ErrCannotStake else Ok ())" for x
  proof -
    have "?s \<noteq> [] \<longrightarrow> (\<exists>y. ?b ?s = Some y)" "?o \<noteq> [] \<longrightarrow> (\<exists>y. ?b ?o = Some y)" using known by simp_all
    then show ?thesis
      by (cases "?b ?s"; cases "?b ?o") (auto simp: validateDelegation_def must_addr_def failIf_def)
  qed
  moreover have "(\<exists>dao \<in> {?s, ?o} - {[]}. ?b dao = Some x) \<longleftrightarrow> (?s \<noteq> [] \<and> ?b ?s = Some x) \<or> (?o \<noteq> [] \<and> ?b ?o = Some x)" for x
    by blast
  ultimately have "BeforeDelegationCreated (deGov D) st' x =
       (if \<exists>dao \<in> {?s, ?o} - {[]}. ?b dao = Some x then Err Coredaos_ErrCannotStake else Ok ())" for x
    by (simp add: hook)
  with a staked show ?thesis by blast
qed

theorem daos_do_not_stake_witness:
  "BeforeDelegationCreated std_gov_env (Value std_dao_params) [4] = Err Coredaos_ErrCannotStake"
proof -
  have "handle_dao_msg std_dao_env 20 (MsgUpdateDaoParams ''gov'' std_dao_params) (Absent, std_world) =
      Ok (Value std_dao_params, std_world)"
    by (simp add: handle_dao_msg_def dao_UpdateParams_def valid_address_def dao_Params_ValidateBasic_def unstaked_def
        must_addr_def std_dao_params_def dao_NewParams_def failIf_def)
      (simp add: std_dao_env_def std_addr_def, rule exI [of _ 0], simp)
  from daos_do_not_stake [OF this] show ?thesis
    by (simp add: std_dao_params_def dao_NewParams_def) (simp add: std_addr_def)
qed

text \<open>
  C21: a veto does not take the pending quorum check of the proposal from the queue. When it
  falls due and the quorum counts as reached, the proposal, still vetoed, is put back into the
  queue of proposals under vote, where the end blocker will tally it.
\<close>

theorem veto_undone_by_quorum_check:
  assumes w: "winv E w" and ve: "VetoProposal E B P a i burn w = Ok w1"
    and e: "kv_get (gQuorumQueue (wGov w)) (t, i) = Some e" "0 < qeChecksDone e"
    and p1: "GetProposal w1 i = Some p1" and tv: "prVotingEndTime p1 = Some tv" "tv < time_add B' x"
    and q: "HasReachedQuorum E p1 (RemoveFromQuorumCheckQueue i t w1) = Ok True"
    and x: "gpMaxVotingPeriodExtension (gov_GetParams w1) = Some x"
  shows "kv_get (gQuorumQueue (wGov w1)) (t, i) = Some e \<and> prStatus p1 = StatusVetoed \<and>
    (\<exists>w2 p2. check_quorum E B' p1 t e w1 = Ok (False, w2) \<and> kv_has (gActiveQueue (wGov w2)) (time_add B' x, i) \<and>
       GetProposal w2 i = Some p2 \<and> prStatus p2 = StatusVetoed)"
proof -
  from ve obtain p where p: "GetProposal w i = Some p" "prStatus p = StatusVotingPeriod" by (auto simp: VetoProposal_def)
  note ok = winv_proposal [OF w p(1)]
  obtain s where s: "prVotingEndTime p = Some s" using ok(2) p(2) by (auto simp: proposal_ok_def)
  note fields = core_eqD [OF veto_core(4) [OF ve p(1) ok(1) s]]
  have p1': "prStatus p1 = StatusVetoed" "prId p1 = i" using p1 fields(1) ok(1) by (auto simp: GetProposal_def)
  have "gov_GetParams (RemoveFromQuorumCheckQueue i t w1) = gov_GetParams w1"
    by (simp add: RemoveFromQuorumCheckQueue_def)
  with e q x tv p1' show ?thesis
    by (simp add: fields(8) check_quorum_def Let_def extend_voting_def time_after_def)
      (simp add: SetProposal_def InsertActiveProposalQueue_def RemoveFromActiveProposalQueue_def GetProposal_def)
qed

text \<open>The chain of the example with quorum checks and no minimum quorum, and a check pending.\<close>

definition std_check :: quorum_entry where
  "std_check = \<lparr>qeTimeoutTime = Some 15, qeCheckCount = 3, qeChecksDone = 1\<rparr>"

definition std_check_params :: gov_params where
  "std_check_params = std_gov_params\<lparr>gpQuorumRange := Some \<lparr>qrMax = show_dec 0, qrMin = show_dec 0\<rparr>, gpQuorumCheckCount := 3\<rparr>"

definition std_check_world :: "(unit, std_state) world" where
  "std_check_world = on_gov (\<lambda>g. g\<lparr>gParams := Some std_check_params, gQuorumQueue := [((60, 1), std_check)]\<rparr>) std_world"

lemma std_check_params_ok: "params_ok std_gov_env std_check_params"
proof -
  have "gov_params_ok std_dec std_coins std_check_params"
    by (simp add: gov_params_ok_def std_check_params_def std_gov_params_def gov_DefaultParams_def Let_def gov_NewParams_def range_ok_def
        throttler_facts_def dec_with_prec_def dec_of_int_def dec_unit_def DefaultDepositPeriod_def DefaultVotingPeriod_def
        hour_def second_def maxDecreaseSensitivity_def read_show_dec std_coins_def std_valid_def wrap_int64_id in_int64_def max_int64_def min_int64_def)
  then show ?thesis by (simp add: params_ok_def sane_params_def std_check_params_def)
qed

lemma std_check_winv: "winv std_gov_env std_check_world"
proof -
  let ?g = "wGov std_check_world"
  have v: "live StatusVotingPeriod prVotingEndTime (gProposals (wGov std_world)) 100 1"
    by (simp add: live_def) (simp add: std_world_def std_voting_store_def kv_get_def)
  have g: "gQuorumQueue ?g = [((60, 1), std_check)]" "gProposals ?g = gProposals (wGov std_world)" 
    by (simp_all add: std_check_world_def)
  have "quorum_ok (gProposals ?g) (gQuorumQueue ?g)"
    unfolding quorum_ok_def g using v by (auto simp: kv_wf_def kv_get_def std_check_def split: if_splits)
  then have "gov_inv ?g"
    using winv_parts(1) [OF std_world_winv] by (simp add: gov_inv_def parts_ok_def g) (simp add: std_check_world_def)
  moreover have "extra_ok (gProposals ?g) (gQuorumQueue ?g)"
    using winv_parts(2) [OF std_world_winv] by (auto simp: extra_ok_def g kv_get_def std_check_def entry_ok_def split: if_splits)
  moreover have "gov_GetParams std_check_world = std_check_params" by (simp add: gov_GetParams_def std_check_world_def)
  ultimately show ?thesis using std_check_params_ok by (simp add: winv_def)
qed

definition std_vetoed :: "(unit, std_state) world" where
  "std_vetoed = \<lparr>wGov = std_gov_store\<lparr>gProposals := [(1, std_voting\<lparr>prStatus := StatusVetoed,
      prFinalTallyResult := Some EmptyTallyResult\<rparr>)], gProposalID := Some 2, gActiveNumber := Some 0,
      gQuorumQueue := [((60, 1), std_check)], gParams := Some std_check_params\<rparr>, wExt = wExt std_after\<rparr>"

lemma std_veto: "VetoProposal std_gov_env 30 std_dao_params (ToBech32 std_addr [4]) 1 False std_check_world = Ok (std_floors 30 std_vetoed)"
proof -
  have d: "GetDeposits std_check_world 1 = [NewDeposit std_addr 1 [2] [\<lparr>Denom = ''stake'', Amount = 500\<rparr>]]"
    by (rule std_deposits) (simp add: std_check_world_def)
  have p: "GetProposal std_check_world 1 = Some std_voting" using std_world_proposal [of 1] by (simp add: GetProposal_def std_check_world_def)
  have ne: "ToBech32 std_addr [4] \<noteq> []" by (simp add: std_addr_def)
  have "std_quiet std_vetoed"
    by (simp add: std_quiet_def) (simp add: gov_GetParams_def std_vetoed_def std_check_params_def std_gov_store_def
        GetInactiveProposalsNumber_def GetActiveProposalsNumber_def)
  from std_block_end [OF this, of 30] show ?thesis
    by (simp add: VetoProposal_def only_dao_def std_dao_params_def dao_NewParams_def proposal_under_vote_def ne p
        RefundAndDeleteDeposits_def d Let_def NewDeposit_def must_addr_def)
      (simp add: on_ext_def delete_deposit_def
        addr_key_def SetProposal_def on_gov_def std_check_world_def std_world_def std_voting_store_def std_gov_store_def
        std_bank_state_def std_move_def std_covers_def amt_Cons RemoveFromActiveProposalQueue_def
        DecrementActiveProposalsNumber_def GetActiveProposalsNumber_def SetActiveProposalsNumber_def kv_del_def
        gov_ModuleName_def DeleteVotes_def GetVotes_def kv_under_def std_vote_def NewVote_def must_addr_def deleteVote_def Let_def
        std_vetoed_def std_after_def)
qed

lemma std_quorum_zero: "HasReachedQuorum std_gov_env (std_voting\<lparr>prStatus := StatusVetoed, prFinalTallyResult := Some EmptyTallyResult\<rparr>)
   (RemoveFromQuorumCheckQueue 1 60 (std_floors 30 std_vetoed)) = Ok True"
proof -
  let ?w = "RemoveFromQuorumCheckQueue 1 60 (std_floors 30 std_vetoed)"
  let ?p = "std_voting\<lparr>prStatus := StatusVetoed, prFinalTallyResult := Some EmptyTallyResult\<rparr>"
  have "gov_GetParams ?w = std_check_params" "gEma (wGov ?w) = show_dec 0" "GetVotes ?w 1 = []"
    by (simp_all add: std_floors_def std_vetoed_def gov_GetParams_def RemoveFromQuorumCheckQueue_def SetLastMinDeposit_def
        SetLastMinInitialDeposit_def GetVotes_def kv_under_def std_gov_store_def)
  moreover have "ProposalKinds ?p = 1" using ProposalKinds_cong [of ?p std_voting] by simp
  ultimately show ?thesis
    by (simp add: HasReachedQuorum_def tallyVotes_def getQuorumAndThreshold_def kind_bits GetQuorum_def quorum_from_def
        GetParticipationEMA_def ema_get_def Let_def read_show_dec std_check_params_def computeQuorum_def round_div_def dec_unit_def dec_of_int_def)
qed

theorem veto_undone_by_quorum_check_witness:
  "\<exists>w2 p2. check_quorum std_gov_env 60 (std_voting\<lparr>prStatus := StatusVetoed, prFinalTallyResult := Some EmptyTallyResult\<rparr>) 60
      std_check (std_floors 30 std_vetoed) = Ok (False, w2) \<and> GetProposal w2 1 = Some p2 \<and> prStatus p2 = StatusVetoed \<and>
     kv_has (gActiveQueue (wGov w2)) (60 + hour * 24, 1)"
proof -
  have g: "kv_get (gQuorumQueue (wGov std_check_world)) (60, 1) = Some std_check" by (simp add: std_check_world_def kv_get_def)
  have p: "GetProposal (std_floors 30 std_vetoed) 1 = Some (std_voting\<lparr>prStatus := StatusVetoed, prFinalTallyResult := Some EmptyTallyResult\<rparr>)"
    by (simp add: GetProposal_def std_floors_def SetLastMinDeposit_def SetLastMinInitialDeposit_def std_vetoed_def kv_get_def)
  have x: "gpMaxVotingPeriodExtension (gov_GetParams (std_floors 30 std_vetoed)) = Some (hour * 24)"
    by (simp add: gov_GetParams_def std_floors_def SetLastMinDeposit_def SetLastMinInitialDeposit_def std_vetoed_def
        std_check_params_def std_gov_params_def gov_DefaultParams_def Let_def gov_NewParams_def)
  show ?thesis
    using veto_undone_by_quorum_check [OF std_check_winv std_veto g _ p _ _ std_quorum_zero x, of 100 60]
    by (simp add: std_check_def time_add_def) (auto simp: hour_def second_def)
qed
end
