(* ===== verification/Gov_Genesis.thy ===== *)
theory Gov_Genesis
  imports Gov_Vote
begin

text \<open>
  \<open>x/gov/genesis.go\<close> and \<open>keeper/invariants.go\<close>: import and export of the state, and the module
  account invariant. \<open>balances\<close> is what the bank holds for the module account, and
  \<open>SetModuleAccount\<close> is the account keeper's.
\<close>

record 'x module_account =
  maGetAllBalances :: "'x \<Rightarrow> coins"
  maSetModuleAccount :: "'x \<Rightarrow> 'x"
  maCoinsEqual :: "coins \<Rightarrow> coins \<Rightarrow> bool"

definition total_deposits :: "coins_lib \<Rightarrow> deposit list \<Rightarrow> coins res" where
  "total_deposits C ds = foldR (\<lambda>d tot. must (CoinsAdd C tot (dAmount d))) ds []"

text \<open>One proposal of the genesis state: its queues, and whether it still needs a quorum check.\<close>

definition import_proposal ::
  "('m, 'x) gov_env \<Rightarrow> time \<Rightarrow> gov_params \<Rightarrow> 'm proposal \<Rightarrow> ('m, 'x) world \<Rightarrow> ('m, 'x) world res" where
  "import_proposal E blockTime params proposal w =
     bindR (case prStatus proposal of
         StatusDepositPeriod \<Rightarrow> bindR (must (prDepositEndTime proposal)) (\<lambda>t. Ok (InsertInactiveProposalQueue (prId proposal) t w))
       | StatusVotingPeriod \<Rightarrow> bindR (must (prVotingEndTime proposal)) (\<lambda>t. Ok (InsertActiveProposalQueue (prId proposal) t w))
       | _ \<Rightarrow> Ok w) (\<lambda>w.
     let w = SetProposal proposal w in
     if 0 < gpQuorumCheckCount params \<and> prStatus proposal = StatusVotingPeriod
     then
       bindR (must (prVotingStartTime proposal)) (\<lambda>start.
       bindR (must (gpQuorumTimeout params)) (\<lambda>timeout.
       let quorumTimeoutTime = time_add start timeout;
           entry = NewQuorumCheckQueueEntry quorumTimeoutTime (gpQuorumCheckCount params) in
       bindR (if time_after blockTime quorumTimeoutTime
          then panicOnErr (HasReachedQuorum E proposal w) else Ok False) (\<lambda>quorum.
       let entry = (if time_after blockTime quorumTimeoutTime \<and> \<not> quorum then entry\<lparr>qeChecksDone := 1\<rparr> else entry) in
       Ok (if quorum then w else InsertQuorumCheckQueue (prId proposal) quorumTimeoutTime entry w))))
     else Ok w)"

definition import_last_min_deposit ::
  "time \<Rightarrow> (coins \<times> time option) option \<Rightarrow> throttler option \<Rightarrow> (coins \<times> time) res" where
  "import_last_min_deposit blockTime d throttler =
     (case d of
        Some (cs, t) \<Rightarrow> bindR (must t) (\<lambda>t. Ok (cs, t))
      | None \<Rightarrow> bindR (must throttler) (\<lambda>th. Ok (thFloorValue th, blockTime)))"

definition gov_InitGenesis ::
  "('m, 'x) gov_env \<Rightarrow> 'x module_account \<Rightarrow> time \<Rightarrow> 'm gov_genesis \<Rightarrow> ('m, 'x) world \<Rightarrow> ('m, 'x) world res" where
  "gov_InitGenesis E A blockTime data w =
     (let w = SetProposalID (ggStartingProposalId data) w in
      bindR (must (ggParams data)) (\<lambda>params.
      let w = gov_SetParams params w;
          w = SetConstitution (ggConstitution data) w in
      bindR (must (dOfStr (geDec E) (ggParticipationEma data))) (\<lambda>ema.
      let w = SetParticipationEMA E ema w in
      bindR (must (dOfStr (geDec E) (ggConstitutionAmendmentParticipationEma data))) (\<lambda>ema.
      let w = SetConstitutionAmendmentParticipationEMA E ema w in
      bindR (must (dOfStr (geDec E) (ggLawParticipationEma data))) (\<lambda>ema.
      let w = SetLawParticipationEMA E ema w in
      bindR (foldR (\<lambda>d (tot, w).
          bindR (SetDeposit E d w) (\<lambda>w.
          bindR (must (CoinsAdd (geCoins E) tot (dAmount d))) (\<lambda>tot. Ok (tot, w))))
        (ggDeposits data) ([], w)) (\<lambda>(totalDeposits, w).
      bindR (foldR (SetVote E) (ggVotes data) w) (\<lambda>w.
      bindR (foldR (import_proposal E blockTime params) (ggProposals data) w) (\<lambda>w.
      let balance = maGetAllBalances A (wExt w);
          w = (if CoinsIsZero (geCoins E) balance then w\<lparr>wExt := maSetModuleAccount A (wExt w)\<rparr> else w) in
      bindR (if maCoinsEqual A balance totalDeposits then Ok () else Panic) (\<lambda>_.
      bindR (import_last_min_deposit blockTime (ggLastMinDeposit data) (gpMinDepositThrottler params)) (\<lambda>(cs, t).
      let w = SetLastMinDeposit cs t w in
      bindR (import_last_min_deposit blockTime (ggLastMinInitialDeposit data) (gpMinInitialDepositThrottler params))
        (\<lambda>(cs, t).
      Ok (SetLastMinInitialDeposit cs t w))))))))))))"

text \<open>The error of \<open>GetProposalID\<close> is dropped: the id is then zero.\<close>

definition gov_ExportGenesis :: "('m, 'x) gov_env \<Rightarrow> time \<Rightarrow> ('m, 'x) world \<Rightarrow> 'm gov_genesis res" where
  "gov_ExportGenesis E blockTime w =
     bindR (GetParticipationEMA E w) (\<lambda>ema.
     bindR (GetConstitutionAmendmentParticipationEMA E w) (\<lambda>constitutionEma.
     bindR (GetLawParticipationEMA E w) (\<lambda>lawEma.
     let proposals = GetProposals w in
     Ok \<lparr> ggStartingProposalId = (case GetProposalID w of Ok i \<Rightarrow> i | _ \<Rightarrow> 0),
          ggDeposits = concat (map (\<lambda>p. GetDeposits w (prId p)) proposals),
          ggVotes = concat (map (\<lambda>p. GetVotes w (prId p)) proposals),
          ggProposals = proposals,
          ggParams = Some (gov_GetParams w),
          ggConstitution = GetConstitution w,
          ggLastMinDeposit = Some (GetMinDeposit w, Some blockTime),
          ggLastMinInitialDeposit = Some (GetMinInitialDeposit w, Some blockTime),
          ggParticipationEma = dStr (geDec E) ema,
          ggConstitutionAmendmentParticipationEma = dStr (geDec E) constitutionEma,
          ggLawParticipationEma = dStr (geDec E) lawEma \<rparr>)))"

text \<open>The invariant is broken when the balance of the account does not cover the deposits.\<close>

definition ModuleAccountInvariant :: "('m, 'x) gov_env \<Rightarrow> 'x module_account \<Rightarrow> ('m, 'x) world \<Rightarrow> bool res" where
  "ModuleAccountInvariant E A w =
     bindR (total_deposits (geCoins E) (GetAllDeposits w)) (\<lambda>expectedDeposits.
     Ok (\<not> IsAllGTE (geCoins E) (maGetAllBalances A (wExt w)) expectedDeposits))"

end
