(* ===== verification/Gov_Safety.thy ===== *)
theory Gov_Safety
  imports Coredaos Gov_Genesis
begin

text \<open>
  Governance over time: the steps a chain can take (messages, messages of the core DAOs, the end
  blocker, anything outside the two modules), and what holds in every state they reach.
\<close>

section \<open>Steps\<close>

text \<open>
  A step of the chain. Block times are within the \<open>int64\<close> of nanoseconds; there are ids for the
  proposals that may be submitted; a number of quorum checks fits an \<open>int64\<close> (\<open>sane_msg\<close>); and a
  veto comes when no quorum check of the proposal is pending.
\<close>

inductive step :: "('m, 'x) dao_env \<Rightarrow> ('m, 'x) chain \<Rightarrow> ('m, 'x) chain \<Rightarrow> bool" for D where
  step_message: "0 \<le> B \<Longrightarrow> sane_msg msg \<Longrightarrow> room w 1 \<Longrightarrow> handle_msg (deGov D) B msg w = Ok w' \<Longrightarrow>
    step D (st, w) (st, w')"
| step_dao: "no_check_pending dmsg w \<Longrightarrow> handle_dao_msg D B dmsg (st, w) = Ok c \<Longrightarrow> step D (st, w) c"
| step_block: "0 \<le> B \<Longrightarrow> B \<le> max_int64 \<Longrightarrow> spare w \<Longrightarrow> EndBlocker (deGov D) B w = Ok w' \<Longrightarrow>
    step D (st, w) (st, w')"
| step_other: "step D (st, w) (st, w\<lparr>wExt := x\<rparr>)"

inductive_cases stepE: "step D c c'"

definition reaches :: "('m, 'x) dao_env \<Rightarrow> ('m, 'x) chain \<Rightarrow> ('m, 'x) chain \<Rightarrow> bool" where
  "reaches D = (step D)\<^sup>*\<^sup>*"

text \<open>A chain state is well-formed.\<close>

definition chain_ok :: "('m, 'x) dao_env \<Rightarrow> ('m, 'x) chain \<Rightarrow> bool" where
  "chain_ok D c \<longleftrightarrow> winv (deGov D) (snd c) \<and> dao_params_ok (fst c)"

definition settled_stay :: "('m, 'x) world \<Rightarrow> ('m, 'x) world \<Rightarrow> bool" where
  "settled_stay w w' \<longleftrightarrow> (\<forall>i p. GetProposal w i = Some p \<and> decided p \<longrightarrow> GetProposal w' i = Some p)"

lemma step_ok:
  assumes s: "step D c c'" and c: "chain_ok D c" and r: "router_validates (deGov D)"
  shows "chain_ok D c' \<and> settled_stay (snd c) (snd c')"
  using s
proof cases
  case (step_message B msg w w' st)
  with handle_msg_moves [OF step_message(6) r step_message(4,3)] c show ?thesis
    by (auto simp: moves_def chain_ok_def settled_stay_def dest: keepD(4))
next
  case (step_dao dmsg w B st)
  obtain st' w' where c': "c' = (st', w')" by force
  have "winv (deGov D) w" "dao_params_ok st" using c step_dao by (simp_all add: chain_ok_def)
  from dao_message_winv [OF step_dao(3) [unfolded c'] this step_dao(2)] show ?thesis
    using step_dao(1) c' by (simp add: chain_ok_def settled_stay_def)
next
  case (step_block B w w' st)
  have w: "winv (deGov D) w" "dao_params_ok st" using c step_block by (simp_all add: chain_ok_def)
  note e = EndBlocker_step [OF step_block(6) w(1) r step_block(3-5)]
  from e(1,4) w(2) step_block(1,2) show ?thesis by (simp add: chain_ok_def settled_stay_def)
next
  case (step_other st w x)
  have "moves (deGov D) 0 0 w (w\<lparr>wExt := x\<rparr>)" by (rule frame_moves) simp
  with c step_other winv_room [of "deGov D" w] show ?thesis
    by (simp add: chain_ok_def settled_stay_def moves_def)
qed

lemma reaches_ok:
  assumes "reaches D c c'" "chain_ok D c" "router_validates (deGov D)"
  shows "chain_ok D c' \<and> settled_stay (snd c) (snd c')"
  using assms(1) unfolding reaches_def
proof (induction rule: rtranclp_induct)
  case base
  then show ?case using assms(2) by (simp add: settled_stay_def)
next
  case (step y z)
  with step_ok [of D y z] assms(3) show ?case by (auto simp: settled_stay_def)
qed

section \<open>A run\<close>

abbreviation std_start :: "(unit, std_state) chain" where
  "std_start \<equiv> (Value std_dao_params, std_world)"

abbreviation std_end :: "(unit, std_state) chain" where
  "std_end \<equiv> (Value std_dao_params, std_floors 150 std_after)"

lemma std_start_ok: "chain_ok std_dao_env std_start"
  by (simp add: chain_ok_def std_world_winv std_dao_params_ok)

lemma std_spare: "spare std_world"
proof -
  have "gProposalID (wGov std_world) = Some 2" by (simp add: std_gov_defs)
  then show ?thesis unfolding spare_def by (intro exI [of _ 2] exI [of _ 0]) simp
qed

lemma std_step: "step std_dao_env std_start std_end"
  using step_block [of 150 std_world std_dao_env] std_block std_spare by (simp add: max_int64_def)

lemma std_run: "reaches std_dao_env std_start std_end"
  unfolding reaches_def using std_step by blast

lemma std_here: "reaches D c c"
  by (simp add: reaches_def)

lemma std_end_proposal: "GetProposal (std_floors B std_after) i = (if i = 1 then
    Some (std_voting\<lparr>prStatus := StatusPassed, prFinalTallyResult := Some (NewTallyResult 1000 0 0)\<rparr>) else None)"
  by (simp add: GetProposal_def std_floors_def SetLastMinDeposit_def SetLastMinInitialDeposit_def std_after_def kv_get_def)

section \<open>What holds in every state\<close>





text \<open>
  C2: a block settles everything that is due: when the end blocker of time \<open>B\<close> returns, the
  voting and deposit periods of all proposals end after \<open>B\<close>, and a proposal that was under vote
  is still under vote or has passed, failed or been rejected.
\<close>

theorem block_settles_what_is_due:
  assumes r: "router_validates (deGov D)" and c: "chain_ok D c0" and h: "reaches D c0 (st, w)"
    and B: "0 \<le> B" "B \<le> max_int64" and sp: "spare w" and eb: "EndBlocker (deGov D) B w = Ok w'"
  shows "(\<forall>i p t. GetProposal w' i = Some p \<and> prStatus p = StatusVotingPeriod \<and> prVotingEndTime p = Some t \<longrightarrow> B < t) \<and>
    (\<forall>i p t. GetProposal w' i = Some p \<and> prStatus p = StatusDepositPeriod \<and> prDepositEndTime p = Some t \<longrightarrow> B < t) \<and>
    (\<forall>i p. GetProposal w i = Some p \<and> prStatus p = StatusVotingPeriod \<longrightarrow> (\<exists>p'. GetProposal w' i = Some p' \<and>
       prStatus p' \<in> {StatusVotingPeriod, StatusPassed, StatusRejected, StatusFailed}))"
proof -
  have w: "winv (deGov D) w" using reaches_ok [OF h c r] by (simp add: chain_ok_def)
  note e = EndBlocker_step [OF eb w r B sp]
  have "B < t" if "GetProposal w' i = Some p" "prStatus p = StatusVotingPeriod" "prVotingEndTime p = Some t" for i p t
    using e(2) [of t i] that by (simp add: in_vote_iff [OF that(1)])
  moreover have "B < t" if "GetProposal w' i = Some p" "prStatus p = StatusDepositPeriod" "prDepositEndTime p = Some t" for i p t
    using e(3) [of t i] that by (simp add: in_deposit_iff [OF that(1)])
  moreover have "\<exists>p'. GetProposal w' i = Some p' \<and> prStatus p' \<in> {StatusVotingPeriod, StatusPassed, StatusRejected, StatusFailed}"
    if p: "GetProposal w i = Some p" "prStatus p = StatusVotingPeriod" for i p
  proof -
    obtain t where "in_vote w t i" using winv_proposal(2) [OF w p(1)] p by (auto simp: proposal_ok_def in_vote_iff [OF p(1)])
    from e(5) [OF this] show ?thesis by (auto simp: settled_def dest!: in_vote_get)
  qed
  ultimately show ?thesis by blast
qed

theorem block_settles_what_is_due_witness:
  "\<exists>p'. GetProposal (std_floors 150 std_after) 1 = Some p' \<and>
     prStatus p' \<in> {StatusVotingPeriod, StatusPassed, StatusRejected, StatusFailed}"
proof -
  have r: "router_validates (deGov std_dao_env)" by (simp add: std_router)
  have B: "(0 :: int) \<le> 150" "150 \<le> max_int64" by (simp_all add: max_int64_def)
  have "EndBlocker (deGov std_dao_env) 150 std_world = Ok (std_floors 150 std_after)" using std_block by simp
  from block_settles_what_is_due [OF r std_start_ok std_here B std_spare this]
  have "\<forall>i p. GetProposal std_world i = Some p \<and> prStatus p = StatusVotingPeriod \<longrightarrow> (\<exists>p'. GetProposal (std_floors 150 std_after) i = Some p' \<and>
       prStatus p' \<in> {StatusVotingPeriod, StatusPassed, StatusRejected, StatusFailed})" by blast
  from this [rule_format, of 1 std_voting] show ?thesis by simp
qed

text \<open>
  Votes are stored exactly for proposals under vote: a vote is refused when the proposal is
  not under vote, when its metadata is too long, and when one of its options is not valid, in
  this order; otherwise it replaces the vote of the voter on the proposal, and nothing else
  changes but what the hook does outside the module.
\<close>

theorem AddVote_result:
  assumes "router_validates (deGov D)" and "chain_ok D c0" and "reaches D c0 (st, w)"
    and A: "addr_laws (geAddr (deGov D))" and k: "addr_key (deGov D) a = Ok k"
  shows "AddVote (deGov D) i a opts md w =
    (if \<not> (\<exists>p. GetProposal w i = Some p \<and> prStatus p = StatusVotingPeriod) then Err Gov_ErrInactiveProposal
     else if md \<noteq> [] \<and> geMaxMetadataLen (deGov D) < length md then Err Gov_ErrMetadataTooLong
     else if \<exists>opt \<in> set opts. \<not> ValidWeightedVoteOption (geDec (deGov D)) opt then Err Gov_ErrInvalidVote
     else run_hook (deGov D) (AfterProposalVote i a)
       (w\<lparr>wGov := wGov w\<lparr>gVotes := kv_set (i, k) (NewVote (geAddr (deGov D)) i a opts md) (gVotes (wGov w))\<rparr>\<rparr>))"
proof -
  let ?E = "deGov D"
  have w: "winv ?E w" using reaches_ok [OF assms(3,2,1)] by (simp add: chain_ok_def)
  have "kv_has (gVotingPeriod (wGov w)) i \<longleftrightarrow> (\<exists>p. GetProposal w i = Some p \<and> prStatus p = StatusVotingPeriod)"
    using parts_okD(4) [OF winv_parts(1) [OF w]] winv_proposal(2) [OF w]
    by (fastforce simp: live_def GetProposal_def proposal_ok_def)
  moreover have "SetVote ?E (NewVote (geAddr ?E) i a opts md) w =
      Ok (w\<lparr>wGov := wGov w\<lparr>gVotes := kv_set (i, k) (NewVote (geAddr ?E) i a opts md) (gVotes (wGov w))\<rparr>\<rparr>)"
    using A k by (simp add: SetVote_def must_addr_def NewVote_def addr_laws_def on_gov_def)
  ultimately show ?thesis
    by (auto simp: AddVote_def assertMetadataLength_def failIf_def list_all_iff)
qed

theorem AddVote_result_witness:
  "\<exists>w'. AddVote std_gov_env 1 [2] (NewNonSplitVoteOption std_dec OptionNo) [] std_world = Ok w' \<and>
     kv_get (gVotes (wGov w')) (1, [1, 2]) = Some (std_vote OptionNo) \<and>
     AddVote std_gov_env 7 [2] [] [] std_world = Err Gov_ErrInactiveProposal"
proof -
  have r: "router_validates (deGov std_dao_env)" by (simp add: std_router)
  have k: "addr_laws (geAddr (deGov std_dao_env))" "addr_key (deGov std_dao_env) [2] = Ok [1, 2]"
    by (simp_all add: std_addr_laws addr_key_def)
  note res = AddVote_result [OF r std_start_ok std_here k]
  show ?thesis
    using res [of 1 "NewNonSplitVoteOption std_dec OptionNo" "[]"] res [of 7 "[]" "[]"]
    by (simp add: NewNonSplitVoteOption_def ValidWeightedVoteOption_def ValidVoteOption_def read_show_dec run_hook_def on_ext_def
        std_vote_def)
qed

text \<open>
  The next quorum check is later than the block and not later than the end of the vote, as
  long as the time from the timeout to the end of the vote has at least as many nanoseconds as
  there are checks; with more checks than that the interval is zero and the computation, in the
  end blocker, divides by zero.
\<close>

theorem next_quorum_check_result:
  assumes s: "qeTimeoutTime e = Some s" "s \<le> t" "0 \<le> t" and n: "0 < uint (qeCheckCount e)" "uint (qeCheckCount e) < 2 ^ 63"
    and t: "t \<le> B" "B < tv" "B \<le> max_int64"
  shows "if uint (qeCheckCount e) \<le> time_sub tv s
    then \<exists>nx. next_quorum_check B t tv e = Ok nx \<and> B < nx \<and> nx \<le> tv
    else next_quorum_check B t tv e = Panic"
proof -
  have e: "entry_ok t e" using s n by (simp add: entry_ok_def)
  let ?c = "int64_of_u64 (qeCheckCount e)" and ?period = "time_sub tv s"
  have c: "?c = uint (qeCheckCount e)"
    using signed_take_bit_int_eq_self [of 63 "uint (qeCheckCount e)"] n(2) uint_ge_0 [of "qeCheckCount e"]
    by (simp add: int64_of_u64_def sint_uint del: uint_ge_0)
  have p: "0 \<le> ?period" using s(2) t by (simp add: time_sub_def max_int64_def min_int64_def)
  have q: "go_quot ?period ?c = Ok (?period div ?c)" using p n(1) c by (simp add: go_quot_nonneg)
  show ?thesis
  proof (cases "?c \<le> ?period")
    case True
    then have "0 < ?period div ?c" using n(1) c by (simp add: pos_imp_zdiv_pos_iff)
    then have "go_quot d (?period div ?c) \<noteq> Panic" "go_quot d (?period div ?c) \<noteq> Err x" for d x
      by (simp_all add: go_quot_def)
    then have "\<exists>nx. next_quorum_check B t tv e = Ok nx"
      using s(1) q by (cases "go_quot (time_sub B (time_add t (?period div ?c))) (?period div ?c)")
        (auto simp: next_quorum_check_def Let_def)
    with next_check [OF _ e t] True c show ?thesis by auto
  next
    case False
    then have "?period div ?c = 0" using p by simp
    then show ?thesis using False c s(1) q t(1) by (simp add: next_quorum_check_def Let_def time_add_def time_after_def go_quot_def)
  qed
qed

theorem next_quorum_check_result_witness:
  "\<exists>nx. next_quorum_check 70 60 100 std_check = Ok nx \<and> 70 < nx \<and> nx \<le> 100"
  using next_quorum_check_result [of std_check 15 60 70 100]
  by (simp add: std_check_def time_sub_def max_int64_def min_int64_def)

definition fresh_store :: "'m gov_store \<Rightarrow> bool" where
  "fresh_store g \<longleftrightarrow> gProposals g = [] \<and> gActiveQueue g = [] \<and> gInactiveQueue g = [] \<and> gVotingPeriod g = [] \<and>
     gQuorumQueue g = [] \<and> gActiveNumber g = None \<and> gInactiveNumber g = None"

lemma fold_frame:
  assumes "foldR f xs s = Ok s'" "\<And>x s s'. f x s = Ok s' \<Longrightarrow> frame (g s) (g s')"
  shows "frame (g s) (g s')"
  using foldR_invariant [OF assms(1), of "\<lambda>t. frame (g s) (g t)"] assms(2) frame_trans by (metis frame_refl)

text \<open>The stages of an import: the parameters and the id, the proposals, and what leaves the core alone.\<close>

lemma InitGenesis_stages:
  assumes g: "gov_InitGenesis E A B data w0 = Ok w"
  obtains p w1 w2 where "ggParams data = Some p"
    "core (wGov w1) = core (wGov (gov_SetParams p (SetProposalID (ggStartingProposalId data) w0)))"
    "foldR (import_proposal E B p) (ggProposals data) w1 = Ok w2" "frame w2 w"
proof -
  let ?set = "\<lambda>p e1 e2 e3. SetLawParticipationEMA E e3 (SetConstitutionAmendmentParticipationEMA E e2
    (SetParticipationEMA E e1 (SetConstitution (ggConstitution data) (gov_SetParams p
      (SetProposalID (ggStartingProposalId data) w0)))))"
  let ?account = "\<lambda>w. if CoinsIsZero (geCoins E) (maGetAllBalances A (wExt w)) then w\<lparr>wExt := maSetModuleAccount A (wExt w)\<rparr> else w"
  from g obtain p e1 e2 e3 tot wd wv wi where p: "ggParams data = Some p" and
    deps: "foldR (\<lambda>d (tot, w). bindR (SetDeposit E d w) (\<lambda>w. bindR (must (CoinsAdd (geCoins E) tot (dAmount d)))
        (\<lambda>tot. Ok (tot, w)))) (ggDeposits data) ([], ?set p e1 e2 e3) = Ok (tot, wd)" and
    votes: "foldR (SetVote E) (ggVotes data) wd = Ok wv" and
    ids: "foldR (import_proposal E B p) (ggProposals data) wv = Ok wi" and
    rest: "bindR (if maCoinsEqual A (maGetAllBalances A (wExt wi)) tot then Ok () else Panic) (\<lambda>_.
       bindR (import_last_min_deposit B (ggLastMinDeposit data) (gpMinDepositThrottler p)) (\<lambda>(cs, t).
       bindR (import_last_min_deposit B (ggLastMinInitialDeposit data) (gpMinInitialDepositThrottler p)) (\<lambda>(cs', t').
       Ok (SetLastMinInitialDeposit cs' t' (SetLastMinDeposit cs t (?account wi)))))) = Ok w"
    unfolding gov_InitGenesis_def Let_def
    by (elim bindE) (clarsimp simp: must_eq_Ok split: prod.splits)
  from rest obtain cs t cs' t' where w: "w = SetLastMinInitialDeposit cs' t' (SetLastMinDeposit cs t (?account wi))"
    by (cases "import_last_min_deposit B (ggLastMinDeposit data) (gpMinDepositThrottler p)";
        cases "import_last_min_deposit B (ggLastMinInitialDeposit data) (gpMinInitialDepositThrottler p)")
      (simp_all split: prod.splits if_split_asm, blast+)
  have "frame (snd ([] :: coins, ?set p e1 e2 e3)) (snd (tot, wd))"
    by (rule fold_frame [OF deps]) (auto intro: frameI)
  moreover have "frame wd wv" using fold_frame [OF votes, of "\<lambda>w. w"] SetVote_frame by metis
  moreover have "frame (gov_SetParams p (SetProposalID (ggStartingProposalId data) w0)) (?set p e1 e2 e3)"
    by (meson frame_trans frame_write)
  ultimately have "core (wGov wv) = core (wGov (gov_SetParams p (SetProposalID (ggStartingProposalId data) w0)))"
    by (simp add: frame_def)
  moreover have "frame wi (?account wi)" by simp
  then have "frame wi w" unfolding w by (rule frame_trans [OF frame_trans [OF _ frame_write(3)] frame_write(4)])
  ultimately show ?thesis using that p ids by blast
qed

text \<open>
  C22: the state that a genesis without proposals gives is well-formed: from it, everything above
  holds for every chain.
\<close>

theorem genesis_is_consistent:
  assumes "router_validates (deGov D)" and v: "gov_ValidateGenesis (geDec (deGov D)) (geCoins (deGov D)) data = Ok ()"
    and p: "ggParams data = Some p" "uint (gpQuorumCheckCount p) < 2 ^ 63" and n: "ggProposals data = []"
    and g: "gov_InitGenesis (deGov D) A B data w0 = Ok w" and fresh: "fresh_store (wGov w0)"
    and d: "dao_InitGenesis (geAddr (deGov D)) dp = Ok st"
  shows "chain_ok D (st, w) \<and> gov_GetParams w = p"
proof -
  let ?E = "deGov D"
  have L: "dec_laws (geDec ?E)" using assms(1) by (simp add: router_validates_def)
  have "gov_Params_ValidateBasic (geDec ?E) (geCoins ?E) p = Ok ()"
    using v p(1) by (auto simp: gov_ValidateGenesis_def Let_def)
  from gov_Params_ValidateBasic_facts [OF L this] p(2) have pk: "params_ok ?E p" by (simp add: params_ok_def sane_params_def)
  from InitGenesis_stages [OF g] n p(1) obtain w1 where
    "core (wGov w1) = core (wGov (gov_SetParams p (SetProposalID (ggStartingProposalId data) w0)))" "frame w1 w"
    by (metis foldR.simps(1) res.inject(1) option.inject)
  then have "core (wGov w) = core (wGov (gov_SetParams p (SetProposalID (ggStartingProposalId data) w0)))"
    by (simp add: frame_def)
  also have "\<dots> = ([], Some (ggStartingProposalId data), [], None, [], None, [], [], Some p)"
    using fresh by (simp add: core_def fresh_store_def gov_SetParams_def SetProposalID_def)
  finally have c: "core (wGov w) = ([], Some (ggStartingProposalId data), [], None, [], None, [], [], Some p)" .
  note fields = core_eqD [OF c]
  have gp: "gov_GetParams w = p" by (simp add: gov_GetParams_def fields)
  have "gov_inv (wGov w)" "extra_ok (gProposals (wGov w)) (gQuorumQueue (wGov w))"
    by (simp_all add: gov_inv_def fields parts_ok_def proposals_ok_def queue_ok_def quorum_ok_def extra_ok_def live_def
        kv_has_def kv_wf_def)
  moreover have "dao_params_ok st"
    using d dao_params_valid by (cases "dao_Params_ValidateBasic (geAddr ?E) dp") (auto simp: dao_InitGenesis_def)
  ultimately show ?thesis using gp pk by (simp add: chain_ok_def winv_def)
qed

definition std_genesis :: "unit gov_genesis" where
  "std_genesis = \<lparr>ggStartingProposalId = 1, ggDeposits = [], ggVotes = [], ggProposals = [], ggParams = Some std_gov_params,
     ggConstitution = ''c'', ggLastMinDeposit = None, ggLastMinInitialDeposit = None, ggParticipationEma = show_dec 0,
     ggConstitutionAmendmentParticipationEma = show_dec 0, ggLawParticipationEma = show_dec 0\<rparr>"

definition std_module_account :: "std_state module_account" where
  "std_module_account = \<lparr>maGetAllBalances = (\<lambda>x. []), maSetModuleAccount = (\<lambda>x. x), maCoinsEqual = (=)\<rparr>"

theorem genesis_is_consistent_witness:
  "\<exists>w. gov_InitGenesis std_gov_env std_module_account 5 std_genesis \<lparr>wGov = std_gov_store, wExt = std_bank_state\<rparr> = Ok w \<and>
     chain_ok std_dao_env (Value dao_DefaultParams, w)"
proof -
  obtain w where w: "gov_InitGenesis std_gov_env std_module_account 5 std_genesis \<lparr>wGov = std_gov_store, wExt = std_bank_state\<rparr> = Ok w"
    by (simp add: gov_InitGenesis_def std_genesis_def std_module_account_def read_show_dec import_last_min_deposit_def std_coins_def)
  have "router_validates (deGov std_dao_env)" "fresh_store std_gov_store" "ggParams std_genesis = Some std_gov_params"
    "ggProposals std_genesis = []"
    by (simp_all add: std_router fresh_store_def std_gov_store_def std_genesis_def)
  moreover have "gov_ValidateGenesis std_dec std_coins std_genesis = Ok ()"
    using std_params_valid by (simp add: gov_ValidateGenesis_def std_genesis_def no_duplicates_def Let_def)
  moreover have "dao_InitGenesis std_addr dao_DefaultParams = Ok (Value dao_DefaultParams)"
    by (simp add: dao_InitGenesis_def dao_Params_ValidateBasic_def dao_DefaultParams_def dao_NewParams_def hour_def second_def)
  ultimately show ?thesis
    using genesis_is_consistent [of std_dao_env std_genesis std_gov_params std_module_account 5
        "\<lparr>wGov = std_gov_store, wExt = std_bank_state\<rparr>" w dao_DefaultParams "Value dao_DefaultParams"] w
    by (simp add: std_dao_simps)
qed

end
