(* ===== verification/Gov_Escrow.thy ===== *)
theory Gov_Escrow
  imports Gov_Safety
begin

text \<open>
  The deposits of the proposals: the governance module account holds at least the sum of the
  recorded deposits, so that refunds and burns always succeed, and what they pay.
\<close>

section \<open>Sums over a store\<close>

lemma kv_sum_set_new:
  "\<not> kv_has m k \<Longrightarrow> sum_list (map f (kv_set k v m)) = f (k, v) + (sum_list (map f m) :: int)"
  by (induction m rule: kv_set.induct [of _ k v]) (auto simp: kv_has_Cons)

lemma kv_sum_set_old:
  "kv_wf m \<Longrightarrow> kv_get m k = Some u \<Longrightarrow>
     sum_list (map f (kv_set k v m)) = sum_list (map f m) - f (k, u) + (f (k, v) :: int)"
proof (induction m)
  case Nil
  then show ?case by simp
next
  case (Cons p m)
  obtain k' v' where p: "p = (k', v')" by (cases p)
  have "\<not> k < k'"
    using Cons.prems kv_get_in_set [OF Cons.prems(1), of k u] by (auto simp: p kv_wf_Cons dest: order.strict_trans)
  with Cons show ?case by (auto simp: p kv_wf_Cons kv_get_def split: if_splits)
qed

lemma kv_sum_del:
  "kv_wf m \<Longrightarrow> kv_get m k = Some u \<Longrightarrow>
     sum_list (map f (kv_del k m)) = sum_list (map f m) - (f (k, u) :: int)"
proof (induction m)
  case Nil
  then show ?case by simp
next
  case (Cons p m)
  obtain k' v' where p: "p = (k', v')" by (cases p)
  show ?case
  proof (cases "k' = k")
    case True
    with Cons.prems p have "\<not> kv_has m k" by (auto simp: kv_wf_Cons kv_has_in_keys)
    from kv_del_absent [OF this] True Cons.prems(2) p show ?thesis by (simp add: kv_del_def kv_get_def)
  next
    case False
    with Cons p show ?thesis by (auto simp: kv_wf_Cons kv_del_def kv_get_def)
  qed
qed

lemma sum_member_le:
  "x \<in> set xs \<Longrightarrow> (\<And>y. y \<in> set xs \<Longrightarrow> 0 \<le> f y) \<Longrightarrow> f x \<le> (sum_list (map f xs) :: int)"
  by (rule member_le_sum_list) auto

section \<open>Escrow\<close>

definition deposited :: "(u64 \<times> addr) \<times> deposit \<Rightarrow> string \<Rightarrow> int" where
  "deposited e d = amt (dAmount (snd e)) d"

definition escrow :: "'m gov_store \<Rightarrow> string \<Rightarrow> int" where
  "escrow g d = sum_list (map (\<lambda>e. deposited e d) (gDeposits g))"

definition gov_balance :: "('m, 'x) gov_env \<Rightarrow> 'x \<Rightarrow> string \<Rightarrow> int" where
  "gov_balance E x d = ModBalance (geBank E) x gov_ModuleName d"

text \<open>A recorded deposit is stored under its proposal and its depositor, and can be paid back.\<close>

definition entry_valid :: "('m, 'x) gov_env \<Rightarrow> (u64 \<times> addr) \<times> deposit \<Rightarrow> bool" where
  "entry_valid E e \<longleftrightarrow> dProposalId (snd e) = fst (fst e) \<and> CoinsIsValid (geCoins E) (dAmount (snd e)) \<and>
     (\<exists>a. FromBech32 (geAddr E) (dDepositor (snd e)) = Some a \<and> geLengthPrefix E a = Some (snd (fst e)) \<and>
        \<not> BlockedAddr (geBank E) a)"

definition funded :: "('m, 'x) gov_env \<Rightarrow> ('m, 'x) world \<Rightarrow> bool" where
  "funded E w \<longleftrightarrow> kv_wf (gDeposits (wGov w)) \<and> (\<forall>e \<in> set (gDeposits (wGov w)). entry_valid E e) \<and>
     (\<forall>d. escrow (wGov w) d \<le> gov_balance E (wExt w) d)"

definition bank_ok :: "('m, 'x) gov_env \<Rightarrow> bool" where
  "bank_ok E \<longleftrightarrow> coins_laws (geCoins E) \<and> bank_laws (geCoins E) (geBank E)"

lemma bank_okD: "bank_ok E \<Longrightarrow> coins_laws (geCoins E)" "bank_ok E \<Longrightarrow> bank_laws (geCoins E) (geBank E)"
  by (simp_all add: bank_ok_def)

lemma amt_nonneg: "coins_laws C \<Longrightarrow> CoinsIsValid C cs \<Longrightarrow> 0 \<le> amt cs d"
  unfolding amt_def by (rule sum_list_nonneg) (auto dest: coins_valid_pos)

lemma deposited_nonneg: "bank_ok E \<Longrightarrow> entry_valid E e \<Longrightarrow> 0 \<le> deposited e d"
  unfolding deposited_def entry_valid_def by (rule amt_nonneg [OF bank_okD(1)]) blast+

lemma deposited_covered:
  assumes B: "bank_ok E" and f: "funded E w" and e: "e \<in> set (gDeposits (wGov w))"
  shows "deposited e d \<le> gov_balance E (wExt w) d"
proof -
  have "deposited e d \<le> escrow (wGov w) d"
    unfolding escrow_def using f B by (intro sum_member_le [OF e]) (auto simp: funded_def intro: deposited_nonneg)
  with f show ?thesis unfolding funded_def by (meson order_trans)
qed

text \<open>The state without the deposit of a key.\<close>

lemma funded_delete:
  assumes f: "funded E w" and e: "kv_get (gDeposits (wGov w)) k = Some dep"
    and x: "\<And>d. gov_balance E (wExt w) d - amt (dAmount dep) d \<le> gov_balance E x d"
  shows "funded E (on_gov (gDeposits_update (kv_del k)) (w\<lparr>wExt := x\<rparr>))"
proof -
  have wf: "kv_wf (gDeposits (wGov w))" using f by (simp add: funded_def)
  have "escrow (wGov w) d - amt (dAmount dep) d \<le> gov_balance E x d" for d
    using f x [of d] unfolding funded_def by (meson diff_right_mono order_trans)
  moreover have "set (kv_del k (gDeposits (wGov w))) \<subseteq> set (gDeposits (wGov w))" by (auto simp: kv_del_def)
  ultimately show ?thesis
    using f wf by (auto simp: funded_def escrow_def kv_sum_del [OF wf e] deposited_def)
qed

section \<open>Refunds and burns\<close>

text \<open>What an account gets when the entries are refunded.\<close>

definition repaid :: "('m, 'x) gov_env \<Rightarrow> ((u64 \<times> addr) \<times> deposit) list \<Rightarrow> addr \<Rightarrow> string \<Rightarrow> int" where
  "repaid E es a d = sum_list (map (\<lambda>e. if FromBech32 (geAddr E) (dDepositor (snd e)) = Some a then deposited e d else 0) es)"

definition held :: "((u64 \<times> addr) \<times> deposit) list \<Rightarrow> string \<Rightarrow> int" where
  "held es d = sum_list (map (\<lambda>e. deposited e d) es)"

lemma repaid_Nil [simp]: "repaid E [] a d = 0" and held_Nil [simp]: "held [] d = 0"
  by (simp_all add: repaid_def held_def)

lemma repaid_Cons: "repaid E (e # es) a d =
    (if FromBech32 (geAddr E) (dDepositor (snd e)) = Some a then deposited e d else 0) + repaid E es a d"
  and held_Cons: "held (e # es) d = deposited e d + held es d"
  by (simp_all add: repaid_def held_def)

definition kv_except :: "'a \<Rightarrow> ('a \<times> 'b, 'v) kv \<Rightarrow> ('a \<times> 'b, 'v) kv" where
  "kv_except i m = filter (\<lambda>p. fst (fst p) \<noteq> i) m"

text \<open>Deleting the first entry under a prefix leaves the rest of them.\<close>

lemma kv_under_first:
  assumes wf: "kv_wf m" and first: "kv_under i m = ((j, k), v) # es"
  shows "j = i" "kv_get m (i, k) = Some v" "kv_under i (kv_del (i, k) m) = es"
    "kv_except i (kv_del (i, k) m) = kv_except i m"
proof -
  have mem: "((j, k), v) \<in> set (kv_under i m)" by (simp add: first)
  then show j: "j = i" by (auto simp: kv_under_def)
  with mem show "kv_get m (i, k) = Some v" by (simp add: kv_get_in_set [OF wf] kv_under_set)
  have "distinct (map fst (kv_under i m))"
    using kv_wf_distinct [OF wf] by (simp add: kv_under_def distinct_map_filter)
  then have "filter (\<lambda>p. fst p \<noteq> (i, k)) es = es" by (auto simp: first j filter_id_conv rev_image_eqI)
  moreover have "kv_under i (kv_del (i, k) m) = filter (\<lambda>p. fst p \<noteq> (i, k)) (kv_under i m)"
    by (simp add: kv_under_def kv_del_def conj_commute)
  ultimately show "kv_under i (kv_del (i, k) m) = es" by (simp add: first j)
  show "kv_except i (kv_del (i, k) m) = kv_except i m"
    by (auto simp: kv_except_def kv_del_def intro: filter_cong)
qed

lemma kv_under_Nil: "kv_under i m = [] \<Longrightarrow> kv_except i m = m"
  by (auto simp: kv_under_def kv_except_def filter_empty_conv filter_id_conv)

text \<open>One step of a loop over the deposits of a proposal: paid, and deleted.\<close>

definition clears ::
  "('m, 'x) gov_env \<Rightarrow> u64 \<Rightarrow> (deposit \<Rightarrow> ('m, 'x) world \<Rightarrow> ('m, 'x) world res) \<Rightarrow>
     ((u64 \<times> addr) \<times> deposit \<Rightarrow> 'x \<Rightarrow> 'x \<Rightarrow> bool) \<Rightarrow> bool" where
  "clears E i body pay \<longleftrightarrow> (\<forall>w k dep. funded E w \<longrightarrow> kv_get (gDeposits (wGov w)) (i, k) = Some dep \<longrightarrow>
     (\<exists>x. body dep w = Ok (on_gov (gDeposits_update (kv_del (i, k))) (w\<lparr>wExt := x\<rparr>)) \<and> pay ((i, k), dep) (wExt w) x \<and>
        funded E (on_gov (gDeposits_update (kv_del (i, k))) (w\<lparr>wExt := x\<rparr>))))"

fun pays_all :: "('e \<Rightarrow> 'x \<Rightarrow> 'x \<Rightarrow> bool) \<Rightarrow> 'e list \<Rightarrow> 'x \<Rightarrow> 'x \<Rightarrow> bool" where
  "pays_all pay [] x x' \<longleftrightarrow> x' = x"
| "pays_all pay (e # es) x x' \<longleftrightarrow> (\<exists>y. pay e x y \<and> pays_all pay es y x')"

lemma clears_all:
  assumes body: "clears E i body pay"
  shows "funded E w \<Longrightarrow> kv_under i (gDeposits (wGov w)) = es \<Longrightarrow>
    \<exists>x. foldR body (map snd es) w = Ok (on_gov (gDeposits_update (kv_except i)) (w\<lparr>wExt := x\<rparr>)) \<and>
      pays_all pay es (wExt w) x \<and> funded E (on_gov (gDeposits_update (kv_except i)) (w\<lparr>wExt := x\<rparr>))"
proof (induction es arbitrary: w)
  case Nil
  then have "on_gov (gDeposits_update (kv_except i)) (w\<lparr>wExt := wExt w\<rparr>) = w"
    using kv_under_Nil [OF Nil(2)] by (simp add: on_gov_def)
  with Nil show ?case by (intro exI [of _ "wExt w"]) simp
next
  case (Cons e es)
  obtain j k dep where e: "e = ((j, k), dep)" by (cases e) auto
  have wf: "kv_wf (gDeposits (wGov w))" using Cons.prems(1) by (simp add: funded_def)
  note first = kv_under_first [OF wf Cons.prems(2) [unfolded e]]
  from body Cons.prems(1) first(2) obtain y where
    y: "body dep w = Ok (on_gov (gDeposits_update (kv_del (i, k))) (w\<lparr>wExt := y\<rparr>))" "pay ((i, k), dep) (wExt w) y"
      "funded E (on_gov (gDeposits_update (kv_del (i, k))) (w\<lparr>wExt := y\<rparr>))"
    unfolding clears_def by blast
  let ?w = "on_gov (gDeposits_update (kv_del (i, k))) (w\<lparr>wExt := y\<rparr>)"
  have "kv_under i (gDeposits (wGov ?w)) = es" using first(3) by simp
  from Cons.IH [OF y(3) this] obtain x where
    x: "foldR body (map snd es) ?w = Ok (on_gov (gDeposits_update (kv_except i)) (?w\<lparr>wExt := x\<rparr>))"
      "pays_all pay es (wExt ?w) x" "funded E (on_gov (gDeposits_update (kv_except i)) (?w\<lparr>wExt := x\<rparr>))"
    by blast
  moreover have "on_gov (gDeposits_update (kv_except i)) (?w\<lparr>wExt := x\<rparr>) =
      on_gov (gDeposits_update (kv_except i)) (w\<lparr>wExt := x\<rparr>)"
    using first(4) by (simp add: on_gov_def)
  ultimately show ?case using y first(1) e by (intro exI [of _ x]) auto
qed

lemma entry_facts:
  assumes "funded E w" "kv_get (gDeposits (wGov w)) (i, k) = Some dep"
  obtains a where "((i, k), dep) \<in> set (gDeposits (wGov w))" "dProposalId dep = i" "CoinsIsValid (geCoins E) (dAmount dep)"
    "FromBech32 (geAddr E) (dDepositor dep) = Some a" "geLengthPrefix E a = Some k" "\<not> BlockedAddr (geBank E) a"
proof -
  have wf: "kv_wf (gDeposits (wGov w))" using assms(1) by (simp add: funded_def)
  have mem: "((i, k), dep) \<in> set (gDeposits (wGov w))" using assms(2) by (simp add: kv_get_in_set [OF wf])
  with assms(1) have "entry_valid E ((i, k), dep)" by (simp add: funded_def)
  with mem that show ?thesis by (auto simp: entry_valid_def)
qed

definition refunds :: "('m, 'x) gov_env \<Rightarrow> (u64 \<times> addr) \<times> deposit \<Rightarrow> 'x \<Rightarrow> 'x \<Rightarrow> bool" where
  "refunds E e x x' \<longleftrightarrow> (\<exists>a. FromBech32 (geAddr E) (dDepositor (snd e)) = Some a \<and>
     (\<forall>c d. AccBalance (geBank E) x' c d = AccBalance (geBank E) x c d
        - (if c = ModuleAddr (geBank E) gov_ModuleName then deposited e d else 0) + (if c = a then deposited e d else 0)) \<and>
     GetSupply (geBank E) x' = GetSupply (geBank E) x)"

definition burns :: "('m, 'x) gov_env \<Rightarrow> (u64 \<times> addr) \<times> deposit \<Rightarrow> 'x \<Rightarrow> 'x \<Rightarrow> bool" where
  "burns E e x x' \<longleftrightarrow>
     (\<forall>c d. AccBalance (geBank E) x' c d = AccBalance (geBank E) x c d
        - (if c = ModuleAddr (geBank E) gov_ModuleName then deposited e d else 0)) \<and>
     (\<forall>d. GetSupply (geBank E) x' d = GetSupply (geBank E) x d - deposited e d)"

lemma refund_clears:
  assumes B: "bank_ok E"
  shows "clears E i (\<lambda>d w.
       bindR (must_addr E (dDepositor d)) (\<lambda>depositor.
       bindR (panicOnErr (on_ext (SendFromModule (geBank E) gov_ModuleName depositor (dAmount d)) w)) (\<lambda>w.
       delete_deposit E i depositor w))) (refunds E)"
  unfolding clears_def
proof (intro allI impI)
  fix w k dep
  assume f: "funded E w" and dep: "kv_get (gDeposits (wGov w)) (i, k) = Some dep"
  from entry_facts [OF this] obtain a where e: "((i, k), dep) \<in> set (gDeposits (wGov w))"
      "CoinsIsValid (geCoins E) (dAmount dep)" "FromBech32 (geAddr E) (dDepositor dep) = Some a"
      "geLengthPrefix E a = Some k" "\<not> BlockedAddr (geBank E) a" by metis
  note covered = deposited_covered [OF B f e(1), unfolded deposited_def snd_conv gov_balance_def]
  obtain x where x: "SendFromModule (geBank E) gov_ModuleName a (dAmount dep) (wExt w) = Ok x"
    using SendFromModule_total [OF bank_okD(2) [OF B] e(2,5) covered] by blast
  note paid = SendFromModule_result [OF bank_okD(2) [OF B] e(2) x]
  have "refunds E ((i, k), dep) (wExt w) x" using paid e(3) by (auto simp: refunds_def deposited_def)
  moreover have "gov_balance E (wExt w) d - amt (dAmount dep) d \<le> gov_balance E x d" for d
    using paid amt_nonneg [OF bank_okD(1) [OF B] e(2), of d] by (simp add: gov_balance_def ModBalance_def)
  from funded_delete [OF f dep this]
  have "funded E (on_gov (gDeposits_update (kv_del (i, k))) (w\<lparr>wExt := x\<rparr>))" .
  ultimately show "\<exists>x. bindR (must_addr E (dDepositor dep)) (\<lambda>depositor.
       bindR (panicOnErr (on_ext (SendFromModule (geBank E) gov_ModuleName depositor (dAmount dep)) w)) (\<lambda>w.
       delete_deposit E i depositor w)) = Ok (on_gov (gDeposits_update (kv_del (i, k))) (w\<lparr>wExt := x\<rparr>)) \<and>
       refunds E ((i, k), dep) (wExt w) x \<and> funded E (on_gov (gDeposits_update (kv_del (i, k))) (w\<lparr>wExt := x\<rparr>))"
    using e x by (intro exI [of _ x]) (simp add: must_addr_def on_ext_def delete_deposit_def addr_key_def)
qed

lemma burn_clears:
  assumes B: "bank_ok E"
  shows "clears E i (\<lambda>d w.
       bindR (panicOnErr (on_ext (BurnCoins (geBank E) gov_ModuleName (dAmount d)) w)) (\<lambda>w.
       bindR (must_addr E (dDepositor d)) (\<lambda>depositor.
       delete_deposit E i depositor w))) (burns E)"
  unfolding clears_def
proof (intro allI impI)
  fix w k dep
  assume f: "funded E w" and dep: "kv_get (gDeposits (wGov w)) (i, k) = Some dep"
  from entry_facts [OF this] obtain a where e: "((i, k), dep) \<in> set (gDeposits (wGov w))"
      "CoinsIsValid (geCoins E) (dAmount dep)" "FromBech32 (geAddr E) (dDepositor dep) = Some a"
      "geLengthPrefix E a = Some k" by metis
  note covered = deposited_covered [OF B f e(1), unfolded deposited_def snd_conv gov_balance_def]
  obtain x where x: "BurnCoins (geBank E) gov_ModuleName (dAmount dep) (wExt w) = Ok x"
    using BurnCoins_total [OF bank_okD(2) [OF B] e(2) covered] by blast
  note paid = BurnCoins_result [OF bank_okD(2) [OF B] e(2) x]
  have "burns E ((i, k), dep) (wExt w) x" using paid by (auto simp: burns_def deposited_def)
  moreover have "gov_balance E (wExt w) d - amt (dAmount dep) d \<le> gov_balance E x d" for d
    using paid by (simp add: gov_balance_def ModBalance_def)
  from funded_delete [OF f dep this]
  have "funded E (on_gov (gDeposits_update (kv_del (i, k))) (w\<lparr>wExt := x\<rparr>))" .
  ultimately show "\<exists>x. bindR (panicOnErr (on_ext (BurnCoins (geBank E) gov_ModuleName (dAmount dep)) w)) (\<lambda>w.
       bindR (must_addr E (dDepositor dep)) (\<lambda>depositor.
       delete_deposit E i depositor w)) = Ok (on_gov (gDeposits_update (kv_del (i, k))) (w\<lparr>wExt := x\<rparr>)) \<and>
       burns E ((i, k), dep) (wExt w) x \<and> funded E (on_gov (gDeposits_update (kv_del (i, k))) (w\<lparr>wExt := x\<rparr>))"
    using e x by (intro exI [of _ x]) (simp add: must_addr_def on_ext_def delete_deposit_def addr_key_def)
qed

lemma refunds_sum:
  "pays_all (refunds E) es x x' \<Longrightarrow>
     (\<forall>c d. AccBalance (geBank E) x' c d = AccBalance (geBank E) x c d
        - (if c = ModuleAddr (geBank E) gov_ModuleName then held es d else 0) + repaid E es c d) \<and>
     GetSupply (geBank E) x' = GetSupply (geBank E) x"
proof (induction es arbitrary: x)
  case (Cons e es)
  then obtain y where y: "refunds E e x y" "pays_all (refunds E) es y x'" by auto
  from Cons.IH [OF y(2)] y(1) show ?case by (auto simp: refunds_def repaid_Cons held_Cons)
qed simp

lemma burns_sum:
  "pays_all (burns E) es x x' \<Longrightarrow>
     (\<forall>c d. AccBalance (geBank E) x' c d = AccBalance (geBank E) x c d
        - (if c = ModuleAddr (geBank E) gov_ModuleName then held es d else 0)) \<and>
     (\<forall>d. GetSupply (geBank E) x' d = GetSupply (geBank E) x d - held es d)"
proof (induction es arbitrary: x)
  case (Cons e es)
  then obtain y where y: "burns E e x y" "pays_all (burns E) es y x'" by auto
  from Cons.IH [OF y(2)] y(1) show ?case by (auto simp: burns_def held_Cons)
qed simp

lemma refund_result:
  assumes B: "bank_ok E" and f: "funded E w"
  shows "\<exists>x. RefundAndDeleteDeposits E i w = Ok (on_gov (gDeposits_update (kv_except i)) (w\<lparr>wExt := x\<rparr>)) \<and>
    pays_all (refunds E) (kv_under i (gDeposits (wGov w))) (wExt w) x \<and>
    funded E (on_gov (gDeposits_update (kv_except i)) (w\<lparr>wExt := x\<rparr>))"
  using clears_all [OF refund_clears [OF B] f refl] by (simp add: RefundAndDeleteDeposits_def GetDeposits_def)

lemma burn_result:
  assumes B: "bank_ok E" and f: "funded E w"
  shows "\<exists>x. DeleteAndBurnDeposits E i w = Ok (on_gov (gDeposits_update (kv_except i)) (w\<lparr>wExt := x\<rparr>)) \<and>
    pays_all (burns E) (kv_under i (gDeposits (wGov w))) (wExt w) x \<and>
    funded E (on_gov (gDeposits_update (kv_except i)) (w\<lparr>wExt := x\<rparr>))"
  using clears_all [OF burn_clears [OF B] f refl] by (simp add: DeleteAndBurnDeposits_def GetDeposits_def)

text \<open>
  C12: as long as the deposits are funded, settling those of a proposal never fails: a refund
  deletes exactly the deposits of the proposal, pays every depositor the sum of its deposits out
  of the module account and leaves the supply; a burn deletes them too and takes their sum from
  the module account and from the supply; and the deposits of the other proposals stay funded.
\<close>

theorem deposits_are_settled:
  assumes "bank_ok E" and "funded E w" and es: "es = kv_under i (gDeposits (wGov w))"
  shows "(\<exists>x. RefundAndDeleteDeposits E i w = Ok (on_gov (gDeposits_update (kv_except i)) (w\<lparr>wExt := x\<rparr>)) \<and>
      (\<forall>c d. AccBalance (geBank E) x c d = AccBalance (geBank E) (wExt w) c d
         - (if c = ModuleAddr (geBank E) gov_ModuleName then held es d else 0) + repaid E es c d) \<and>
      GetSupply (geBank E) x = GetSupply (geBank E) (wExt w) \<and>
      funded E (on_gov (gDeposits_update (kv_except i)) (w\<lparr>wExt := x\<rparr>))) \<and>
    (\<exists>x. DeleteAndBurnDeposits E i w = Ok (on_gov (gDeposits_update (kv_except i)) (w\<lparr>wExt := x\<rparr>)) \<and>
      (\<forall>c d. AccBalance (geBank E) x c d = AccBalance (geBank E) (wExt w) c d
         - (if c = ModuleAddr (geBank E) gov_ModuleName then held es d else 0)) \<and>
      (\<forall>d. GetSupply (geBank E) x d = GetSupply (geBank E) (wExt w) d - held es d) \<and>
      funded E (on_gov (gDeposits_update (kv_except i)) (w\<lparr>wExt := x\<rparr>)))"
proof
  obtain x where x: "RefundAndDeleteDeposits E i w = Ok (on_gov (gDeposits_update (kv_except i)) (w\<lparr>wExt := x\<rparr>))"
      "pays_all (refunds E) es (wExt w) x" "funded E (on_gov (gDeposits_update (kv_except i)) (w\<lparr>wExt := x\<rparr>))"
    using refund_result [OF assms(1,2)] es by blast
  with refunds_sum [OF x(2)] show "\<exists>x. RefundAndDeleteDeposits E i w = Ok (on_gov (gDeposits_update (kv_except i)) (w\<lparr>wExt := x\<rparr>)) \<and>
      (\<forall>c d. AccBalance (geBank E) x c d = AccBalance (geBank E) (wExt w) c d
         - (if c = ModuleAddr (geBank E) gov_ModuleName then held es d else 0) + repaid E es c d) \<and>
      GetSupply (geBank E) x = GetSupply (geBank E) (wExt w) \<and>
      funded E (on_gov (gDeposits_update (kv_except i)) (w\<lparr>wExt := x\<rparr>))" by blast
  obtain y where y: "DeleteAndBurnDeposits E i w = Ok (on_gov (gDeposits_update (kv_except i)) (w\<lparr>wExt := y\<rparr>))"
      "pays_all (burns E) es (wExt w) y" "funded E (on_gov (gDeposits_update (kv_except i)) (w\<lparr>wExt := y\<rparr>))"
    using burn_result [OF assms(1,2)] es by blast
  with burns_sum [OF y(2)] show "\<exists>x. DeleteAndBurnDeposits E i w = Ok (on_gov (gDeposits_update (kv_except i)) (w\<lparr>wExt := x\<rparr>)) \<and>
      (\<forall>c d. AccBalance (geBank E) x c d = AccBalance (geBank E) (wExt w) c d
         - (if c = ModuleAddr (geBank E) gov_ModuleName then held es d else 0)) \<and>
      (\<forall>d. GetSupply (geBank E) x d = GetSupply (geBank E) (wExt w) d - held es d) \<and>
      funded E (on_gov (gDeposits_update (kv_except i)) (w\<lparr>wExt := x\<rparr>))" by blast
qed

lemma std_bank_ok: "bank_ok std_gov_env"
  by (simp add: bank_ok_def std_coins_laws std_bank_laws)

lemma std_funded: "funded std_gov_env std_world"
  by (simp add: funded_def std_gov_defs kv_wf_def entry_valid_def NewDeposit_def escrow_def deposited_def gov_balance_def
      ModBalance_def gov_ModuleName_def amt_Cons) (simp add: std_coins_def std_valid_def std_bank_def)

theorem deposits_are_settled_witness:
  "\<exists>x. RefundAndDeleteDeposits std_gov_env 1 std_world = Ok (on_gov (gDeposits_update (kv_except 1)) (std_world\<lparr>wExt := x\<rparr>)) \<and>
     AccBalance std_bank x [2] ''stake'' = 1500 \<and> ModBalance std_bank x ''gov'' ''stake'' = 0"
proof -
  let ?es = "kv_under 1 (gDeposits (wGov std_world))"
  have "held ?es ''stake'' = 500" "repaid std_gov_env ?es [2] ''stake'' = 500"
    "repaid std_gov_env ?es (std_module_addr ''gov'') ''stake'' = 0"
    by (simp_all add: std_gov_defs kv_under_def held_def repaid_def deposited_def NewDeposit_def amt_Cons std_module_addr_def)
  moreover have "AccBalance std_bank (wExt std_world) [2] ''stake'' = 1000"
    "AccBalance std_bank (wExt std_world) (std_module_addr ''gov'') ''stake'' = 500" "std_module_addr ''gov'' \<noteq> [2]"
    by (simp_all add: std_gov_defs std_module_addr_def)
  moreover note deposits_are_settled [OF std_bank_ok std_funded, of _ 1, OF refl]
  ultimately show ?thesis by (auto simp: gov_ModuleName_def ModBalance_def)
qed

end
