(* ===== verification/Gov_Solvency.thy ===== *)
theory Gov_Solvency
  imports Gov_Escrow
begin

text \<open>
  The deposits stay funded: every operation of the governance module, the messages of the core
  DAOs and the end blocker keep the balance of the module account at or above the recorded
  deposits, as long as nothing else takes coins from the account.
\<close>

section \<open>What else acts on the account\<close>

definition not_less_funds :: "('m, 'x) gov_env \<Rightarrow> 'x \<Rightarrow> 'x \<Rightarrow> bool" where
  "not_less_funds E x x' \<longleftrightarrow> (\<forall>d. gov_balance E x d \<le> gov_balance E x' d)"

text \<open>
  The bank and the addresses work as documented, and the hooks and the handlers of other modules
  take nothing from the account of the governance module.
\<close>

definition escrow_env :: "('m, 'x) gov_env \<Rightarrow> bool" where
  "escrow_env E \<longleftrightarrow> bank_ok E \<and> addr_laws (geAddr E) \<and>
     (\<forall>h x x'. geHook E h x = Some x' \<longrightarrow> not_less_funds E x x') \<and>
     (\<forall>p x x'. geChargeProposal E p x = Some x' \<longrightarrow> not_less_funds E x x') \<and>
     (\<forall>m h x x'. geOtherHandler E m = Some h \<longrightarrow> h x = Ok x' \<longrightarrow> not_less_funds E x x') \<and>
     (\<forall>r h c x x'. geLegacyHandler E r = Some h \<longrightarrow> h c x = Ok x' \<longrightarrow> not_less_funds E x x')"

text \<open>
  Who deposits: not the governance module itself, and nobody who cannot be paid back. This is asked
  of a message and of the messages a submitted proposal would execute.
\<close>

definition payer_ok :: "('m, 'x) gov_env \<Rightarrow> string \<Rightarrow> bool" where
  "payer_ok E s \<longleftrightarrow> (\<forall>a. FromBech32 (geAddr E) s = Some a \<longrightarrow>
     a \<noteq> ModuleAddr (geBank E) gov_ModuleName \<and> \<not> BlockedAddr (geBank E) a)"

fun escrow_msg :: "('m, 'x) gov_env \<Rightarrow> 'm gov_msg \<Rightarrow> bool" where
  "escrow_msg E (MsgSubmitProposal ms d proposer md t s) \<longleftrightarrow> payer_ok E proposer \<and>
     list_all (\<lambda>m. case m of Broken \<Rightarrow> True | Unpacked x \<Rightarrow> escrow_msg E x) ms"
| "escrow_msg E (MsgDeposit i depositor cs) \<longleftrightarrow> payer_ok E depositor"
| "escrow_msg E _ \<longleftrightarrow> True"

definition msgs_ok :: "('m, 'x) gov_env \<Rightarrow> 'm proposal \<Rightarrow> bool" where
  "msgs_ok E p \<longleftrightarrow> (\<forall>m. Unpacked m \<in> set (prMessages p) \<longrightarrow> escrow_msg E m)"

definition secure :: "('m, 'x) gov_env \<Rightarrow> ('m, 'x) world \<Rightarrow> bool" where
  "secure E w \<longleftrightarrow> funded E w \<and> (\<forall>i p. GetProposal w i = Some p \<longrightarrow> msgs_ok E p)"

lemma secure_funded: "secure E w \<Longrightarrow> funded E w"
  by (simp add: secure_def)

lemma secure_proposal: "secure E w \<Longrightarrow> GetProposal w i = Some p \<Longrightarrow> msgs_ok E p"
  by (simp add: secure_def)

lemma msgs_ok_cong: "prMessages p = prMessages q \<Longrightarrow> msgs_ok E p = msgs_ok E q"
  by (simp add: msgs_ok_def)

section \<open>Writes that do not touch deposits\<close>

named_theorems secure_writes "writes that leave deposits and proposals"

lemma secure_on_gov:
  assumes "gDeposits (f (wGov w)) = gDeposits (wGov w)" "gProposals (f (wGov w)) = gProposals (wGov w)"
  shows "secure E (on_gov f w) = secure E w"
  using assms by (simp add: secure_def funded_def escrow_def GetProposal_def)

lemma secure_write [simp, secure_writes]:
  "secure E (InsertActiveProposalQueue i t w) = secure E w" "secure E (RemoveFromActiveProposalQueue i t w) = secure E w"
  "secure E (InsertInactiveProposalQueue i t w) = secure E w" "secure E (RemoveFromInactiveProposalQueue i t w) = secure E w"
  "secure E (InsertQuorumCheckQueue i t q w) = secure E w" "secure E (RemoveFromQuorumCheckQueue i t w) = secure E w"
  "secure E (SetActiveProposalsNumber n w) = secure E w" "secure E (SetInactiveProposalsNumber n w) = secure E w"
  "secure E (SetLastMinDeposit cs t w) = secure E w" "secure E (SetLastMinInitialDeposit cs t w) = secure E w"
  "secure E (SetParticipationEMA E' d w) = secure E w" "secure E (SetConstitutionAmendmentParticipationEMA E' d w) = secure E w"
  "secure E (SetLawParticipationEMA E' d w) = secure E w" "secure E (SetConstitution c w) = secure E w"
  "secure E (SetProposalID n w) = secure E w" "secure E (gov_SetParams p w) = secure E w"
  "secure E (on_gov (gVotes_update f) w) = secure E w" "secure E (on_gov (gVotingPeriod_update h) w) = secure E w"
  by (simp_all add: secure_on_gov InsertActiveProposalQueue_def RemoveFromActiveProposalQueue_def InsertInactiveProposalQueue_def
      RemoveFromInactiveProposalQueue_def InsertQuorumCheckQueue_def RemoveFromQuorumCheckQueue_def SetActiveProposalsNumber_def
      SetInactiveProposalsNumber_def SetLastMinDeposit_def SetLastMinInitialDeposit_def SetParticipationEMA_def
      SetConstitutionAmendmentParticipationEMA_def SetLawParticipationEMA_def SetConstitution_def SetProposalID_def gov_SetParams_def)

lemma secure_ext: "secure E w \<Longrightarrow> not_less_funds E (wExt w) x \<Longrightarrow> secure E (w\<lparr>wExt := x\<rparr>)"
  unfolding secure_def funded_def not_less_funds_def by (auto intro: order_trans)

lemma secure_SetProposal: "secure E w \<Longrightarrow> msgs_ok E p \<Longrightarrow> secure E (SetProposal p w)"
  by (auto simp: secure_def funded_def escrow_def SetProposal_def GetProposal_def split: if_splits)

lemma secure_delete: "secure E w \<Longrightarrow> secure E (on_gov (gProposals_update (kv_del i)) w)"
  by (auto simp: secure_def funded_def escrow_def GetProposal_def split: if_splits)

lemma foldR_secure:
  "foldR f xs w = Ok w' \<Longrightarrow> secure E w \<Longrightarrow> (\<And>x w w'. x \<in> set xs \<Longrightarrow> f x w = Ok w' \<Longrightarrow> secure E w \<Longrightarrow> secure E w') \<Longrightarrow> secure E w'"
  by (rule foldR_invariant [of f xs w w' "secure E"])

lemma iterate_secure:
  assumes "iterate_queue es cb w = Ok w'" "secure E w"
    and "\<And>p t v w stop w'. secure E w \<Longrightarrow> msgs_ok E p \<Longrightarrow> cb p t v w = Ok (stop, w') \<Longrightarrow> secure E w'"
  shows "secure E w'"
  using assms(1,2)
proof (induction es arbitrary: w)
  case (Cons e es)
  obtain t i v where e: "e = ((t, i), v)" by (metis prod.exhaust)
  with Cons.prems(1) obtain p stop w1 where p: "GetProposal w i = Some p" "cb p t v w = Ok (stop, w1)"
    "(if stop then Ok w1 else iterate_queue es cb w1) = Ok w'" by auto
  have "secure E w1" by (rule assms(3) [OF Cons.prems(2) secure_proposal [OF Cons.prems(2) p(1)] p(2)])
  with p(3) Cons.IH show ?case by (simp split: if_splits)
qed simp

lemma loops_secure:
  "IterateInactiveProposalsQueue t cb w = Ok w' \<Longrightarrow> secure E w \<Longrightarrow>
     (\<And>p w stop w'. secure E w \<Longrightarrow> msgs_ok E p \<Longrightarrow> cb p w = Ok (stop, w') \<Longrightarrow> secure E w') \<Longrightarrow> secure E w'"
  "IterateActiveProposalsQueue t cb w = Ok w' \<Longrightarrow> secure E w \<Longrightarrow>
     (\<And>p w stop w'. secure E w \<Longrightarrow> msgs_ok E p \<Longrightarrow> cb p w = Ok (stop, w') \<Longrightarrow> secure E w') \<Longrightarrow> secure E w'"
  "IterateQuorumCheckQueue t cb' w = Ok w' \<Longrightarrow> secure E w \<Longrightarrow>
     (\<And>p t v w stop w'. secure E w \<Longrightarrow> msgs_ok E p \<Longrightarrow> cb' p t v w = Ok (stop, w') \<Longrightarrow> secure E w') \<Longrightarrow> secure E w'"
  unfolding IterateInactiveProposalsQueue_def IterateActiveProposalsQueue_def IterateQuorumCheckQueue_def
  by (erule iterate_secure; blast)+

section \<open>Operations of the keeper\<close>

lemma run_hook_secure: "escrow_env E \<Longrightarrow> run_hook E h w = Ok w' \<Longrightarrow> secure E w \<Longrightarrow> secure E w'"
  by (auto simp: run_hook_def escrow_env_def intro: secure_ext)

lemma min_deposits_secure:
  "UpdateMinDeposit E' B c w = Ok w' \<Longrightarrow> secure E w \<Longrightarrow> secure E w'"
  "UpdateMinInitialDeposit E' B c w = Ok w' \<Longrightarrow> secure E w \<Longrightarrow> secure E w'"
  by (auto simp: UpdateMinDeposit_def UpdateMinInitialDeposit_def split: option.splits)

lemma counters_secure:
  "IncrementActiveProposalsNumber E' B w = Ok w' \<Longrightarrow> secure E w \<Longrightarrow> secure E w'"
  "IncrementInactiveProposalsNumber E' B w = Ok w' \<Longrightarrow> secure E w \<Longrightarrow> secure E w'"
  "DecrementActiveProposalsNumber w = Ok w' \<Longrightarrow> secure E w \<Longrightarrow> secure E w'"
  "DecrementInactiveProposalsNumber w = Ok w' \<Longrightarrow> secure E w \<Longrightarrow> secure E w'"
  by (auto simp: IncrementActiveProposalsNumber_def IncrementInactiveProposalsNumber_def DecrementActiveProposalsNumber_def
      DecrementInactiveProposalsNumber_def Let_def split: if_splits dest: min_deposits_secure)

lemma votes_secure:
  "SetVote E' v w = Ok w' \<Longrightarrow> secure E w \<Longrightarrow> secure E w'"
  "deleteVote E' i a w = Ok w' \<Longrightarrow> secure E w \<Longrightarrow> secure E w'"
  by (auto simp: SetVote_def deleteVote_def)

lemma DeleteVotes_secure: "DeleteVotes E' i w = Ok w' \<Longrightarrow> secure E w \<Longrightarrow> secure E w'"
  unfolding DeleteVotes_def by (erule foldR_secure) (auto dest: votes_secure)

lemma AddVote_secure: "escrow_env E \<Longrightarrow> AddVote E i a opts md w = Ok w' \<Longrightarrow> secure E w \<Longrightarrow> secure E w'"
  by (auto simp: AddVote_def dest!: votes_secure(1) intro: run_hook_secure)

lemma tally_votes_secure:
  "tally_votes E' vals fin votes acc w = Ok (tvp, r, err, w') \<Longrightarrow> secure E w \<Longrightarrow> secure E w'"
  by (erule tally_votes_keeps) (auto dest: votes_secure)

lemma Tally_secure: "Tally E' p w = Ok (t, w') \<Longrightarrow> secure E w \<Longrightarrow> secure E w'"
  by (auto simp: Tally_def tallyVotes_def Let_def split: res.splits option.splits if_splits dest!: tally_votes_secure)

lemma UpdateParticipationEMA_secure:
  assumes "UpdateParticipationEMA E' p d w = Ok w'" "secure E w"
  shows "secure E w'"
  using assms unfolding UpdateParticipationEMA_def Let_def by (auto split: if_split_asm)

lemma DeleteProposal_secure:
  assumes d: "DeleteProposal E' i w = Ok w'" and s: "secure E w"
  shows "secure E w'"
proof -
  obtain p where p: "GetProposal w i = Some p" using d by (cases "GetProposal w i") (auto simp: DeleteProposal_def)
  let ?w0 = "case prDepositEndTime p of None \<Rightarrow> w | Some t \<Rightarrow> RemoveFromInactiveProposalQueue i t w"
  have w0: "secure E ?w0" using s by (simp split: option.splits)
  show ?thesis
  proof (cases "prVotingEndTime p")
    case None
    with d p have "on_gov (gProposals_update (kv_del i)) ?w0 = w'" by (simp add: DeleteProposal_def Let_def)
    with secure_delete [OF w0] show ?thesis by metis
  next
    case (Some t)
    let ?w1 = "on_gov (gVotingPeriod_update (kv_del i)) (RemoveFromActiveProposalQueue i t ?w0)"
    have w1: "secure E ?w1" using w0 by simp
    from d p Some w1 show ?thesis
      by (auto simp: DeleteProposal_def Let_def intro!: secure_delete elim!: loops_secure split: if_split_asm)
  qed
qed

lemma ActivateVotingPeriod_secure:
  assumes a: "ActivateVotingPeriod E' B p w = Ok w'" and s: "secure E w" and p: "msgs_ok E p"
  shows "secure E w'"
proof -
  let ?p = "\<lambda>vp. p\<lparr>prVotingStartTime := Some B, prVotingEndTime := Some (time_add B vp), prStatus := StatusVotingPeriod\<rparr>"
  have "msgs_ok E (?p vp)" for vp using p by (simp add: msgs_ok_def)
  then have "secure E (SetProposal (?p vp) w)" for vp by (rule secure_SetProposal [OF s])
  with a show ?thesis
    unfolding ActivateVotingPeriod_def Let_def
    by (elim bindE) (erule counters_secure(1), auto split: if_split_asm elim!: counters_secure(4))
qed

section \<open>Deposits\<close>

text \<open>The coins and the records; activation leaves them.\<close>

definition money :: "('m, 'x) world \<Rightarrow> (u64 \<times> addr, deposit) kv \<times> 'x" where
  "money w = (gDeposits (wGov w), wExt w)"

lemma money_write [simp]:
  "money (InsertActiveProposalQueue i t w) = money w" "money (RemoveFromInactiveProposalQueue i t w) = money w"
  "money (InsertQuorumCheckQueue i t q w) = money w" "money (SetActiveProposalsNumber n w) = money w"
  "money (SetInactiveProposalsNumber n w) = money w" "money (SetLastMinDeposit cs t w) = money w"
  "money (SetProposal p w) = money w"
  by (simp_all add: money_def InsertActiveProposalQueue_def RemoveFromInactiveProposalQueue_def InsertQuorumCheckQueue_def
      SetActiveProposalsNumber_def SetInactiveProposalsNumber_def SetLastMinDeposit_def SetProposal_def)

lemma counters_money:
  "IncrementActiveProposalsNumber E B w = Ok w' \<Longrightarrow> money w = m \<Longrightarrow> money w' = m"
  "DecrementInactiveProposalsNumber w = Ok w' \<Longrightarrow> money w = m \<Longrightarrow> money w' = m"
  by (auto simp: IncrementActiveProposalsNumber_def DecrementInactiveProposalsNumber_def UpdateMinDeposit_def Let_def
      split: if_splits option.splits)

lemma ActivateVotingPeriod_money: "ActivateVotingPeriod E B p w = Ok w' \<Longrightarrow> money w' = money w"
  unfolding ActivateVotingPeriod_def Let_def
  by (elim bindE) (erule counters_money(1), auto split: if_split_asm elim!: counters_money(2))

text \<open>What a deposit does to the coins and the records.\<close>

lemma AddDeposit_money:
  assumes "AddDeposit E B i a cs skip w = Ok (b, w')" and s: "secure E w"
  obtains k x1 x2 dep w2 where "SendToModule (geBank E) a gov_ModuleName cs (wExt w) = Ok x1"
    "geHook E (AfterProposalDeposit i a) x1 = Some x2" "geLengthPrefix E a = Some k"
    "gDeposits (wGov w2) = gDeposits (wGov w)" "wExt w2 = x1" "\<forall>i p. GetProposal w2 i = Some p \<longrightarrow> msgs_ok E p"
    "case kv_get (gDeposits (wGov w)) (i, k) of None \<Rightarrow> dep = NewDeposit (geAddr E) i a cs
     | Some d \<Rightarrow> \<exists>old am. NewCoins (geCoins E) (dAmount d) = Some old \<and> CoinsAdd (geCoins E) old cs = Some am \<and>
         dep = d\<lparr>dAmount := am\<rparr>"
    "SetDeposit E dep (w2\<lparr>wExt := x2\<rparr>) = Ok w'"
proof -
  from assms(1) obtain p x1 tot activated w2 w3 d found where p: "GetProposal w i = Some p"
    and send: "SendToModule (geBank E) a gov_ModuleName cs (wExt w) = Ok x1"
    and act: "(if activated then ActivateVotingPeriod E B (p\<lparr>prTotalDeposit := tot\<rparr>)
        (SetProposal (p\<lparr>prTotalDeposit := tot\<rparr>) (w\<lparr>wExt := x1\<rparr>))
      else Ok (SetProposal (p\<lparr>prTotalDeposit := tot\<rparr>) (w\<lparr>wExt := x1\<rparr>))) = Ok w2"
    and found: "GetDeposit E w2 i a = Ok found"
    and d: "(case found of Some d \<Rightarrow> bindR (must (NewCoins (geCoins E) (dAmount d))) (\<lambda>old.
           bindR (must (CoinsAdd (geCoins E) old cs)) (\<lambda>amount. Ok (d\<lparr>dAmount := amount\<rparr>)))
       | None \<Rightarrow> Ok (NewDeposit (geAddr E) i a cs)) = Ok d"
    and hook: "run_hook E (AfterProposalDeposit i a) w2 = Ok w3" and set: "SetDeposit E d w3 = Ok w'"
    unfolding AddDeposit_def Let_def bindR_eq_Ok must_eq_Ok orErr_eq_Ok on_ext_eq_Ok failIf_eq_Ok by auto
  let ?p = "p\<lparr>prTotalDeposit := tot\<rparr>" and ?w1 = "w\<lparr>wExt := x1\<rparr>"
  have mp: "msgs_ok E ?p" using secure_proposal [OF s p] by (simp add: msgs_ok_def)
  obtain k where k: "geLengthPrefix E a = Some k" "found = kv_get (gDeposits (wGov w2)) (i, k)"
    using found by (auto simp: GetDeposit_def addr_key_def)
  obtain x2 where x2: "geHook E (AfterProposalDeposit i a) (wExt w2) = Some x2" "w3 = w2\<lparr>wExt := x2\<rparr>"
    using hook by (auto simp: run_hook_def)
  have "money w2 = money ?w1"
    using act by (auto split: if_split_asm dest: ActivateVotingPeriod_money)
  then have w2: "gDeposits (wGov w2) = gDeposits (wGov w)" "wExt w2 = x1" by (simp_all add: money_def)
  have one: "\<forall>i q. GetProposal (SetProposal ?p ?w1) i = Some q \<longrightarrow> msgs_ok E q"
    using s mp by (auto simp: secure_def)
  have "\<forall>i q. GetProposal w2 i = Some q \<longrightarrow> msgs_ok E q"
  proof (cases activated)
    case True
    then have a: "ActivateVotingPeriod E B ?p (SetProposal ?p ?w1) = Ok w2" using act by simp
    show ?thesis using one mp activate_core [OF a]
      by (auto simp: GetProposal_def core_def SetProposal_def msgs_ok_def split: if_splits)
  next
    case False
    then show ?thesis using act one by auto
  qed
  with that [OF send _ k(1) w2(1) w2(2), of x2 d] x2 k(2) d set w2 show ?thesis
    by (auto split: option.splits)
qed

lemma transfer_in:
  assumes B: "bank_ok E" and cs: "CoinsIsValid (geCoins E) cs"
    and send: "SendToModule (geBank E) a gov_ModuleName cs x = Ok x1"
  shows "gov_balance E x1 d = gov_balance E x d + (if a = ModuleAddr (geBank E) gov_ModuleName then 0 else amt cs d)"
  using SendToModule_result [OF bank_okD(2) [OF B] cs send] by (simp add: gov_balance_def ModBalance_def)

text \<open>The record of the depositor grows by the deposit.\<close>

lemma AddDeposit_records:
  assumes E: "escrow_env E" and dep: "AddDeposit E B i a cs skip w = Ok (b, w')" and s: "secure E w"
    and cs: "CoinsIsValid (geCoins E) cs" and a: "\<not> BlockedAddr (geBank E) a"
  shows "\<exists>x1. SendToModule (geBank E) a gov_ModuleName cs (wExt w) = Ok x1 \<and>
      geHook E (AfterProposalDeposit i a) x1 = Some (wExt w') \<and>
      kv_wf (gDeposits (wGov w')) \<and> (\<forall>e \<in> set (gDeposits (wGov w')). entry_valid E e) \<and>
      (\<forall>d. escrow (wGov w') d = escrow (wGov w) d + amt cs d) \<and>
      (\<forall>j q. GetProposal w' j = Some q \<longrightarrow> msgs_ok E q)"
proof -
  have B: "bank_ok E" and A: "addr_laws (geAddr E)" using E by (simp_all add: escrow_env_def)
  note C = bank_okD(1) [OF B]
  obtain k x1 x2 dep w2 where m: "SendToModule (geBank E) a gov_ModuleName cs (wExt w) = Ok x1"
    "geHook E (AfterProposalDeposit i a) x1 = Some x2" "geLengthPrefix E a = Some k"
    "gDeposits (wGov w2) = gDeposits (wGov w)" "wExt w2 = x1" "\<forall>i p. GetProposal w2 i = Some p \<longrightarrow> msgs_ok E p"
    "case kv_get (gDeposits (wGov w)) (i, k) of None \<Rightarrow> dep = NewDeposit (geAddr E) i a cs
     | Some d \<Rightarrow> \<exists>old am. NewCoins (geCoins E) (dAmount d) = Some old \<and> CoinsAdd (geCoins E) old cs = Some am \<and>
         dep = d\<lparr>dAmount := am\<rparr>"
    "SetDeposit E dep (w2\<lparr>wExt := x2\<rparr>) = Ok w'"
    by (rule AddDeposit_money [OF dep s])
  have f: "funded E w" by (rule secure_funded [OF s])
  then have wf: "kv_wf (gDeposits (wGov w))" by (simp add: funded_def)
  have new: "entry_valid E ((i, k), dep) \<and> (\<forall>d. sum_list (map (\<lambda>e. deposited e d) (kv_set (i, k) dep (gDeposits (wGov w)))) =
      escrow (wGov w) d + amt cs d)"
  proof (cases "kv_get (gDeposits (wGov w)) (i, k)")
    case None
    then have "dep = NewDeposit (geAddr E) i a cs" "\<not> kv_has (gDeposits (wGov w)) (i, k)" using m(7) by (simp_all add: kv_has_def)
    then show ?thesis
      using A cs a m(3) by (simp add: entry_valid_def NewDeposit_def addr_laws_def kv_sum_set_new escrow_def deposited_def)
  next
    case (Some old)
    from entry_facts [OF f this] obtain a' where o: "dProposalId old = i" "CoinsIsValid (geCoins E) (dAmount old)"
        "FromBech32 (geAddr E) (dDepositor old) = Some a'" "geLengthPrefix E a' = Some k" "\<not> BlockedAddr (geBank E) a'" by metis
    from m(7) Some o(2) obtain am where am: "CoinsAdd (geCoins E) (dAmount old) cs = Some am" "dep = old\<lparr>dAmount := am\<rparr>"
      by (auto simp: NewCoins_valid [OF C])
    have "CoinsIsValid (geCoins E) am" "amt am d = amt (dAmount old) d + amt cs d" for d
      using CoinsAdd_valid [OF C o(2) cs] am(1) by auto
    then show ?thesis
      using o am(2) by (simp add: entry_valid_def kv_sum_set_old [OF wf Some] escrow_def deposited_def)
  qed
  have w': "w' = on_gov (gDeposits_update (kv_set (i, k) dep)) (w2\<lparr>wExt := x2\<rparr>)"
    using m(8) new by (auto simp: SetDeposit_def must_addr_def addr_key_def entry_valid_def)
  have "set (kv_set (i, k) dep (gDeposits (wGov w))) \<subseteq> insert ((i, k), dep) (set (gDeposits (wGov w)))"
    using kvs.put_entries [OF wf] by auto
  with new f m wf show ?thesis
    by (intro exI [of _ x1]) (auto simp: w' funded_def escrow_def GetProposal_def)
qed

lemma AddDeposit_secure:
  assumes E: "escrow_env E" and dep: "AddDeposit E B i a cs skip w = Ok (b, w')" and s: "secure E w"
    and cs: "CoinsIsValid (geCoins E) cs"
    and a: "a \<noteq> ModuleAddr (geBank E) gov_ModuleName" "\<not> BlockedAddr (geBank E) a"
  shows "secure E w'"
proof -
  from AddDeposit_records [OF E dep s cs a(2)] obtain x1 where
    x1: "SendToModule (geBank E) a gov_ModuleName cs (wExt w) = Ok x1" "geHook E (AfterProposalDeposit i a) x1 = Some (wExt w')"
    and rest: "kv_wf (gDeposits (wGov w'))" "\<forall>e \<in> set (gDeposits (wGov w')). entry_valid E e"
      "\<And>d. escrow (wGov w') d = escrow (wGov w) d + amt cs d" "\<forall>j q. GetProposal w' j = Some q \<longrightarrow> msgs_ok E q" by blast
  have "bank_ok E" and hook: "not_less_funds E x1 (wExt w')" using E x1(2) by (auto simp: escrow_env_def)
  from transfer_in [OF this(1) cs x1(1)] a(1)
  have "gov_balance E x1 d = gov_balance E (wExt w) d + amt cs d" for d by simp
  then have "escrow (wGov w) d + amt cs d \<le> gov_balance E (wExt w') d" for d
    using hook secure_funded [OF s] unfolding funded_def not_less_funds_def by (metis add_right_mono order_trans)
  with rest show ?thesis by (simp add: secure_def funded_def)
qed

lemma settle_secure:
  assumes E: "escrow_env E" and s: "secure E w"
  shows "RefundAndDeleteDeposits E i w = Ok w' \<Longrightarrow> secure E w'" "DeleteAndBurnDeposits E i w = Ok w' \<Longrightarrow> secure E w'"
proof -
  have B: "bank_ok E" and f: "funded E w" using E s by (simp_all add: escrow_env_def secure_def)
  have keep: "secure E (on_gov (gDeposits_update f) (w\<lparr>wExt := x\<rparr>))" if "funded E (on_gov (gDeposits_update f) (w\<lparr>wExt := x\<rparr>))" for f x
    using that s by (simp add: secure_def GetProposal_def)
  show "RefundAndDeleteDeposits E i w = Ok w' \<Longrightarrow> secure E w'" using refund_result [OF B f, of i] keep by auto
  show "DeleteAndBurnDeposits E i w = Ok w' \<Longrightarrow> secure E w'" using burn_result [OF B f, of i] keep by auto
qed

section \<open>Messages\<close>

lemma GetMsgs_escrow:
  assumes "list_all (\<lambda>m. case m of Broken \<Rightarrow> True | Unpacked x \<Rightarrow> escrow_msg E x) ms" "GetMsgs ms = Ok xs"
  shows "\<forall>m \<in> set xs. escrow_msg E m"
  using assms by (force simp: GetMsgs_def unpacked_def list_all_iff split: if_splits any.splits)

lemma SubmitProposal_secure:
  assumes E: "escrow_env E" and h: "SubmitProposal E B ms md ti su a w = Ok (p, w')" and s: "secure E w"
    and ms: "\<forall>m \<in> set ms. escrow_msg E m"
  shows "secure E w'"
proof -
  from h obtain i period w1 where
    inc: "IncrementInactiveProposalsNumber E B (SetProposalID (i + 1) (InsertInactiveProposalQueue i (time_add B period)
      (SetProposal (NewProposal (geAddr E) ms i B (time_add B period) md ti su a) w))) = Ok w1"
    and hook: "run_hook E (AfterProposalSubmission i) w1 = Ok w'"
    unfolding SubmitProposal_def Let_def bindR_eq_Ok by auto
  have "msgs_ok E (NewProposal (geAddr E) ms i B (time_add B period) md ti su a)"
    using ms by (auto simp: msgs_ok_def NewProposal_def)
  from secure_SetProposal [OF s this] have "secure E w1" by (intro counters_secure(2) [OF inc]) simp
  then show ?thesis by (rule run_hook_secure [OF E hook])
qed

lemma msg_SubmitProposal_secure:
  assumes E: "escrow_env E" and h: "msg_SubmitProposal E B ms dep pr md ti su w = Ok (i, w')" and s: "secure E w"
    and m: "escrow_msg E (MsgSubmitProposal ms dep pr md ti su)"
  shows "secure E w'"
proof -
  from h obtain u xs a p w1 w2 b where val: "validateInitialDeposit E dep w = Ok u" and xs: "GetMsgs ms = Ok xs"
    and a: "account E pr = Ok a" and sub: "SubmitProposal E B xs md ti su a w = Ok (p, w1)"
    and gas: "on_ext (\<lambda>x. must (geChargeProposal E p x)) w1 = Ok w2"
    and add: "AddDeposit E B (prId p) a dep True w2 = Ok (b, w')"
    unfolding msg_SubmitProposal_def bindR_eq_Ok by auto
  have cs: "CoinsIsValid (geCoins E) dep" using val by (simp add: validateInitialDeposit_def)
  have "list_all (\<lambda>m. case m of Broken \<Rightarrow> True | Unpacked x \<Rightarrow> escrow_msg E x) ms" using m by simp
  from GetMsgs_escrow [OF this xs] have "secure E w1" by (rule SubmitProposal_secure [OF E sub s])
  then have "secure E w2" using E gas by (auto simp: escrow_env_def intro!: secure_ext)
  from AddDeposit_secure [OF E add this cs] a m show ?thesis by (simp add: payer_ok_def account_def)
qed

lemma handle_msg_secure:
  assumes E: "escrow_env E" and h: "handle_msg E B msg w = Ok w'" and s: "secure E w" and m: "escrow_msg E msg"
  shows "secure E w'"
proof (cases msg)
  case (MsgSubmitProposal ms dep pr md ti su)
  with h obtain i where "msg_SubmitProposal E B ms dep pr md ti su w = Ok (i, w')" by (auto simp: handle_msg_def)
  then show ?thesis using m MsgSubmitProposal by (blast intro: msg_SubmitProposal_secure [OF E _ s])
next
  case (MsgDeposit i d cs)
  with h obtain a b where a: "FromBech32 (geAddr E) d = Some a" and cs: "CoinsIsValid (geCoins E) cs"
    and add: "AddDeposit E B i a cs False w = Ok (b, w')"
    by (auto simp: handle_msg_def msg_Deposit_def account_def validateDeposit_def)
  from AddDeposit_secure [OF E add s cs] a m MsgDeposit show ?thesis by (simp add: payer_ok_def)
next
  case (MsgVote i v opt md)
  with h E s show ?thesis by (auto simp: handle_msg_def msg_Vote_def dest: AddVote_secure)
next
  case (MsgVoteWeighted i v opts md)
  with h E s show ?thesis by (auto simp: handle_msg_def msg_VoteWeighted_def dest: AddVote_secure)
next
  case (MsgExecLegacyContent c a)
  with h obtain r f c' x where "geLegacyHandler E r = Some f" "f c' (wExt w) = Ok x" "w' = w\<lparr>wExt := x\<rparr>"
    by (auto simp: handle_msg_def ExecLegacyContent_def split: any.splits)
  then show ?thesis using E s by (auto simp: escrow_env_def intro!: secure_ext)
next
  case (MsgUpdateParams au p)
  with h s show ?thesis by (auto simp: handle_msg_def msg_UpdateParams_def Let_def)
next
  case (MsgProposeLaw a)
  with h s show ?thesis by (auto simp: handle_msg_def msg_ProposeLaw_def)
next
  case (MsgProposeConstitutionAmendment a am)
  with h s show ?thesis by (auto simp: handle_msg_def msg_ProposeConstitutionAmendment_def)
next
  case (MsgOther m)
  with h obtain f x where "geOtherHandler E m = Some f" "f (wExt w) = Ok x" "w' = w\<lparr>wExt := x\<rparr>"
    by (auto simp: handle_msg_def)
  then show ?thesis using E s by (auto simp: escrow_env_def intro!: secure_ext)
qed

section \<open>Blocks\<close>

lemma end_deposit_secure:
  assumes E: "escrow_env E" and h: "end_deposit_period E B p w = Ok (stop, w')" and s: "secure E w" and p: "msgs_ok E p"
  shows "secure E w'"
proof -
  obtain reached where reached: "reaches_min_deposit E p (GetMinDeposit w) = Ok reached"
    using h unfolding end_deposit_period_def bindR_eq_Ok by blast
  show ?thesis
  proof (cases reached)
    case True
    with h reached have "ActivateVotingPeriod E B p w = Ok w'" by (auto simp: end_deposit_period_def)
    then show ?thesis by (rule ActivateVotingPeriod_secure [OF _ s p])
  next
    case False
    with h reached obtain w1 w2 w3 where del: "DeleteProposal E (prId p) w = Ok w1"
      and settle: "(if \<not> gpBurnProposalDepositPrevote (gov_GetParams w1)
          then RefundAndDeleteDeposits E (prId p) w1 else DeleteAndBurnDeposits E (prId p) w1) = Ok w2"
      and dec: "DecrementInactiveProposalsNumber w2 = Ok w3"
      and hook: "run_hook E (AfterProposalFailedMinDeposit (prId p)) w3 = Ok w'"
      unfolding end_deposit_period_def bindR_eq_Ok by auto
    have "secure E w1" by (rule DeleteProposal_secure [OF del s])
    then have "secure E w2" using settle by (auto split: if_split_asm intro: settle_secure [OF E])
    then show ?thesis by (rule run_hook_secure [OF E hook counters_secure(4) [OF dec]])
  qed
qed

lemma extend_voting_secure:
  assumes "extend_voting B p w = Ok w'" "secure E w" "msgs_ok E p"
  shows "secure E w'"
  using assms
  by (auto simp: extend_voting_def Let_def msgs_ok_def split: if_splits intro!: secure_SetProposal)

lemma check_quorum_secure:
  assumes h: "check_quorum E' B p t e w = Ok (stop, w')" and s: "secure E w" and p: "msgs_ok E p"
  shows "secure E w'"
proof -
  let ?w = "RemoveFromQuorumCheckQueue (prId p) t w"
  have "secure E ?w" using s by simp
  with h p show ?thesis
    by (auto simp: check_quorum_def Let_def split: res.splits if_splits dest: extend_voting_secure)
qed

lemma execute_secure:
  assumes E: "escrow_env E"
  shows "foldR (safeExecuteHandler E B) ms w = Ok w' \<Longrightarrow> secure E w \<Longrightarrow> \<forall>m \<in> set ms. escrow_msg E m \<Longrightarrow> secure E w'"
  by (erule foldR_secure) (auto simp: safeExecuteHandler_def split: res.splits intro: handle_msg_secure [OF E])

lemma end_voting_secure:
  assumes E: "escrow_env E" and h: "end_voting_period E B p w = Ok (stop, w')" and s: "secure E w" and p: "msgs_ok E p"
  shows "secure E w'"
proof -
  from h obtain t w1 w2 where tally: "Tally E p w = Ok (t, w1)"
    and settle: "(if tlBurn t then DeleteAndBurnDeposits E (prId p) w1 else RefundAndDeleteDeposits E (prId p) w1) = Ok w2"
    unfolding end_voting_period_def by auto
  let ?sw = "if tlPasses t then (case execute_messages E B p w2 of Ok w' \<Rightarrow> (StatusPassed, w') | _ \<Rightarrow> (StatusFailed, w2))
    else (StatusRejected, w2)"
  obtain st w3 where sw: "?sw = (st, w3)" by (cases ?sw)
  let ?p = "p\<lparr>prStatus := st, prFinalTallyResult := Some (tlResults t)\<rparr>"
  from h obtain vt w4 w5 where dec: "DecrementActiveProposalsNumber (RemoveFromActiveProposalQueue (prId p) vt (SetProposal ?p w3)) = Ok w4"
    and ema: "UpdateParticipationEMA E ?p (tlParticipation t) w4 = Ok w5"
    and hook: "run_hook E (AfterProposalVotingPeriodEnded (prId p)) w5 = Ok w'"
    unfolding end_voting_period_def tally settle sw Let_def bindR.simps by (auto simp: settle sw Let_def)
  have "secure E w1" by (rule Tally_secure [OF tally s])
  then have w2: "secure E w2" using settle by (auto split: if_split_asm intro: settle_secure [OF E])
  have "secure E w3"
  proof (cases "\<exists>w'. tlPasses t \<and> execute_messages E B p w2 = Ok w'")
    case True
    then obtain xs where xs: "GetMsgs (prMessages p) = Ok xs" "foldR (safeExecuteHandler E B) xs w2 = Ok w3"
      using sw by (auto simp: execute_messages_def)
    have "\<forall>m \<in> set xs. escrow_msg E m"
      using p xs(1) by (force simp: msgs_ok_def GetMsgs_def unpacked_def split: if_splits any.splits)
    with execute_secure [OF E xs(2) w2] show ?thesis by blast
  next
    case False
    then have "w3 = w2" using sw by (auto split: if_split_asm res.splits)
    with w2 show ?thesis by simp
  qed
  moreover have "msgs_ok E ?p" using p by (simp add: msgs_ok_def)
  ultimately have "secure E (RemoveFromActiveProposalQueue (prId p) vt (SetProposal ?p w3))" by (simp add: secure_SetProposal)
  then have "secure E w4" by (rule counters_secure(3) [OF dec])
  then have "secure E w5" by (rule UpdateParticipationEMA_secure [OF ema])
  then show ?thesis by (rule run_hook_secure [OF E hook])
qed

lemma EndBlocker_secure:
  assumes E: "escrow_env E" and h: "EndBlocker E B w = Ok w'" and s: "secure E w"
  shows "secure E w'"
proof -
  from h obtain w1 w2 w3 w4 where l: "IterateInactiveProposalsQueue B (end_deposit_period E B) w = Ok w1"
      "IterateQuorumCheckQueue B (check_quorum E B) w1 = Ok w2" "IterateActiveProposalsQueue B (end_voting_period E B) w2 = Ok w3"
      "UpdateMinInitialDeposit E B True w3 = Ok w4" "UpdateMinDeposit E B True w4 = Ok w'"
    unfolding EndBlocker_def bindR_eq_Ok by blast
  have "secure E w1" by (rule loops_secure(1) [OF l(1) s end_deposit_secure [OF E]])
  then have "secure E w2" by (rule loops_secure(3) [OF l(2) _ check_quorum_secure])
  then have "secure E w3" by (rule loops_secure(2) [OF l(3) _ end_voting_secure [OF E]])
  then show ?thesis by (intro min_deposits_secure(1) [OF l(5)] min_deposits_secure(2) [OF l(4)])
qed

section \<open>Messages of the core DAOs\<close>

lemma dao_msg_secure:
  assumes E: "escrow_env (deGov D)" and h: "handle_dao_msg D B msg c = Ok c'" and s: "secure (deGov D) (snd c)"
  shows "secure (deGov D) (snd c')"
proof -
  let ?E = "deGov D" and ?w = "snd c"
  have set: "secure ?E (SetProposal (f p) w)" if "GetProposal ?w i = Some p" "\<And>p. prMessages (f p) = prMessages p" "secure ?E w" for f p w i
    using secure_SetProposal [OF that(3)] secure_proposal [OF s that(1)] msgs_ok_cong [OF that(2)] by metis
  have veto: "secure ?E w'" if "VetoProposal ?E B params v i burn ?w = Ok w'" for params v i burn w'
  proof -
    from that obtain p w1 w2 vt w3 w4 where p: "GetProposal ?w i = Some p"
      and settle: "(if burn then DeleteAndBurnDeposits ?E (prId p) ?w else RefundAndDeleteDeposits ?E (prId p) ?w) = Ok w1"
      and votes: "DeleteVotes ?E (prId p) (SetProposal (p\<lparr>prStatus := StatusVetoed, prFinalTallyResult := Some EmptyTallyResult\<rparr>) w1) = Ok w2"
      and dec: "DecrementActiveProposalsNumber (RemoveFromActiveProposalQueue (prId p) vt w2) = Ok w3"
      and mins: "UpdateMinInitialDeposit ?E B True w3 = Ok w4" "UpdateMinDeposit ?E B True w4 = Ok w'"
      unfolding VetoProposal_def proposal_under_vote_def Let_def by auto
    have "secure ?E w1" using settle s by (auto split: if_split_asm intro: settle_secure [OF E])
    then have "secure ?E w2"
      by (intro DeleteVotes_secure [OF votes] set [OF p, of "\<lambda>p. p\<lparr>prStatus := StatusVetoed, prFinalTallyResult := Some EmptyTallyResult\<rparr>"]) simp_all
    then show ?thesis
      by (intro min_deposits_secure(1) [OF mins(2)] min_deposits_secure(2) [OF mins(1)] counters_secure(3) [OF dec]) simp
  qed
  show ?thesis
  proof (cases msg)
    case (MsgAnnotateProposal a i an ow)
    with h s show ?thesis
      by (auto simp: handle_dao_msg_def AnnotateProposal_def proposal_under_vote_def intro!: set [of _ _ "\<lambda>p. p\<lparr>prAnnotation := an\<rparr>"])
  next
    case (MsgEndorseProposal e i)
    with h s show ?thesis
      by (auto simp: handle_dao_msg_def EndorseProposal_def proposal_under_vote_def intro!: set [of _ _ "\<lambda>p. p\<lparr>prEndorsed := True\<rparr>"])
  next
    case (MsgExtendVotingPeriod e i)
    with h s show ?thesis
      by (auto simp: handle_dao_msg_def ExtendVotingPeriod_def proposal_under_vote_def Let_def
          intro!: set [of _ _ "\<lambda>p. p\<lparr>prVotingEndTime := Some (time_add _ _), prTimesVotingPeriodExtended := prTimesVotingPeriodExtended p + 1\<rparr>"])
  next
    case (MsgVetoProposal v i burn)
    with h veto show ?thesis by (auto simp: handle_dao_msg_def)
  next
    case (MsgUpdateDaoParams au p)
    with h s show ?thesis by (auto simp: handle_dao_msg_def dao_UpdateParams_def)
  qed
qed

section \<open>Every reachable state\<close>

text \<open>
  The steps of a chain on which only the governance module and the core DAOs take coins from the
  account: messages whose depositors can be paid back, messages of the DAOs, blocks, and anything
  else that leaves the account at least what it has.
\<close>

inductive funded_step :: "('m, 'x) dao_env \<Rightarrow> ('m, 'x) chain \<Rightarrow> ('m, 'x) chain \<Rightarrow> bool" for D where
  fs_message: "escrow_msg (deGov D) msg \<Longrightarrow> handle_msg (deGov D) B msg w = Ok w' \<Longrightarrow> funded_step D (st, w) (st, w')"
| fs_dao: "handle_dao_msg D B dmsg c = Ok c' \<Longrightarrow> funded_step D c c'"
| fs_block: "EndBlocker (deGov D) B w = Ok w' \<Longrightarrow> funded_step D (st, w) (st, w')"
| fs_other: "not_less_funds (deGov D) (wExt w) x \<Longrightarrow> funded_step D (st, w) (st, w\<lparr>wExt := x\<rparr>)"

lemma funded_step_secure:
  "funded_step D c c' \<Longrightarrow> escrow_env (deGov D) \<Longrightarrow> secure (deGov D) (snd c) \<Longrightarrow> secure (deGov D) (snd c')"
  by (induction rule: funded_step.induct)
    (auto intro: handle_msg_secure dao_msg_secure EndBlocker_secure secure_ext)

lemma funded_run_secure:
  "(funded_step D)\<^sup>*\<^sup>* c c' \<Longrightarrow> escrow_env (deGov D) \<Longrightarrow> secure (deGov D) (snd c) \<Longrightarrow> secure (deGov D) (snd c')"
  by (induction rule: rtranclp_induct) (auto dest: funded_step_secure)


lemma std_escrow_env: "escrow_env std_gov_env"
  by (auto simp: escrow_env_def std_bank_ok std_addr_laws not_less_funds_def) (simp add: std_gov_env_def)

lemma std_secure: "secure std_gov_env std_world"
  by (simp add: secure_def std_funded msgs_ok_def)


text \<open>
  The depositor must not be the module account itself, which a proposal can make it be: its
  deposit is recorded in full although no coins come in, so that afterwards the account may hold
  less than the deposits.
\<close>

theorem self_deposit_is_unfunded:
  assumes "escrow_env E" and "secure E w" and "CoinsIsValid (geCoins E) cs"
    and "a = ModuleAddr (geBank E) gov_ModuleName" and "\<not> BlockedAddr (geBank E) a"
    and "AddDeposit E B i a cs skip w = Ok (b, w')"
    and "\<And>x. geHook E (AfterProposalDeposit i a) x = Some x"
  shows "escrow (wGov w') d = escrow (wGov w) d + amt cs d \<and> gov_balance E (wExt w') d = gov_balance E (wExt w) d"
proof -
  from AddDeposit_records [OF assms(1,6,2,3,5)] obtain x1 where
    x1: "SendToModule (geBank E) a gov_ModuleName cs (wExt w) = Ok x1" "geHook E (AfterProposalDeposit i a) x1 = Some (wExt w')"
    and "escrow (wGov w') d = escrow (wGov w) d + amt cs d" by blast
  moreover have "bank_ok E" using assms(1) by (simp add: escrow_env_def)
  ultimately show ?thesis using transfer_in [OF _ assms(3) x1(1), of d] assms(4,7) by simp
qed

text \<open>The account holds exactly the one deposit recorded, and deposits it again.\<close>

definition std_self_world :: "(unit, std_state) world" where
  "std_self_world = std_world\<lparr>wGov := std_voting_store\<lparr>gDeposits := [((1, [1, 2]), NewDeposit std_addr 1 [2] [\<lparr>Denom = ''stake'', Amount = 100000\<rparr>])]\<rparr>,
     wExt := std_bank_state\<lparr>xAcc := (\<lambda>a d. 100000)\<rparr>\<rparr>"

lemma std_self_secure: "secure std_gov_env std_self_world"
proof -
  have "funded std_gov_env std_self_world"
    by (simp add: std_self_world_def funded_def std_gov_defs kv_wf_def entry_valid_def NewDeposit_def escrow_def deposited_def
        gov_balance_def ModBalance_def gov_ModuleName_def amt_Cons) (simp add: std_coins_def std_valid_def std_bank_def)
  moreover have "GetProposal std_self_world i = GetProposal std_world i" for i
    by (simp add: std_self_world_def GetProposal_def std_world_def)
  ultimately show ?thesis by (simp add: secure_def msgs_ok_def)
qed

lemma std_self_deposit:
  "\<exists>w'. AddDeposit std_gov_env 50 1 (std_module_addr ''gov'') [\<lparr>Denom = ''stake'', Amount = 100000\<rparr>] False std_self_world = Ok (False, w')"
proof -
  have g: "GetProposal std_self_world 1 = Some std_voting" "gov_GetParams std_self_world = std_gov_params"
    "GetMinDeposit std_self_world = [\<lparr>Denom = ''stake'', Amount = 10000000\<rparr>]"
    by (simp_all add: std_self_world_def GetProposal_def gov_GetParams_def GetMinDeposit_def GetLastMinDeposit_def GetFloorValue_def
        std_voting_store_def std_gov_store_def kv_get_def)
  have met: "deposit_threshold_met std_dec std_coins (dec_with_prec 1 2) [\<lparr>Denom = ''stake'', Amount = 100000\<rparr>]
      [\<lparr>Denom = ''stake'', Amount = 10000000\<rparr>] = Ok True"
    by (simp add: std_coins_def dec_of_int_def dec_unit_def dec_with_prec_def round_div_def)
  have send: "std_move (std_module_addr ''gov'') (std_module_addr gov_ModuleName) [\<lparr>Denom = ''stake'', Amount = 100000\<rparr>] (wExt std_self_world)
      = Ok (wExt std_self_world)"
    by (simp add: std_move_def std_covers_def std_self_world_def gov_ModuleName_def amt_Cons)
  have coins: "prTotalDeposit std_voting = [\<lparr>Denom = ''stake'', Amount = 500\<rparr>]"
    "NewCoins std_coins [\<lparr>Denom = ''stake'', Amount = 500\<rparr>] = Some [\<lparr>Denom = ''stake'', Amount = 500\<rparr>]"
    "CoinsAdd std_coins [\<lparr>Denom = ''stake'', Amount = 500\<rparr>] [\<lparr>Denom = ''stake'', Amount = 100000\<rparr>] =
      Some [\<lparr>Denom = ''stake'', Amount = 100500\<rparr>]"
    by (simp_all add: std_voting_def std_coins_def std_valid_def norm_coins_def coins_of_kv_def add_coin_def kv_get_def)
  let ?w = "SetProposal (std_voting\<lparr>prTotalDeposit := [\<lparr>Denom = ''stake'', Amount = 100500\<rparr>]\<rparr>) std_self_world"
  have found: "GetDeposit std_gov_env ?w 1 (std_module_addr ''gov'') = Ok None"
    by (simp add: GetDeposit_def addr_key_def SetProposal_def std_self_world_def kv_get_def std_module_addr_def)
  obtain w' where set: "SetDeposit std_gov_env (NewDeposit std_addr 1 (std_module_addr ''gov'') [\<lparr>Denom = ''stake'', Amount = 100000\<rparr>]) ?w = Ok w'"
    by (simp add: SetDeposit_def NewDeposit_def must_addr_def addr_key_def std_module_addr_def)
  have w: "std_self_world\<lparr>wExt := wExt std_self_world\<rparr> = std_self_world" by simp
  show ?thesis
    by (simp add: AddDeposit_def g Let_def reaches_min_deposit_def read_show_dec met on_ext_def send coins w found run_hook_def set
        del: bindR_eq_Ok deposit_threshold_met.simps)
qed

theorem self_deposit_is_unfunded_witness:
  "\<exists>w'. AddDeposit std_gov_env 50 1 (std_module_addr ''gov'') [\<lparr>Denom = ''stake'', Amount = 100000\<rparr>] False std_self_world = Ok (False, w') \<and>
     gov_balance std_gov_env (wExt w') ''stake'' < escrow (wGov w') ''stake''"
proof -
  obtain w' where w': "AddDeposit std_gov_env 50 1 (std_module_addr ''gov'') [\<lparr>Denom = ''stake'', Amount = 100000\<rparr>] False std_self_world
      = Ok (False, w')" using std_self_deposit by blast
  have "CoinsIsValid (geCoins std_gov_env) [\<lparr>Denom = ''stake'', Amount = 100000\<rparr>]" "\<not> BlockedAddr (geBank std_gov_env) (std_module_addr ''gov'')"
    "std_module_addr ''gov'' = ModuleAddr (geBank std_gov_env) gov_ModuleName"
    by (simp_all add: std_coins_def std_valid_def gov_ModuleName_def) (simp add: std_bank_def)
  note self_deposit_is_unfunded [OF std_escrow_env std_self_secure this(1,3,2) w', of "''stake''"]
  moreover have "escrow (wGov std_self_world) ''stake'' = 100000" "gov_balance std_gov_env (wExt std_self_world) ''stake'' = 100000"
    by (simp_all add: std_self_world_def escrow_def deposited_def NewDeposit_def amt_Cons gov_balance_def ModBalance_def)
  ultimately show ?thesis using w' by (intro exI [of _ w']) (simp add: amt_Cons)
qed

end
