(* ===== verification/Gov_Import.thy ===== *)
theory Gov_Import
  imports Gov_Solvency
begin

text \<open>
  Import of a genesis with open proposals: the queues are filled, the counters of open proposals
  are not, and the end of the first deposit period cannot be processed.
\<close>

section \<open>A queue without its counter\<close>

definition inactive_keys :: "('m, 'x) world \<Rightarrow> queue_key set" where
  "inactive_keys w = set (map fst (gInactiveQueue (wGov w)))"

lemma inactive_writes [simp]:
  "GetInactiveProposalsNumber (SetProposal p w) = GetInactiveProposalsNumber w" "inactive_keys (SetProposal p w) = inactive_keys w"
  "GetInactiveProposalsNumber (InsertActiveProposalQueue i t w) = GetInactiveProposalsNumber w"
  "inactive_keys (InsertActiveProposalQueue i t w) = inactive_keys w"
  "GetInactiveProposalsNumber (InsertInactiveProposalQueue i t w) = GetInactiveProposalsNumber w"
  "inactive_keys (InsertInactiveProposalQueue i t w) = insert (t, i) (inactive_keys w)"
  "GetInactiveProposalsNumber (InsertQuorumCheckQueue i t q w) = GetInactiveProposalsNumber w"
  "inactive_keys (InsertQuorumCheckQueue i t q w) = inactive_keys w"
  "GetInactiveProposalsNumber (RemoveFromInactiveProposalQueue i t w) = GetInactiveProposalsNumber w"
  "GetInactiveProposalsNumber (RemoveFromActiveProposalQueue i t w) = GetInactiveProposalsNumber w"
  "GetInactiveProposalsNumber (RemoveFromQuorumCheckQueue i t w) = GetInactiveProposalsNumber w"
  "GetInactiveProposalsNumber (on_gov (gVotingPeriod_update f) w) = GetInactiveProposalsNumber w"
  "GetInactiveProposalsNumber (on_gov (gProposals_update h) w) = GetInactiveProposalsNumber w"
  by (simp_all add: GetInactiveProposalsNumber_def inactive_keys_def SetProposal_def InsertActiveProposalQueue_def
      InsertInactiveProposalQueue_def InsertQuorumCheckQueue_def RemoveFromInactiveProposalQueue_def
      RemoveFromActiveProposalQueue_def RemoveFromQuorumCheckQueue_def kv_set_keys del: set_map)

lemma inactive_frame:
  "frame w w' \<Longrightarrow> GetInactiveProposalsNumber w' = GetInactiveProposalsNumber w"
  "frame w w' \<Longrightarrow> inactive_keys w' = inactive_keys w"
  by (simp_all add: frame_def core_def GetInactiveProposalsNumber_def inactive_keys_def)

lemma uncounted_decrement: "GetInactiveProposalsNumber w = 0 \<Longrightarrow> DecrementInactiveProposalsNumber w = Panic"
  by (simp add: DecrementInactiveProposalsNumber_def)

lemma drop_checks_inactive:
  "iterate_queue es (\<lambda>p t _ w. if prId p = i then Ok (True, RemoveFromQuorumCheckQueue (prId p) t w) else Ok (False, w)) w = Ok w' \<Longrightarrow>
     GetInactiveProposalsNumber w' = GetInactiveProposalsNumber w"
proof (induction es arbitrary: w)
  case Nil
  then show ?case by simp
next
  case (Cons e es)
  obtain t j v where "e = ((t, j), v)" by (metis surj_pair)
  with Cons show ?case by (auto split: if_split_asm)
qed

lemma DeleteProposal_inactive:
  assumes "DeleteProposal E i w = Ok w'"
  shows "GetInactiveProposalsNumber w' = GetInactiveProposalsNumber w"
  using assms
  by (auto simp: DeleteProposal_def Let_def IterateQuorumCheckQueue_def split: option.splits dest!: drop_checks_inactive)

lemma uncounted_deposit_period:
  assumes "GetInactiveProposalsNumber w = 0"
  shows "end_deposit_period E B p w \<noteq> Ok r"
proof
  assume "end_deposit_period E B p w = Ok r"
  then consider w1 where "ActivateVotingPeriod E B p w = Ok w1"
    | w1 w2 w3 where "DeleteProposal E (prId p) w = Ok w1" "frame w1 w2" "DecrementInactiveProposalsNumber w2 = Ok w3"
    unfolding end_deposit_period_def bindR_eq_Ok
    by (auto split: if_split_asm dest: RefundAndDeleteDeposits_frame DeleteAndBurnDeposits_frame)
  then show False
  proof cases
    case 1
    with assms show False by (auto simp: ActivateVotingPeriod_def Let_def uncounted_decrement)
  next
    case 2
    with assms have "GetInactiveProposalsNumber w2 = 0" by (simp add: inactive_frame DeleteProposal_inactive)
    with 2(3) show False by (simp add: uncounted_decrement)
  qed
qed

lemma uncounted_block:
  assumes "GetInactiveProposalsNumber w = 0" and k: "(t, i) \<in> inactive_keys w" "t \<le> B"
  shows "EndBlocker E B w \<noteq> Ok w'"
proof
  assume "EndBlocker E B w = Ok w'"
  then obtain w1 where loop: "iterate_queue (due B (gInactiveQueue (wGov w))) (\<lambda>p _ _. end_deposit_period E B p) w = Ok w1"
    unfolding EndBlocker_def IterateInactiveProposalsQueue_def bindR_eq_Ok by blast
  have "due B (gInactiveQueue (wGov w)) \<noteq> []"
    using k by (force simp: due_def inactive_keys_def filter_empty_conv)
  then obtain s j v es where "due B (gInactiveQueue (wGov w)) = ((s, j), v) # es"
    by (cases "due B (gInactiveQueue (wGov w))") auto
  with loop assms(1) show False by (auto simp: uncounted_deposit_period)
qed

section \<open>The import\<close>

lemma import_proposal_inactive:
  assumes "import_proposal E B params p w = Ok w'"
  shows "GetInactiveProposalsNumber w' = GetInactiveProposalsNumber w \<and> inactive_keys w \<subseteq> inactive_keys w' \<and>
    (prStatus p = StatusDepositPeriod \<longrightarrow> (\<exists>t. prDepositEndTime p = Some t \<and> (t, prId p) \<in> inactive_keys w'))"
  using assms unfolding import_proposal_def Let_def bindR_eq_Ok must_eq_Ok
  by (auto split: if_split_asm proposal_status.splits)

lemma import_inactive:
  "foldR (import_proposal E B params) ps w = Ok w' \<Longrightarrow>
     GetInactiveProposalsNumber w' = GetInactiveProposalsNumber w \<and> inactive_keys w \<subseteq> inactive_keys w' \<and>
     (\<forall>p \<in> set ps. prStatus p = StatusDepositPeriod \<longrightarrow>
       (\<exists>t. prDepositEndTime p = Some t \<and> (t, prId p) \<in> inactive_keys w'))"
proof (induction ps arbitrary: w)
  case Nil
  then show ?case by simp
next
  case (Cons p ps)
  then obtain w1 where one: "import_proposal E B params p w = Ok w1" and rest: "foldR (import_proposal E B params) ps w1 = Ok w'"
    by auto
  from import_proposal_inactive [OF one] Cons.IH [OF rest] show ?case by auto
qed

text \<open>
  C24: a genesis with a proposal in its deposit period can be imported into an empty store, but the
  counter of such proposals is then zero: whatever the other modules do, the end blocker of no
  block after the end of that period succeeds, as the counter cannot be decremented.
\<close>

theorem imported_deposit_period_never_ends:
  assumes "gov_InitGenesis E A B0 data w0 = Ok w" and "fresh_store (wGov w0)"
    and "p \<in> set (ggProposals data)" and "prStatus p = StatusDepositPeriod"
  shows "\<exists>t. prDepositEndTime p = Some t \<and> (\<forall>B x w'. t \<le> B \<longrightarrow> EndBlocker E B (w\<lparr>wExt := x\<rparr>) \<noteq> Ok w')"
proof -
  from InitGenesis_stages [OF assms(1)] obtain pa w1 w2 where
    c: "core (wGov w1) = core (wGov (gov_SetParams pa (SetProposalID (ggStartingProposalId data) w0)))"
    and ids: "foldR (import_proposal E B0 pa) (ggProposals data) w1 = Ok w2" and f: "frame w2 w" by metis
  have "GetInactiveProposalsNumber w1 = 0"
    using c assms(2) by (simp add: core_def GetInactiveProposalsNumber_def fresh_store_def gov_SetParams_def SetProposalID_def)
  with import_inactive [OF ids] assms(3,4) obtain t where
    t: "prDepositEndTime p = Some t" "(t, prId p) \<in> inactive_keys w2" "GetInactiveProposalsNumber w2 = 0" by auto
  have "EndBlocker E B (w\<lparr>wExt := x\<rparr>) \<noteq> Ok w'" if "t \<le> B" for B x w'
  proof -
    have "frame w2 (w\<lparr>wExt := x\<rparr>)" by (rule frame_trans [OF f]) simp
    note same = inactive_frame [OF this]
    show ?thesis by (rule uncounted_block [OF _ _ that, of _ "prId p"]) (simp_all add: same t)
  qed
  with t(1) show ?thesis by blast
qed

definition std_pending :: "unit proposal" where
  "std_pending = std_voting\<lparr>prStatus := StatusDepositPeriod, prTotalDeposit := [], prDepositEndTime := Some 40,
     prVotingStartTime := None, prVotingEndTime := None\<rparr>"

theorem imported_deposit_period_never_ends_witness:
  "gov_ValidateGenesis std_dec std_coins (std_genesis\<lparr>ggProposals := [std_pending]\<rparr>) = Ok () \<and>
   (\<exists>w. gov_InitGenesis std_gov_env std_module_account 5 (std_genesis\<lparr>ggProposals := [std_pending]\<rparr>)
      \<lparr>wGov = std_gov_store, wExt = std_bank_state\<rparr> = Ok w \<and> (\<forall>w'. EndBlocker std_gov_env 40 w \<noteq> Ok w'))"
proof -
  have "gov_ValidateGenesis std_dec std_coins (std_genesis\<lparr>ggProposals := [std_pending]\<rparr>) = Ok ()"
    using std_params_valid by (simp add: gov_ValidateGenesis_def std_genesis_def no_duplicates_def Let_def)
  moreover obtain w where
    w: "gov_InitGenesis std_gov_env std_module_account 5 (std_genesis\<lparr>ggProposals := [std_pending]\<rparr>)
      \<lparr>wGov = std_gov_store, wExt = std_bank_state\<rparr> = Ok w"
    by (simp add: gov_InitGenesis_def std_genesis_def std_module_account_def read_show_dec import_last_min_deposit_def
        std_coins_def import_proposal_def std_pending_def Let_def)
  moreover have "fresh_store std_gov_store" "prDepositEndTime std_pending = Some 40"
    by (simp_all add: fresh_store_def std_gov_store_def std_pending_def)
  moreover have "EndBlocker std_gov_env 40 w \<noteq> Ok w'" for w'
  proof -
    from imported_deposit_period_never_ends [OF w, of std_pending] obtain t where
      "prDepositEndTime std_pending = Some t" "\<forall>B x w'. t \<le> B \<longrightarrow> EndBlocker std_gov_env B (w\<lparr>wExt := x\<rparr>) \<noteq> Ok w'"
      using calculation(3) by (auto simp: std_pending_def std_genesis_def)
    then have "EndBlocker std_gov_env 40 (w\<lparr>wExt := wExt w\<rparr>) \<noteq> Ok w'" using calculation(4) by (metis option.inject order_refl)
    then show ?thesis by simp
  qed
  ultimately show ?thesis by blast
qed

end
