(* ===== verification/Gov_Quorum.thy ===== *)
theory Gov_Quorum
  imports Gov_Example
begin

text \<open>
  The quorum: the quick check of the end blocker against the tally at the end of the vote, and the
  range the quorum stays in while the participation averages move.
\<close>

section \<open>The quick check and the tally\<close>

lemma delegations_quick:
  "foldR (tally_delegation L vals True opts) ds (tvp, r) = Ok (tvp', r') \<Longrightarrow>
     foldR (tally_delegation L vals False opts) ds (tvp, r2) = Ok (tvp', r2)"
proof (induction ds arbitrary: tvp r)
  case Nil
  then show ?case by simp
next
  case (Cons d ds)
  then obtain t1 r1 where one: "tally_delegation L vals True opts d (tvp, r) = Ok (t1, r1)"
    and rest: "foldR (tally_delegation L vals True opts) ds (t1, r1) = Ok (tvp', r')" by auto
  have "tally_delegation L vals False opts d (tvp, r2) = Ok (t1, r2)"
    using one by (auto simp: tally_delegation_def split: prod.splits option.splits)
  with Cons.IH [OF rest] show ?case by simp
qed

lemmas ema_get_defs = GetParticipationEMA_def GetConstitutionAmendmentParticipationEMA_def GetLawParticipationEMA_def

definition but_votes :: "('m, 'x) world \<Rightarrow> ('m, 'x) world \<Rightarrow> bool" where
  "but_votes w w' \<longleftrightarrow> (\<exists>v. w' = on_gov (gVotes_update (\<lambda>_. v)) w)"

lemma but_votes_refl [simp]: "but_votes w w"
  unfolding but_votes_def by (rule exI [of _ "gVotes (wGov w)"]) (simp add: on_gov_def)

lemma but_votes_trans: "but_votes a b \<Longrightarrow> but_votes b c \<Longrightarrow> but_votes a c"
  by (auto simp: but_votes_def on_gov_def)

lemma but_votes_delete: "deleteVote E i a w = Ok w' \<Longrightarrow> but_votes w w'"
  unfolding but_votes_def
  by (rule exI [of _ "gVotes (wGov w')"]) (auto simp: deleteVote_def on_gov_def)

lemma but_votes_reads:
  assumes "but_votes w w'"
  shows "wExt w' = wExt w" "gov_GetParams w' = gov_GetParams w"
    "getQuorumAndThreshold E w' p = getQuorumAndThreshold E w p"
proof -
  from assms obtain v where w': "w' = on_gov (gVotes_update (\<lambda>_. v)) w" by (auto simp: but_votes_def)
  show "wExt w' = wExt w" and params: "gov_GetParams w' = gov_GetParams w" by (simp_all add: w' gov_GetParams_def)
  have "ema_get E gEma w' = ema_get E gEma w" "ema_get E gLawEma w' = ema_get E gLawEma w"
    "ema_get E gConstitutionAmendmentEma w' = ema_get E gConstitutionAmendmentEma w"
    by (simp_all add: w' ema_get_def)
  then have "GetQuorum E w' = GetQuorum E w" "GetLawQuorum E w' = GetLawQuorum E w"
    "GetConstitutionAmendmentQuorum E w' = GetConstitutionAmendmentQuorum E w"
    by (simp_all only: GetQuorum_def GetLawQuorum_def GetConstitutionAmendmentQuorum_def ema_get_defs params)
  then show "getQuorumAndThreshold E w' p = getQuorumAndThreshold E w p"
    by (simp only: getQuorumAndThreshold_def params)
qed

text \<open>The quick count reaches the same voting power and the same error, and leaves the votes.\<close>

lemma votes_quick:
  "tally_votes E vals True votes (tvp, r) w = Ok (tvp', r', err, w') \<Longrightarrow> wExt w2 = wExt w \<Longrightarrow>
     tally_votes E vals False votes (tvp, r2) w2 = Ok (tvp', r2, err, w2) \<and> but_votes w w'"
proof (induction votes arbitrary: tvp r w)
  case Nil
  then show ?case by simp
next
  case (Cons vote votes)
  from Cons.prems(1) obtain voter where voter: "must_addr E (vVoter vote) = Ok voter" by auto
  obtain ds er where ds: "geDelegations E (wExt w) voter = (ds, er)" by force
  from Cons.prems(1) obtain t1 r1 where
    one: "foldR (tally_delegation (geDec E) vals True (vOptions vote)) ds (tvp, r) = Ok (t1, r1)"
    by (auto simp: voter ds)
  note quick = delegations_quick [OF one, of r2]
  show ?case
  proof (cases er)
    case None
    with Cons.prems(1) obtain w1 where del: "deleteVote E (vProposalId vote) voter w = Ok w1"
      and rest: "tally_votes E vals True votes (t1, r1) w1 = Ok (tvp', r', err, w')"
      by (auto simp: voter ds one)
    note b = but_votes_delete [OF del]
    have "wExt w2 = wExt w1" using b Cons.prems(2) by (simp add: but_votes_reads)
    from Cons.IH [OF rest this] b None show ?thesis
      by (auto simp: voter ds quick Cons.prems(2) intro: but_votes_trans)
  next
    case (Some e)
    with Cons.prems(1) have "t1 = tvp'" "err = Some e" "w' = w" by (auto simp: voter ds one)
    with Some show ?thesis by (simp add: voter ds quick Cons.prems(2))
  qed
qed

lemma Tally_cases:
  assumes "Tally E p w = Ok (t, w')" and "tlError t = None" and "geTotalBonded E (wExt w) = Ok tb"
  obtains "tb = 0" "t = tally_failed (tlResults t) None"
  | vals tvp r where "tb \<noteq> 0" "geBondedValidators E (wExt w) = Ok vals" "tallyVotes E p vals True w = Ok (tvp, r, None, w')"
      "but_votes w w'" "tallyVotes E p vals False w = Ok (tvp, no_counts, None, w)" "tally_outcome E p tvp r tb w' = Ok t"
proof -
  from assms(1,2) obtain vals where vals: "geBondedValidators E (wExt w) = Ok vals"
    by (auto simp: Tally_def tally_failed_def split: res.splits)
  with assms(1) obtain tvp r err w1 where tv: "tallyVotes E p vals True w = Ok (tvp, r, err, w1)"
    by (auto simp: Tally_def)
  have "err = None" using assms(1,2) by (auto simp: Tally_def vals tv tally_failed_def split: option.splits)
  note tv = tv [unfolded this]
  from votes_quick [OF tv [unfolded tallyVotes_def], of w no_counts]
  have quick: "tallyVotes E p vals False w = Ok (tvp, no_counts, None, w)" "but_votes w w1" by (simp_all add: tallyVotes_def)
  have tot: "geTotalBonded E (wExt w1) = Ok tb" using but_votes_reads(1) [OF quick(2)] assms(3) by simp
  show ?thesis
  proof (cases "tb = 0")
    case True
    with assms(1) that(1) show ?thesis by (auto simp: Tally_def vals tv tot tally_failed_def)
  next
    case False
    with assms(1) that(2) [OF False vals _ _ quick(1)] tv quick(2) show ?thesis by (auto simp: Tally_def vals tot)
  qed
qed

lemma tally_outcome_quorum:
  assumes "tally_outcome E p tvp r tb w = Ok t"
  obtains q th where "getQuorumAndThreshold E w p = Ok (q, th)" "dQuo (geDec E) tvp (dec_of_int tb) = Some (tlParticipation t)"
    "tlPasses t \<Longrightarrow> q \<le> tlParticipation t" "tlParticipation t < q \<Longrightarrow> tlBurn t = gpBurnVoteQuorum (gov_GetParams w)"
  using assms unfolding tally_outcome_def Let_def by (auto simp: tally_done_def split: if_split_asm)

text \<open>
  C13: the quick check of the end blocker answers exactly what the tally would decide in the same
  state: with bonded tokens, the quorum counts as reached if and only if the participation the
  tally finds is at least the quorum; a proposal that the tally lets pass has reached it; and one
  that has not is rejected and its deposits are burned according to the parameter for that case.
\<close>

theorem quick_check_agrees_with_tally:
  assumes "Tally E p w = Ok (t, w')" and "tlError t = None" and "geTotalBonded E (wExt w) = Ok tb"
  shows "(if tb = 0 then HasReachedQuorum E p w = Ok False \<and> \<not> tlPasses t
      else \<exists>q th. getQuorumAndThreshold E w p = Ok (q, th) \<and> HasReachedQuorum E p w = Ok (q \<le> tlParticipation t)) \<and>
    (tlPasses t \<longrightarrow> HasReachedQuorum E p w = Ok True) \<and>
    (HasReachedQuorum E p w = Ok False \<and> tb \<noteq> 0 \<longrightarrow>
       \<not> tlPasses t \<and> tlBurn t = gpBurnVoteQuorum (gov_GetParams w))"
  using assms
proof (cases rule: Tally_cases)
  case 1
  have "\<not> tlPasses t" by (subst 1(2)) (simp add: tally_failed_def)
  with 1 assms(3) show ?thesis by (simp add: HasReachedQuorum_def)
next
  case (2 vals tvp r)
  from tally_outcome_quorum [OF 2(6)] obtain q th where
    q: "getQuorumAndThreshold E w' p = Ok (q, th)" "dQuo (geDec E) tvp (dec_of_int tb) = Some (tlParticipation t)"
      "tlPasses t \<Longrightarrow> q \<le> tlParticipation t" "tlParticipation t < q \<Longrightarrow> tlBurn t = gpBurnVoteQuorum (gov_GetParams w')"
    by blast
  have "HasReachedQuorum E p w = Ok (q \<le> tlParticipation t)"
    using 2 q(1,2) assms(3) by (simp add: HasReachedQuorum_def but_votes_reads(3) [OF 2(4)])
  moreover have "getQuorumAndThreshold E w p = Ok (q, th)" "gov_GetParams w = gov_GetParams w'"
    using q(1) by (simp_all add: but_votes_reads [OF 2(4)])
  ultimately show ?thesis using 2(1) q(3,4) by auto
qed

theorem quick_check_agrees_with_tally_witness:
  "HasReachedQuorum std_gov_env std_voting std_world = Ok True"
  using quick_check_agrees_with_tally [OF std_tally, of 1000] by (simp add: tally_done_def)

section \<open>The range of the quorum\<close>

lemma dMul_le_right:
  assumes L: "dec_laws L" "dMul L a b = Some c" and ab: "a \<le> dec_one" "0 \<le> b"
  shows "c \<le> b"
proof (cases "a * b = b * dec_unit")
  case True
  with L show ?thesis using dMul_exact by blast
next
  case False
  have "a * b \<le> dec_unit * b" using ab by (intro mult_right_mono) (auto simp: dec_of_int_def)
  with False have "a * b < b * dec_unit" unfolding mult.commute [of b dec_unit] by linarith
  with nearest_le [OF dMul_near [OF L], of b "b * dec_unit"] show ?thesis by simp
qed

definition unit_dec :: "dec \<Rightarrow> bool" where
  "unit_dec d \<longleftrightarrow> 0 \<le> d \<and> d \<le> dec_one"

lemma unit_decD: "unit_dec d \<Longrightarrow> 0 \<le> d \<and> d \<le> dec_one"
  by (simp add: unit_dec_def)

lemma unit_mul:
  assumes L: "dec_laws L" and "unit_dec a" "unit_dec b"
  shows "\<exists>c. dMul L a b = Some c \<and> 0 \<le> c \<and> c \<le> a \<and> c \<le> b"
proof -
  have "\<bar>a * b\<bar> < dec_bound"
    using assms(2,3) by (intro abs_mult_less [of _ dec_one _ dec_one]) (auto simp: unit_dec_def dec_of_int_def dec_unit_def dec_bound_def)
  then obtain c where c: "dMul L a b = Some c" using dMul_total [OF L] by blast
  with assms dMul_nonneg [OF L c] dMul_le_left [OF L c] dMul_le_right [OF L c] show ?thesis by (auto simp: unit_dec_def)
qed

lemma unit_bounds: "unit_dec a \<Longrightarrow> unit_dec b \<Longrightarrow> \<bar>a + b\<bar> < dec_bound" "unit_dec a \<Longrightarrow> unit_dec b \<Longrightarrow> \<bar>a - b\<bar> < dec_bound"
  by (auto simp: unit_dec_def dec_of_int_def dec_unit_def dec_bound_def)

lemma computeQuorum_range:
  assumes L: "dec_laws L" and e: "unit_dec e" and r: "unit_dec mn" "unit_dec mx" "mn \<le> mx"
  shows "\<exists>q. computeQuorum L e mn mx = Ok q \<and> mn \<le> q \<and> q \<le> mx"
proof -
  have d: "dSub L mx mn = Some (mx - mn)" "unit_dec (mx - mn)"
    using dSub_total [OF L unit_bounds(2) [OF r(2,1)]] r by (auto simp: unit_dec_def)
  obtain c where c: "dMul L (mx - mn) e = Some c" "0 \<le> c" "c \<le> mx - mn" "unit_dec c"
    using unit_mul [OF L d(2) e] e by (auto simp: unit_dec_def)
  have "dAdd L mn c = Some (mn + c)" using dAdd_total [OF L] unit_bounds(1) [OF r(1) c(4)] by blast
  with c d show ?thesis by (simp add: computeQuorum_def)
qed

lemma ema_next_range:
  assumes L: "dec_laws L" and "unit_dec old" "unit_dec part"
  shows "\<exists>d. ema_next L old part = Ok d \<and> unit_dec d"
proof -
  have u: "unit_dec (dec_with_prec 8 1)" "unit_dec (dec_with_prec 2 1)" "dec_with_prec 8 1 + dec_with_prec 2 1 = dec_one"
    by (simp_all add: unit_dec_def dec_with_prec_def dec_of_int_def dec_unit_def)
  obtain a b where ab: "dMul L old (dec_with_prec 8 1) = Some a" "0 \<le> a" "a \<le> dec_with_prec 8 1"
      "dMul L part (dec_with_prec 2 1) = Some b" "0 \<le> b" "b \<le> dec_with_prec 2 1"
    using unit_mul [OF L assms(2) u(1)] unit_mul [OF L assms(3) u(2)] by blast
  then have ub: "unit_dec (a + b)" using u(3) by (simp add: unit_dec_def)
  then have "\<bar>a + b\<bar> < dec_bound" by (simp add: unit_dec_def dec_of_int_def dec_unit_def dec_bound_def)
  with dAdd_total [OF L] ab ub show ?thesis by (simp add: ema_next_def)
qed

text \<open>A stored average is a decimal between zero and one.\<close>

definition ema_ok :: "('m, 'x) gov_env \<Rightarrow> string \<Rightarrow> bool" where
  "ema_ok E s \<longleftrightarrow> (\<exists>e. dOfStr (geDec E) s = Some e \<and> unit_dec e)"

definition emas_ok :: "('m, 'x) gov_env \<Rightarrow> ('m, 'x) world \<Rightarrow> bool" where
  "emas_ok E w \<longleftrightarrow> ema_ok E (gEma (wGov w)) \<and> ema_ok E (gConstitutionAmendmentEma (wGov w)) \<and> ema_ok E (gLawEma (wGov w))"

definition in_quorum_range :: "dec_lib \<Rightarrow> dec res \<Rightarrow> quorum_range option \<Rightarrow> bool" where
  "in_quorum_range L quorum rng \<longleftrightarrow> (\<exists>q r mn mx. quorum = Ok q \<and> rng = Some r \<and> dOfStr L (qrMin r) = Some mn \<and>
     dOfStr L (qrMax r) = Some mx \<and> mn \<le> q \<and> q \<le> mx)"

lemma quorum_from_within:
  assumes L: "dec_laws L" and r: "range_ok L rng" and e: "ema = Ok e" "unit_dec e"
  shows "in_quorum_range L (quorum_from L ema rng) rng"
proof -
  from r obtain r mn mx where r: "rng = Some r" "dOfStr L (qrMin r) = Some mn" "dOfStr L (qrMax r) = Some mx"
      "0 \<le> mn" "mn \<le> mx" "mx \<le> dec_one" unfolding range_ok_def by blast
  then obtain q where "computeQuorum L e mn mx = Ok q" "mn \<le> q" "q \<le> mx"
    using computeQuorum_range [OF L e(2), of mn mx] by (auto simp: unit_dec_def)
  with r e show ?thesis by (simp add: in_quorum_range_def quorum_from_def)
qed

lemma ema_get_ok: "ema_ok E (key (wGov w)) \<Longrightarrow> \<exists>e. ema_get E key w = Ok e \<and> unit_dec e"
  by (auto simp: ema_ok_def ema_get_def)

lemma quorums_in_range:
  assumes L: "dec_laws (geDec E)" and p: "gov_params_ok (geDec E) C (gov_GetParams w)" and e: "emas_ok E w"
  shows "in_quorum_range (geDec E) (GetQuorum E w) (gpQuorumRange (gov_GetParams w)) \<and>
    in_quorum_range (geDec E) (GetConstitutionAmendmentQuorum E w) (gpConstitutionAmendmentQuorumRange (gov_GetParams w)) \<and>
    in_quorum_range (geDec E) (GetLawQuorum E w) (gpLawQuorumRange (gov_GetParams w))"
  using e p ema_get_ok [of E gEma w] ema_get_ok [of E gConstitutionAmendmentEma w] ema_get_ok [of E gLawEma w]
  by (auto simp: emas_ok_def GetQuorum_def GetConstitutionAmendmentQuorum_def GetLawQuorum_def GetParticipationEMA_def
      GetConstitutionAmendmentParticipationEMA_def GetLawParticipationEMA_def gov_params_ok_def intro!: quorum_from_within [OF L])

lemma ema_step:
  assumes L: "dec_laws (geDec E)" and ok: "ema_ok E (key (wGov w))" and part: "unit_dec part"
  shows "\<exists>w'. (if b then bindR (ema_get E key w) (\<lambda>old. bindR (ema_next (geDec E) old part) (\<lambda>d. Ok (put d w))) else Ok w) = Ok w' \<and>
    (w' = w \<or> b \<and> (\<exists>d. w' = put d w \<and> ema_ok E (dStr (geDec E) d)))"
proof (cases b)
  case True
  obtain e where e: "ema_get E key w = Ok e" "unit_dec e" using ema_get_ok [of E key w] ok by blast
  obtain d where d: "ema_next (geDec E) e part = Ok d" "unit_dec d" using ema_next_range [OF L e(2) part] by blast
  have "ema_ok E (dStr (geDec E) d)" using d L by (auto simp: ema_ok_def)
  with e d True show ?thesis by auto
next
  case False
  then show ?thesis by auto
qed

lemmas ema_set_defs = SetParticipationEMA_def SetConstitutionAmendmentParticipationEMA_def SetLawParticipationEMA_def

lemma gov_GetParams_frame: "frame w w' \<Longrightarrow> gov_GetParams w' = gov_GetParams w"
  by (simp add: frame_def core_def gov_GetParams_def)

lemma UpdateParticipationEMA_result:
  assumes L: "dec_laws (geDec E)" and e: "emas_ok E w" and part: "unit_dec part"
  shows "\<exists>w'. UpdateParticipationEMA E p part w = Ok w' \<and> emas_ok E w' \<and>
    (\<not> HasKindAny (ProposalKinds p) \<longrightarrow> gEma (wGov w') = gEma (wGov w)) \<and>
    (\<not> HasKindConstitutionAmendment (ProposalKinds p) \<longrightarrow>
       gConstitutionAmendmentEma (wGov w') = gConstitutionAmendmentEma (wGov w)) \<and>
    (\<not> HasKindLaw (ProposalKinds p) \<longrightarrow> gLawEma (wGov w') = gLawEma (wGov w))"
proof -
  let ?k = "ProposalKinds p"
  note e = e [unfolded emas_ok_def]
  obtain w1 where w1: "(if HasKindConstitutionAmendment ?k
        then bindR (ema_get E gConstitutionAmendmentEma w) (\<lambda>old. bindR (ema_next (geDec E) old part) (\<lambda>d.
             Ok (SetConstitutionAmendmentParticipationEMA E d w))) else Ok w) = Ok w1"
    "w1 = w \<or> HasKindConstitutionAmendment ?k \<and> (\<exists>d. w1 = SetConstitutionAmendmentParticipationEMA E d w \<and> ema_ok E (dStr (geDec E) d))"
    using ema_step [OF L, of gConstitutionAmendmentEma w part] e part by blast
  then have e1: "ema_ok E (gEma (wGov w1))" "ema_ok E (gConstitutionAmendmentEma (wGov w1))" "ema_ok E (gLawEma (wGov w1))"
    using e by (auto simp: ema_set_defs)
  obtain w2 where w2: "(if HasKindLaw ?k
        then bindR (ema_get E gLawEma w1) (\<lambda>old. bindR (ema_next (geDec E) old part) (\<lambda>d.
             Ok (SetLawParticipationEMA E d w1))) else Ok w1) = Ok w2"
    "w2 = w1 \<or> HasKindLaw ?k \<and> (\<exists>d. w2 = SetLawParticipationEMA E d w1 \<and> ema_ok E (dStr (geDec E) d))"
    using ema_step [OF L, of gLawEma w1 part] e1 part by blast
  then have e2: "ema_ok E (gEma (wGov w2))" "ema_ok E (gConstitutionAmendmentEma (wGov w2))" "ema_ok E (gLawEma (wGov w2))"
    using e1 by (auto simp: ema_set_defs)
  obtain w3 where w3: "(if HasKindAny ?k
        then bindR (ema_get E gEma w2) (\<lambda>old. bindR (ema_next (geDec E) old part) (\<lambda>d.
             Ok (SetParticipationEMA E d w2))) else Ok w2) = Ok w3"
    "w3 = w2 \<or> HasKindAny ?k \<and> (\<exists>d. w3 = SetParticipationEMA E d w2 \<and> ema_ok E (dStr (geDec E) d))"
    using ema_step [OF L, of gEma w2 part] e2 part by blast
  then have e3: "emas_ok E w3" using e2 by (auto simp: ema_set_defs emas_ok_def)
  have "UpdateParticipationEMA E p part w = Ok w3"
    by (simp only: UpdateParticipationEMA_def Let_def ema_get_defs w1(1) w2(1) w3(1) bindR.simps)
  with e3 w1(2) w2(2) w3(2) show ?thesis by (intro exI [of _ w3]) (auto simp: ema_set_defs)
qed

text \<open>
  C14: the quorums stay in their ranges: with valid parameters and averages between zero and one,
  counting the participation of another proposal succeeds, moves only the averages of the kinds
  of the proposal, leaves them between zero and one, and each of the three quorums can then be
  computed and lies between the minimum and the maximum of its range.
\<close>

theorem quorum_stays_in_range:
  assumes "dec_laws (geDec E)" and "gov_params_ok (geDec E) C (gov_GetParams w)" and "emas_ok E w"
    and "0 \<le> participation" and "participation \<le> dec_one"
  shows "\<exists>w'. UpdateParticipationEMA E p participation w = Ok w' \<and> emas_ok E w' \<and>
    (\<not> HasKindAny (ProposalKinds p) \<longrightarrow> gEma (wGov w') = gEma (wGov w)) \<and>
    (\<not> HasKindConstitutionAmendment (ProposalKinds p) \<longrightarrow>
       gConstitutionAmendmentEma (wGov w') = gConstitutionAmendmentEma (wGov w)) \<and>
    (\<not> HasKindLaw (ProposalKinds p) \<longrightarrow> gLawEma (wGov w') = gLawEma (wGov w)) \<and>
    in_quorum_range (geDec E) (GetQuorum E w') (gpQuorumRange (gov_GetParams w)) \<and>
    in_quorum_range (geDec E) (GetConstitutionAmendmentQuorum E w') (gpConstitutionAmendmentQuorumRange (gov_GetParams w)) \<and>
    in_quorum_range (geDec E) (GetLawQuorum E w') (gpLawQuorumRange (gov_GetParams w))"
proof -
  have "unit_dec participation" using assms by (simp add: unit_dec_def)
  from UpdateParticipationEMA_result [OF assms(1,3) this, of p] obtain w' where
    w': "UpdateParticipationEMA E p participation w = Ok w'" "emas_ok E w'"
      "\<not> HasKindAny (ProposalKinds p) \<longrightarrow> gEma (wGov w') = gEma (wGov w)"
      "\<not> HasKindConstitutionAmendment (ProposalKinds p) \<longrightarrow>
         gConstitutionAmendmentEma (wGov w') = gConstitutionAmendmentEma (wGov w)"
      "\<not> HasKindLaw (ProposalKinds p) \<longrightarrow> gLawEma (wGov w') = gLawEma (wGov w)" by blast
  have "gov_GetParams w' = gov_GetParams w"
    by (rule gov_GetParams_frame [OF UpdateParticipationEMA_frame [OF w'(1)]])
  with quorums_in_range [OF assms(1) _ w'(2), of C] assms(2) w' show ?thesis by auto
qed

theorem quorum_stays_in_range_witness:
  "\<exists>w'. UpdateParticipationEMA std_gov_env std_voting dec_one std_world = Ok w' \<and> gLawEma (wGov w') = gLawEma (wGov std_world)"
proof -
  have "emas_ok std_gov_env std_world" "\<not> HasKindLaw 1"
    by (simp_all add: emas_ok_def ema_ok_def std_gov_defs read_show_dec unit_dec_def kind_bits)
  moreover have "gov_params_ok std_dec std_coins (gov_GetParams std_world)"
    using std_params_ok by (simp add: params_ok_def)
  ultimately show ?thesis
    using quorum_stays_in_range [of std_gov_env std_coins std_world dec_one std_voting] std_dec_laws by auto
qed

end
