(* ===== verification/Gov_Progress.thy ===== *)
theory Gov_Progress
  imports Gov_Solvency Gov_Quorum
begin

text \<open>
  The end of a vote cannot fail: once the votes are counted, the deposits are settled, the messages
  are executed or dropped, and the proposal is decided, whatever the messages do.
\<close>

section \<open>The participation averages\<close>

definition emas :: "('m, 'x) world \<Rightarrow> string \<times> string \<times> string" where
  "emas w = (gEma (wGov w), gConstitutionAmendmentEma (wGov w), gLawEma (wGov w))"

lemma emas_ok_cong: "emas w = emas w' \<Longrightarrow> emas_ok E w = emas_ok E w'"
  by (simp add: emas_def emas_ok_def)

lemma emas_write [simp]:
  "emas (w\<lparr>wExt := x\<rparr>) = emas w" "emas (SetProposal p w) = emas w" "emas (SetConstitution c w) = emas w"
  "emas (SetProposalID n w) = emas w" "emas (gov_SetParams pa w) = emas w"
  "emas (InsertActiveProposalQueue i t w) = emas w" "emas (RemoveFromActiveProposalQueue i t w) = emas w"
  "emas (InsertInactiveProposalQueue i t w) = emas w" "emas (RemoveFromInactiveProposalQueue i t w) = emas w"
  "emas (InsertQuorumCheckQueue i t q w) = emas w" "emas (SetActiveProposalsNumber n w) = emas w"
  "emas (SetInactiveProposalsNumber n w) = emas w" "emas (SetLastMinDeposit cs t w) = emas w"
  "emas (SetLastMinInitialDeposit cs t w) = emas w"
  "emas (on_gov (gDeposits_update f) w) = emas w" "emas (on_gov (gVotes_update h) w) = emas w"
  by (simp_all add: emas_def SetProposal_def SetConstitution_def SetProposalID_def gov_SetParams_def
      InsertActiveProposalQueue_def RemoveFromActiveProposalQueue_def InsertInactiveProposalQueue_def
      RemoveFromInactiveProposalQueue_def InsertQuorumCheckQueue_def SetActiveProposalsNumber_def
      SetInactiveProposalsNumber_def SetLastMinDeposit_def SetLastMinInitialDeposit_def)

lemma foldR_emas:
  assumes "foldR f xs w = Ok w'" "\<And>x w w'. f x w = Ok w' \<Longrightarrow> emas w' = emas w"
  shows "emas w' = emas w"
  using foldR_invariant [OF assms(1), of "\<lambda>v. emas v = emas w"] assms(2) by metis

lemma keeper_emas:
  "run_hook E h w = Ok w' \<Longrightarrow> emas w' = emas w"
  "on_ext k w = Ok w' \<Longrightarrow> emas w' = emas w"
  "UpdateMinDeposit E B c w = Ok w' \<Longrightarrow> emas w' = emas w"
  "UpdateMinInitialDeposit E B c w = Ok w' \<Longrightarrow> emas w' = emas w"
  "delete_deposit E i a w = Ok w' \<Longrightarrow> emas w' = emas w"
  "SetDeposit E d w = Ok w' \<Longrightarrow> emas w' = emas w"
  "SetVote E v w = Ok w' \<Longrightarrow> emas w' = emas w"
  "deleteVote E i a w = Ok w' \<Longrightarrow> emas w' = emas w"
  by (auto simp: run_hook_def on_ext_def UpdateMinDeposit_def UpdateMinInitialDeposit_def delete_deposit_def
      SetDeposit_def SetVote_def deleteVote_def split: option.splits)

lemma counters_emas:
  "IncrementActiveProposalsNumber E B w = Ok w' \<Longrightarrow> emas w' = emas w"
  "IncrementInactiveProposalsNumber E B w = Ok w' \<Longrightarrow> emas w' = emas w"
  "DecrementActiveProposalsNumber w = Ok w' \<Longrightarrow> emas w' = emas w"
  "DecrementInactiveProposalsNumber w = Ok w' \<Longrightarrow> emas w' = emas w"
  by (auto simp: IncrementActiveProposalsNumber_def IncrementInactiveProposalsNumber_def DecrementActiveProposalsNumber_def
      DecrementInactiveProposalsNumber_def Let_def split: if_splits dest: keeper_emas)

lemma settle_emas:
  "RefundAndDeleteDeposits E i w = Ok w' \<Longrightarrow> emas w' = emas w"
  "DeleteAndBurnDeposits E i w = Ok w' \<Longrightarrow> emas w' = emas w"
  unfolding RefundAndDeleteDeposits_def DeleteAndBurnDeposits_def
  by (erule foldR_emas, auto dest!: keeper_emas)+

lemma ActivateVotingPeriod_emas: "ActivateVotingPeriod E B p w = Ok w' \<Longrightarrow> emas w' = emas w"
  unfolding ActivateVotingPeriod_def Let_def
  by (elim bindE) (auto split: if_split_asm dest!: counters_emas)

lemma AddDeposit_emas: "AddDeposit E B i a cs skip w = Ok (b, w') \<Longrightarrow> emas w' = emas w"
  unfolding AddDeposit_def Let_def
  by (elim bindE) (auto split: if_split_asm dest!: keeper_emas ActivateVotingPeriod_emas)

lemma AddVote_emas: "AddVote E i a opts md w = Ok w' \<Longrightarrow> emas w' = emas w"
  by (auto simp: AddVote_def dest!: keeper_emas)

lemma SubmitProposal_emas: "SubmitProposal E B ms md ti su a w = Ok (p, w') \<Longrightarrow> emas w' = emas w"
  unfolding SubmitProposal_def Let_def by (elim bindE) (auto dest!: keeper_emas counters_emas)

lemma handle_msg_emas: "handle_msg E B msg w = Ok w' \<Longrightarrow> emas w' = emas w"
  by (cases msg)
    (auto simp: handle_msg_def msg_SubmitProposal_def msg_Deposit_def msg_Vote_def msg_VoteWeighted_def msg_UpdateParams_def
      msg_ProposeLaw_def msg_ProposeConstitutionAmendment_def ExecLegacyContent_def Let_def split: any.splits res.splits
      dest!: keeper_emas AddDeposit_emas AddVote_emas SubmitProposal_emas)

lemma execute_emas: "execute_messages E B p w = Ok w' \<Longrightarrow> emas w' = emas w"
  by (auto simp: execute_messages_def safeExecuteHandler_def split: res.splits elim!: foldR_emas dest: handle_msg_emas)

lemma Tally_emas:
  assumes "Tally E p w = Ok (t, w')"
  shows "emas w' = emas w"
proof -
  have "emas w' = emas w" if "tally_votes E vals fin votes acc w = Ok (tvp, r, err, w')" for vals fin votes acc tvp r err
    by (rule tally_votes_keeps [OF that, of "\<lambda>v. emas v = emas w"]) (simp_all add: keeper_emas)
  with assms show ?thesis
    by (auto simp: Tally_def tallyVotes_def Let_def split: res.splits option.splits if_splits)
qed

section \<open>The end of a vote\<close>

text \<open>The hooks of other modules return.\<close>

definition hooks_return :: "('m, 'x) gov_env \<Rightarrow> bool" where
  "hooks_return E \<longleftrightarrow> (\<forall>h x. geHook E h x \<noteq> None)"

lemma hook_returns: "hooks_return E \<Longrightarrow> \<exists>w'. run_hook E h w = Ok w'"
  unfolding hooks_return_def run_hook_def on_ext_def by (cases "geHook E h (wExt w)") (blast, simp)

text \<open>The messages of a passed proposal are executed, or dropped when one of them fails or panics.\<close>

lemma outcome:
  obtains st w3 where "(if tlPasses t then (case execute_messages E B p w of Ok w' \<Rightarrow> (StatusPassed, w') | _ \<Rightarrow> (StatusFailed, w))
      else (StatusRejected, w)) = (st, w3)"
    "w3 = w \<or> execute_messages E B p w = Ok w3"
    "if tlPasses t then st = StatusPassed \<or> st = StatusFailed else st = StatusRejected"
  by (cases "tlPasses t"; cases "execute_messages E B p w") simp_all

lemma outcome_moves:
  assumes "w3 = w \<or> execute_messages E B p w = Ok w3" "router_validates E" "sane_msgs (prMessages p)" "0 \<le> B"
  shows "moves E B (length (prMessages p)) w w3"
  using assms(1)
proof
  assume "w3 = w"
  then show ?thesis using moves_more [of E B 0 w w3 "length (prMessages p)"] by simp
next
  assume "execute_messages E B p w = Ok w3"
  then show ?thesis using execute_messages_moves assms(2-4) by blast
qed

lemma vote_counted:
  assumes "winv E w" "in_vote w t i"
  shows "0 < GetActiveProposalsNumber w"
proof -
  have "gActiveQueue (wGov w) \<noteq> []" using assms winv_queues(4) [of E w t i] by (auto simp: kv_has_def)
  moreover have "unat (GetActiveProposalsNumber w) = length (gActiveQueue (wGov w))"
    using winv_queues(2) [OF assms(1)] by (simp add: queue_ok_def GetActiveProposalsNumber_def split: option.splits)
  ultimately show ?thesis by (simp add: unat_gt_0 word_gt_0 flip: unat_eq_zero)
qed



section \<open>A quorum check without the maximum extension\<close>

text \<open>
  Parameters with quorum checks turned off are valid without a maximum extension; a check that is
  still pending, comes after an earlier one and finds the quorum reached then panics.
\<close>

lemma missing_extension_panics:
  assumes "gpMaxVotingPeriodExtension (gov_GetParams w) = None" and "0 < qeChecksDone entry"
    and "HasReachedQuorum E p (RemoveFromQuorumCheckQueue (prId p) t w) = Ok True"
  shows "check_quorum E B p t entry w = Panic"
proof -
  have "gov_GetParams (RemoveFromQuorumCheckQueue (prId p) t w) = gov_GetParams w"
    by (simp add: gov_GetParams_def RemoveFromQuorumCheckQueue_def)
  with assms show ?thesis by (simp add: check_quorum_def extend_voting_def)
qed

lemma extension_may_be_missing:
  "gov_Params_ValidateBasic std_dec std_coins (std_gov_params\<lparr>gpMaxVotingPeriodExtension := None\<rparr>) = Ok ()"
proof -
  let ?p = "std_gov_params\<lparr>gpMaxVotingPeriodExtension := None\<rparr>"
  have "Params_deprecated std_dec std_coins ?p = Params_deprecated std_dec std_coins std_gov_params"
    "Params_quorums std_dec std_coins ?p = Params_quorums std_dec std_coins std_gov_params"
    "Params_thresholds std_dec std_coins ?p = Params_thresholds std_dec std_coins std_gov_params"
    "Params_voting std_dec std_coins ?p = Params_voting std_dec std_coins std_gov_params"
    "burn_threshold_ok std_dec ?p = burn_threshold_ok std_dec std_gov_params"
    unfolding Params_deprecated_def Params_quorums_def Params_thresholds_def Params_voting_def burn_threshold_ok_def
    by simp_all
  then have "gov_Params_ValidateBasic std_dec std_coins ?p = gov_Params_ValidateBasic std_dec std_coins std_gov_params"
    by (simp add: gov_Params_ValidateBasic_def del: bindR_eq_Ok)
  with std_params_valid show ?thesis by simp
qed

end
