(* ===== verification/Gov_Keys.thy ===== *)
theory Gov_Keys
  imports Gov_Instance "HOL-Library.Sublist"
begin

text \<open>
  \<open>x/gov/types/keys.go\<close> and the iterators of \<open>keeper/keeper.go\<close>: the keys as bytes. All stores of
  the module are parts of one byte store, told apart by the first byte of a key; the bytes that
  follow are ordered like the pairs the rest of the development uses as keys, so that writes,
  deletions and iterators of the byte store are those of the separate stores.
\<close>

unbundle bit_operations_syntax

section \<open>Big-endian integers\<close>

type_synonym byte = "8 word"
type_synonym bytes = "byte list"

definition PutUint64 :: "u64 \<Rightarrow> bytes" where
  "PutUint64 n = map (\<lambda>k. ucast (drop_bit (8 * k) n)) (rev [0..<8])"

definition Uint64 :: "bytes \<Rightarrow> u64 res" where
  "Uint64 bz = (if length bz < 8 then Panic else Ok (foldl (\<lambda>n b. push_bit 8 n OR ucast b) 0 (take 8 bz)))"

fun be_value :: "bytes \<Rightarrow> int" where
  "be_value [] = 0"
| "be_value (b # bs) = uint b * 256 ^ length bs + be_value bs"

lemma be_value_bounds: "0 \<le> be_value bs \<and> be_value bs < 256 ^ length bs"
proof (induction bs)
  case (Cons b bs)
  have "uint b * 256 ^ length bs \<le> 255 * 256 ^ length bs"
    using uint_lt2p [of b] by (intro mult_right_mono) simp_all
  moreover have "0 \<le> uint b * 256 ^ length bs" by simp
  ultimately show ?case using Cons unfolding be_value.simps length_Cons power_Suc by linarith
qed simp

lemma be_value_less:
  "length xs = length ys \<Longrightarrow> be_value xs < be_value ys \<longleftrightarrow> xs < ys"
proof (induction xs ys rule: list_induct2)
  case (Cons x xs y ys)
  let ?n = "256 ^ length ys :: int"
  note b = be_value_bounds [of xs] be_value_bounds [of ys]
  have ord: "be_value (a # as) < be_value (c # cs)" if "a < c" "length as = length cs" for a c as cs
  proof -
    have "(uint a + 1) * 256 ^ length cs \<le> uint c * 256 ^ length cs"
      using that(1) by (intro mult_right_mono) (simp_all add: word_less_def)
    then show ?thesis using be_value_bounds [of as] be_value_bounds [of cs] that(2) by (simp add: distrib_right)
  qed
  show ?case
  proof (cases x y rule: linorder_cases)
    case less
    with ord [OF less Cons(1)] show ?thesis by simp
  next
    case equal
    with Cons show ?thesis by simp
  next
    case greater
    with ord [OF greater Cons(1) [symmetric]] show ?thesis by (auto simp del: be_value.simps)
  qed
qed simp

lemma be_value_PutUint64_upto:
  "be_value (map (\<lambda>k. ucast (drop_bit (8 * k) n)) (rev [0..<m])) = uint (n :: u64) mod 256 ^ m"
proof (induction m)
  case (Suc m)
  have "uint (ucast (drop_bit (8 * m) n) :: byte) = uint n div 256 ^ m mod 256"
    using uint_lt2p [of n] unfolding unsigned_ucast_eq unsigned_drop_bit_eq by (simp add: mod_pos_pos_trivial drop_bit_eq_div take_bit_eq_mod power_mult)
  moreover have "uint n mod 256 ^ Suc m = 256 ^ m * (uint n div 256 ^ m mod 256) + uint n mod 256 ^ m"
    using zmod_zmult2_eq [of 256 "uint n" "256 ^ m"] by (simp add: mult.commute)
  ultimately show ?case using Suc by simp
qed simp

lemma be_value_PutUint64 [simp]: "be_value (PutUint64 n) = uint n"
  using be_value_PutUint64_upto [of n 8] uint_lt2p [of n] by (simp add: PutUint64_def del: upt_Suc)

lemma length_PutUint64 [simp]: "length (PutUint64 n) = 8"
  by (simp add: PutUint64_def)

lemma PutUint64_less [simp]: "PutUint64 a < PutUint64 b \<longleftrightarrow> a < b"
  using be_value_less [of "PutUint64 a" "PutUint64 b"] by (simp add: word_less_def)

lemma PutUint64_eq [simp]: "PutUint64 a = PutUint64 b \<longleftrightarrow> a = b"
  using PutUint64_less [of a b] PutUint64_less [of b a] by (metis less_irrefl linorder_neqE)

lemma Uint64_fold:
  "foldl (\<lambda>n b. push_bit 8 n OR ucast b) a (map (\<lambda>k. ucast (drop_bit (8 * k) n) :: byte) (rev [0..<m])) =
     push_bit (8 * m) a OR take_bit (8 * m) (n :: u64)"
proof (induction m arbitrary: a)
  case (Suc m)
  show ?case by (simp add: Suc) (rule bit_eqI, auto simp: bit_simps ac_simps)
qed simp

lemma Uint64_PutUint64 [simp]: "Uint64 (PutUint64 n @ r) = Ok n"
  using Uint64_fold [of 0 n 8] by (simp add: Uint64_def PutUint64_def take_bit_word_eq_self del: upt_Suc)

section \<open>A store under encoded keys\<close>

text \<open>
  When an encoding of keys keeps their order, the association list under the encoded keys is read
  and written like the one under the keys.
\<close>

definition enc_kv :: "('k \<Rightarrow> bytes) \<Rightarrow> ('k, 'v) kv \<Rightarrow> (bytes, 'v) kv" where
  "enc_kv f m = map (\<lambda>(k, v). (f k, v)) m"

lemma enc_kv_simps [simp]: "enc_kv f [] = []" "enc_kv f ((k, v) # m) = (f k, v) # enc_kv f m"
  by (simp_all add: enc_kv_def)

locale key_encoding =
  fixes enc :: "'k::linorder \<Rightarrow> bytes" and ok :: "'k \<Rightarrow> bool"
  assumes enc_less: "ok a \<Longrightarrow> ok b \<Longrightarrow> enc a < enc b \<longleftrightarrow> a < b"
begin

lemma enc_eq: "ok a \<Longrightarrow> ok b \<Longrightarrow> enc a = enc b \<longleftrightarrow> a = b"
  using enc_less [of a b] enc_less [of b a] by (metis less_irrefl linorder_neqE)

lemma enc_set: "ok k \<Longrightarrow> \<forall>j \<in> fst ` set m. ok j \<Longrightarrow> kv_set (enc k) v (enc_kv enc m) = enc_kv enc (kv_set k v m)"
  by (induction k v m rule: kv_set.induct) (simp_all add: enc_less enc_eq)

lemma enc_del: "ok k \<Longrightarrow> \<forall>j \<in> fst ` set m. ok j \<Longrightarrow> kv_del (enc k) (enc_kv enc m) = enc_kv enc (kv_del k m)"
  by (induction m) (auto simp: kv_del_def enc_eq)

lemma enc_get: "ok k \<Longrightarrow> \<forall>j \<in> fst ` set m. ok j \<Longrightarrow> kv_get (enc_kv enc m) (enc k) = kv_get m k"
  by (induction m) (auto simp: kv_get_def enc_eq)

end

section \<open>The byte store\<close>

text \<open>The entries whose key has a given first byte.\<close>

definition part :: "byte \<Rightarrow> (bytes, 'v) kv \<Rightarrow> (bytes, 'v) kv" where
  "part b S = filter (\<lambda>(k, _). k \<noteq> [] \<and> hd k = b) S"

lemma kv_set_first: "\<forall>j \<in> fst ` set m. k < j \<Longrightarrow> kv_set k v m = (k, v) # m"
  by (cases m) auto

lemma filter_set:
  "kv_wf m \<Longrightarrow> filter (\<lambda>(j, _). P j) (kv_set k v m) =
     (if P k then kv_set k v (filter (\<lambda>(j, _). P j) m) else filter (\<lambda>(j, _). P j) m)"
proof (induction k v m rule: kv_set.induct)
  case (2 k v j w m)
  have "kv_set k v (filter (\<lambda>(j, _). P j) m) = (k, v) # filter (\<lambda>(j, _). P j) m" if "k < j"
    using 2(2) that by (intro kv_set_first) (force simp: kv_wf_Cons)
  with 2 show ?case by (auto simp: kv_wf_Cons)
qed simp

lemma part_set:
  "kv_wf S \<Longrightarrow> part b (kv_set (c # r) v S) = (if b = c then kv_set (c # r) v (part b S) else part b S)"
  unfolding part_def by (auto simp: filter_set)

lemma part_del: "part b (kv_del (c # r) S) = (if b = c then kv_del (c # r) (part b S) else part b S)"
  unfolding part_def kv_del_def by (auto intro!: filter_cong)

lemma part_set_same: "kv_wf S \<Longrightarrow> part b (kv_set (b # r) v S) = kv_set (b # r) v (part b S)"
  and part_del_same: "part b (kv_del (b # r) S) = kv_del (b # r) (part b S)"
  by (simp_all add: part_set part_del)

lemma part_get: "kv_get S (b # r) = kv_get (part b S) (b # r)"
  by (induction S) (auto simp: kv_get_def part_def)

section \<open>Iterators\<close>

text \<open>
  \<open>store.Iterator(start, end)\<close>: the entries from \<open>start\<close> up to, not including, \<open>end\<close>, which may be nil.
  \<open>PrefixEndBytes\<close> of the SDK gives the end of the keys with a prefix.
\<close>

definition Iterator :: "bytes \<Rightarrow> bytes option \<Rightarrow> (bytes, 'v) kv \<Rightarrow> (bytes, 'v) kv" where
  "Iterator start stop S = filter (\<lambda>(k, _). start \<le> k \<and> (case stop of None \<Rightarrow> True | Some e \<Rightarrow> k < e)) S"

definition KVStorePrefixIterator :: "(bytes \<Rightarrow> bytes option) \<Rightarrow> bytes \<Rightarrow> (bytes, 'v) kv \<Rightarrow> (bytes, 'v) kv" where
  "KVStorePrefixIterator prefixEnd p = Iterator p (prefixEnd p)"

definition prefix_end_laws :: "(bytes \<Rightarrow> bytes option) \<Rightarrow> bool" where
  "prefix_end_laws prefixEnd \<longleftrightarrow>
     (\<forall>p k. (case prefixEnd p of None \<Rightarrow> True | Some e \<Rightarrow> k < e) \<longleftrightarrow> k < p \<or> prefix p k)"

lemma append_less: "length xs = length ys \<Longrightarrow> xs @ a < ys @ b \<longleftrightarrow> xs < ys \<or> xs = ys \<and> a < (b :: bytes)"
  by (induction xs ys rule: list_induct2) auto

lemma prefix_le: "prefix p k \<Longrightarrow> p \<le> (k :: bytes)"
proof (induction p arbitrary: k)
  case (Cons a p)
  then show ?case by (cases k) auto
qed simp

lemma prefix_iterator:
  assumes "prefix_end_laws prefixEnd"
  shows "KVStorePrefixIterator prefixEnd (b # p) S = filter (\<lambda>(k, _). prefix p (tl k)) (part b S)"
proof -
  have "b # p \<le> k \<and> (k < b # p \<or> prefix (b # p) k) \<longleftrightarrow> k \<noteq> [] \<and> hd k = b \<and> prefix p (tl k)" for k
    using prefix_le [of "b # p" k] by (cases k) auto
  with assms show ?thesis
    by (auto simp: KVStorePrefixIterator_def Iterator_def part_def prefix_end_laws_def intro!: filter_cong)
qed

lemma upto_iterator:
  assumes "prefix_end_laws prefixEnd"
  shows "Iterator [b] (prefixEnd (b # p)) S = filter (\<lambda>(k, _). tl k < p \<or> prefix p (tl k)) (part b S)"
proof -
  have "[b] \<le> k \<and> (k < b # p \<or> prefix (b # p) k) \<longleftrightarrow> k \<noteq> [] \<and> hd k = b \<and> (tl k < p \<or> prefix p (tl k))" for k
    by (cases k) auto
  with assms show ?thesis by (auto simp: Iterator_def part_def prefix_end_laws_def intro!: filter_cong)
qed

section \<open>Times\<close>

text \<open>
  \<open>FormatTimeBytes\<close> and \<open>ParseTimeBytes\<close> of the SDK, for the times they can represent: formats of one
  length, ordered like the times. \<open>StartTime\<close> is when the process started, at which \<open>lenTime\<close> is taken.
\<close>

record time_lib =
  FormatTimeBytes :: "time \<Rightarrow> bytes"
  ParseTimeBytes :: "bytes \<Rightarrow> time option"
  StorableTime :: "time \<Rightarrow> bool"
  StartTime :: time

definition time_laws :: "time_lib \<Rightarrow> bool" where
  "time_laws T \<longleftrightarrow> StorableTime T (StartTime T) \<and>
     (\<forall>s t. StorableTime T s \<longrightarrow> StorableTime T t \<longrightarrow> length (FormatTimeBytes T s) = length (FormatTimeBytes T t) \<and>
        (FormatTimeBytes T s < FormatTimeBytes T t \<longleftrightarrow> s < t)) \<and>
     (\<forall>t. StorableTime T t \<longrightarrow> ParseTimeBytes T (FormatTimeBytes T t) = Some t)"

lemma time_lawsD:
  assumes "time_laws T" "StorableTime T s" "StorableTime T t"
  shows "length (FormatTimeBytes T s) = length (FormatTimeBytes T t)"
    "FormatTimeBytes T s < FormatTimeBytes T t \<longleftrightarrow> s < t" "FormatTimeBytes T s = FormatTimeBytes T t \<longleftrightarrow> s = t"
    "ParseTimeBytes T (FormatTimeBytes T t) = Some t"
  using assms unfolding time_laws_def by (blast, blast, metis option.inject, blast)

lemma time_laws_start: "time_laws T \<Longrightarrow> StorableTime T (StartTime T)"
  by (simp only: time_laws_def)

definition lenTime :: "time_lib \<Rightarrow> nat" where
  "lenTime T = length (FormatTimeBytes T (StartTime T))"

lemma length_FormatTimeBytes: "time_laws T \<Longrightarrow> StorableTime T t \<Longrightarrow> length (FormatTimeBytes T t) = lenTime T"
  using time_lawsD(1) [of T t "StartTime T"] unfolding lenTime_def by (blast intro: time_laws_start)

section \<open>Keys\<close>

definition ProposalsKeyPrefix :: bytes where "ProposalsKeyPrefix = [0x00]"
definition ActiveProposalQueuePrefix :: bytes where "ActiveProposalQueuePrefix = [0x01]"
definition InactiveProposalQueuePrefix :: bytes where "InactiveProposalQueuePrefix = [0x02]"
definition VotingPeriodProposalKeyPrefix :: bytes where "VotingPeriodProposalKeyPrefix = [0x04]"
definition QuorumCheckQueuePrefix :: bytes where "QuorumCheckQueuePrefix = [0x05]"
definition DepositsKeyPrefix :: bytes where "DepositsKeyPrefix = [0x10]"
definition VotesKeyPrefix :: bytes where "VotesKeyPrefix = [0x20]"

lemmas key_prefixes = ProposalsKeyPrefix_def ActiveProposalQueuePrefix_def InactiveProposalQueuePrefix_def
  VotingPeriodProposalKeyPrefix_def QuorumCheckQueuePrefix_def DepositsKeyPrefix_def VotesKeyPrefix_def

definition GetProposalIDBytes :: "u64 \<Rightarrow> bytes" where "GetProposalIDBytes = PutUint64"
definition GetProposalIDFromBytes :: "bytes \<Rightarrow> u64 res" where "GetProposalIDFromBytes = Uint64"

definition ProposalKey :: "u64 \<Rightarrow> bytes" where
  "ProposalKey proposalID = ProposalsKeyPrefix @ GetProposalIDBytes proposalID"

definition VotingPeriodProposalKey :: "u64 \<Rightarrow> bytes" where
  "VotingPeriodProposalKey proposalID = VotingPeriodProposalKeyPrefix @ GetProposalIDBytes proposalID"

definition ActiveProposalByTimeKey :: "time_lib \<Rightarrow> time \<Rightarrow> bytes" where
  "ActiveProposalByTimeKey T endTime = ActiveProposalQueuePrefix @ FormatTimeBytes T endTime"

definition ActiveProposalQueueKey :: "time_lib \<Rightarrow> u64 \<Rightarrow> time \<Rightarrow> bytes" where
  "ActiveProposalQueueKey T proposalID endTime = ActiveProposalByTimeKey T endTime @ GetProposalIDBytes proposalID"

definition InactiveProposalByTimeKey :: "time_lib \<Rightarrow> time \<Rightarrow> bytes" where
  "InactiveProposalByTimeKey T endTime = InactiveProposalQueuePrefix @ FormatTimeBytes T endTime"

definition InactiveProposalQueueKey :: "time_lib \<Rightarrow> u64 \<Rightarrow> time \<Rightarrow> bytes" where
  "InactiveProposalQueueKey T proposalID endTime = InactiveProposalByTimeKey T endTime @ GetProposalIDBytes proposalID"

definition QuorumCheckByTimeKey :: "time_lib \<Rightarrow> time \<Rightarrow> bytes" where
  "QuorumCheckByTimeKey T endTime = QuorumCheckQueuePrefix @ FormatTimeBytes T endTime"

definition QuorumCheckQueueKey :: "time_lib \<Rightarrow> u64 \<Rightarrow> time \<Rightarrow> bytes" where
  "QuorumCheckQueueKey T proposalID endTime = QuorumCheckByTimeKey T endTime @ GetProposalIDBytes proposalID"

definition DepositsKey :: "u64 \<Rightarrow> bytes" where
  "DepositsKey proposalID = DepositsKeyPrefix @ GetProposalIDBytes proposalID"

definition DepositKey :: "('m, 'x) gov_env \<Rightarrow> u64 \<Rightarrow> addr \<Rightarrow> bytes res" where
  "DepositKey E proposalID depositorAddr =
     bindR (addr_key E depositorAddr) (\<lambda>k. Ok (DepositsKey proposalID @ k))"

definition VotesKey :: "u64 \<Rightarrow> bytes" where
  "VotesKey proposalID = VotesKeyPrefix @ GetProposalIDBytes proposalID"

definition VoteKey :: "('m, 'x) gov_env \<Rightarrow> u64 \<Rightarrow> addr \<Rightarrow> bytes res" where
  "VoteKey E proposalID voterAddr = bindR (addr_key E voterAddr) (\<lambda>k. Ok (VotesKey proposalID @ k))"

text \<open>Reading a key back; a key of another length is a panic.\<close>

definition SplitProposalKey :: "bytes \<Rightarrow> u64 res" where
  "SplitProposalKey key = (case key of [] \<Rightarrow> Panic
     | _ # bz \<Rightarrow> if length bz \<noteq> 8 then Panic else GetProposalIDFromBytes bz)"

definition splitKeyWithTime :: "time_lib \<Rightarrow> bytes \<Rightarrow> (u64 \<times> time) res" where
  "splitKeyWithTime T key = (case key of [] \<Rightarrow> Panic
     | _ # bz \<Rightarrow>
         if length bz \<noteq> 8 + lenTime T then Panic
         else bindR (must (ParseTimeBytes T (take (lenTime T) bz))) (\<lambda>endTime.
              bindR (GetProposalIDFromBytes (drop (lenTime T) bz)) (\<lambda>proposalID.
              Ok (proposalID, endTime))))"

definition SplitActiveProposalQueueKey :: "time_lib \<Rightarrow> bytes \<Rightarrow> (u64 \<times> time) res" where
  "SplitActiveProposalQueueKey = splitKeyWithTime"

definition SplitInactiveProposalQueueKey :: "time_lib \<Rightarrow> bytes \<Rightarrow> (u64 \<times> time) res" where
  "SplitInactiveProposalQueueKey = splitKeyWithTime"

definition SplitQuorumQueueKey :: "time_lib \<Rightarrow> bytes \<Rightarrow> (u64 \<times> time) res" where
  "SplitQuorumQueueKey = splitKeyWithTime"

definition splitKeyWithAddress :: "bytes \<Rightarrow> (u64 \<times> addr) res" where
  "splitKeyWithAddress key =
     (if length key < 10 then Panic
      else bindR (GetProposalIDFromBytes (take 8 (drop 1 key))) (\<lambda>proposalID.
           if length key < 11 then Panic else Ok (proposalID, drop 10 key)))"

definition SplitKeyDeposit :: "bytes \<Rightarrow> (u64 \<times> addr) res" where "SplitKeyDeposit = splitKeyWithAddress"
definition SplitKeyVote :: "bytes \<Rightarrow> (u64 \<times> addr) res" where "SplitKeyVote = splitKeyWithAddress"

section \<open>The iterators of the queues\<close>

definition ActiveProposalQueueIterator :: "time_lib \<Rightarrow> (bytes \<Rightarrow> bytes option) \<Rightarrow> time \<Rightarrow> (bytes, 'v) kv \<Rightarrow> (bytes, 'v) kv" where
  "ActiveProposalQueueIterator T prefixEnd endTime =
     Iterator ActiveProposalQueuePrefix (prefixEnd (ActiveProposalByTimeKey T endTime))"

definition InactiveProposalQueueIterator :: "time_lib \<Rightarrow> (bytes \<Rightarrow> bytes option) \<Rightarrow> time \<Rightarrow> (bytes, 'v) kv \<Rightarrow> (bytes, 'v) kv" where
  "InactiveProposalQueueIterator T prefixEnd endTime =
     Iterator InactiveProposalQueuePrefix (prefixEnd (InactiveProposalByTimeKey T endTime))"

definition QuorumCheckQueueIterator :: "time_lib \<Rightarrow> (bytes \<Rightarrow> bytes option) \<Rightarrow> time \<Rightarrow> (bytes, 'v) kv \<Rightarrow> (bytes, 'v) kv" where
  "QuorumCheckQueueIterator T prefixEnd endTime =
     Iterator QuorumCheckQueuePrefix (prefixEnd (QuorumCheckByTimeKey T endTime))"

section \<open>A concrete encoding\<close>

text \<open>The end of a prefix: the last byte that is not the largest is increased, the bytes after it are dropped.\<close>

fun std_prefix_end :: "bytes \<Rightarrow> bytes option" where
  "std_prefix_end [] = None"
| "std_prefix_end (b # bs) = (case std_prefix_end bs of Some e \<Rightarrow> Some (b # e)
     | None \<Rightarrow> if b = 255 then None else Some [b + 1])"

lemma byte_upto: "(b :: byte) \<noteq> 255 \<Longrightarrow> x < b + 1 \<longleftrightarrow> x \<le> b"
  by uint_arith auto

lemma std_prefix_end_law:
  "(case std_prefix_end p of None \<Rightarrow> True | Some e \<Rightarrow> k < e) \<longleftrightarrow> k < p \<or> prefix p k"
proof (induction p arbitrary: k)
  case (Cons b p)
  show ?case
  proof (cases k)
    case Nil
    then show ?thesis by (auto split: option.splits)
  next
    case (Cons c r)
    have "c \<le> (255 :: byte)" using uint_lt2p [of c] by (simp add: word_le_def)
    with Cons Cons.IH [of r] show ?thesis by (auto simp: byte_upto split: option.splits)
  qed
qed simp

lemma std_prefix_end_laws: "prefix_end_laws std_prefix_end"
  unfolding prefix_end_laws_def using std_prefix_end_law by blast

text \<open>Nanoseconds since the epoch, as a big-endian integer.\<close>

definition std_time :: time_lib where
  "std_time = \<lparr> FormatTimeBytes = (\<lambda>t. PutUint64 (word_of_int t)),
     ParseTimeBytes = (\<lambda>bz. case Uint64 bz of Ok n \<Rightarrow> Some (uint n) | _ \<Rightarrow> None),
     StorableTime = (\<lambda>t. 0 \<le> t \<and> t < 2 ^ 64), StartTime = 0 \<rparr>"

lemma std_time_laws: "time_laws std_time"
proof -
  have "Uint64 (PutUint64 n) = Ok n" for n using Uint64_PutUint64 [of n "[]"] by simp
  then show ?thesis by (simp add: time_laws_def std_time_def word_less_def uint_word_of_int)
qed

section \<open>The stores of the module in the byte store\<close>

fun queue_bytes :: "byte \<Rightarrow> time_lib \<Rightarrow> queue_key \<Rightarrow> bytes" where
  "queue_bytes b T (t, i) = b # FormatTimeBytes T t @ GetProposalIDBytes i"

fun queue_storable :: "time_lib \<Rightarrow> queue_key \<Rightarrow> bool" where
  "queue_storable T (t, i) \<longleftrightarrow> time_laws T \<and> StorableTime T t"

fun entry_bytes :: "byte \<Rightarrow> u64 \<times> addr \<Rightarrow> bytes" where
  "entry_bytes b (i, k) = b # GetProposalIDBytes i @ k"

interpretation queue_keys: key_encoding "queue_bytes b T" "queue_storable T" for b T
proof
  fix x y
  assume ok: "queue_storable T x" "queue_storable T y"
  obtain s i t j where x: "x = (s, i)" "y = (t, j)" by (cases x; cases y)
  have "time_laws T" "StorableTime T s" "StorableTime T t" using ok by (simp_all add: x)
  note l = time_lawsD [OF this]
  show "queue_bytes b T x < queue_bytes b T y \<longleftrightarrow> x < y"
    using append_less [OF l(1), of "PutUint64 i" "PutUint64 j"] l(2,3) by (auto simp: x GetProposalIDBytes_def)
qed

interpretation entry_keys: key_encoding "entry_bytes b" "\<lambda>_. True" for b
proof
  fix x y
  show "entry_bytes b x < entry_bytes b y \<longleftrightarrow> x < y"
    by (cases x; cases y) (auto simp: append_less GetProposalIDBytes_def)
qed

interpretation proposal_keys: key_encoding ProposalKey "\<lambda>_. True"
  by unfold_locales (simp add: ProposalKey_def key_prefixes GetProposalIDBytes_def)

lemma SplitProposalKey_ProposalKey: "SplitProposalKey (ProposalKey i) = Ok i"
  using Uint64_PutUint64 [of i "[]"]
  by (simp add: SplitProposalKey_def ProposalKey_def key_prefixes GetProposalIDBytes_def GetProposalIDFromBytes_def
      del: Uint64_PutUint64)

lemma splitKeyWithTime_bytes:
  assumes "queue_storable T (t, i)"
  shows "splitKeyWithTime T (queue_bytes b T (t, i)) = Ok (i, t)"
proof -
  have T: "time_laws T" "StorableTime T t" using assms by simp_all
  then show ?thesis
    using length_FormatTimeBytes [OF T] time_lawsD(4) [OF T T(2)] Uint64_PutUint64 [of i "[]"]
    by (simp add: splitKeyWithTime_def GetProposalIDBytes_def GetProposalIDFromBytes_def del: Uint64_PutUint64)
qed

lemma splitKeyWithAddress_bytes:
  assumes "a \<noteq> []"
  shows "splitKeyWithAddress (entry_bytes b (i, c # a)) = Ok (i, a)"
proof -
  have "Uint64 (take 8 (drop 1 (entry_bytes b (i, c # a)))) = Ok i"
    using Uint64_PutUint64 [of i "[]"] by (simp add: GetProposalIDBytes_def del: Uint64_PutUint64)
  moreover have "11 \<le> length (entry_bytes b (i, c # a))" "drop 10 (entry_bytes b (i, c # a)) = a"
    using assms by (cases a; simp add: GetProposalIDBytes_def)+
  ultimately show ?thesis by (simp add: splitKeyWithAddress_def GetProposalIDFromBytes_def del: entry_bytes.simps)
qed

text \<open>The iterators over a queue and over the entries of a proposal.\<close>

lemma upto_due:
  assumes T: "time_laws T" "StorableTime T t" and P: "prefix_end_laws prefixEnd"
    and S: "part b S = enc_kv (queue_bytes b T) q" and q: "\<forall>k \<in> fst ` set q. queue_storable T k"
  shows "Iterator [b] (prefixEnd (b # FormatTimeBytes T t)) S = enc_kv (queue_bytes b T) (due t q)"
proof -
  have one: "tl (queue_bytes b T k) < FormatTimeBytes T t \<or> prefix (FormatTimeBytes T t) (tl (queue_bytes b T k)) \<longleftrightarrow> fst k \<le> t"
    if "queue_storable T k" for k
  proof -
    obtain s i where k: "k = (s, i)" by (cases k)
    have s: "StorableTime T s" using that k by simp
    note l = time_lawsD [OF T(1) s T(2)]
    have "FormatTimeBytes T s @ GetProposalIDBytes i < FormatTimeBytes T t \<longleftrightarrow> s < t"
      using append_less [OF l(1), of "GetProposalIDBytes i" "[]"] l(2) by simp
    moreover have "prefix (FormatTimeBytes T t) (FormatTimeBytes T s @ GetProposalIDBytes i) \<longleftrightarrow> s = t"
      using l(1,3) by (auto simp: prefix_def append_eq_append_conv)
    ultimately show ?thesis by (auto simp: k)
  qed
  show ?thesis unfolding upto_iterator [OF P] S using q
    by (induction q) (auto simp: due_def one simp del: queue_bytes.simps queue_storable.simps)
qed

lemma prefix_under:
  assumes P: "prefix_end_laws prefixEnd" and S: "part b S = enc_kv (entry_bytes b) m"
  shows "KVStorePrefixIterator prefixEnd (b # GetProposalIDBytes i) S = enc_kv (entry_bytes b) (kv_under i m)"
proof -
  have one: "prefix (GetProposalIDBytes i) (tl (entry_bytes b k)) \<longleftrightarrow> fst k = i" for k
    by (cases k) (auto simp: prefix_def append_eq_append_conv GetProposalIDBytes_def)
  show ?thesis unfolding prefix_iterator [OF P] S
    by (induction m) (auto simp: kv_under_def one simp del: entry_bytes.simps)
qed

text \<open>The three queues: first byte, key, iterator and how the key is read back.\<close>

definition queues :: "time_lib \<Rightarrow> (bytes \<Rightarrow> bytes option) \<Rightarrow>
    (bytes \<times> (u64 \<Rightarrow> time \<Rightarrow> bytes) \<times> (time \<Rightarrow> (bytes, 'v) kv \<Rightarrow> (bytes, 'v) kv) \<times> (bytes \<Rightarrow> (u64 \<times> time) res)) set" where
  "queues T prefixEnd =
     {(ActiveProposalQueuePrefix, ActiveProposalQueueKey T, ActiveProposalQueueIterator T prefixEnd, SplitActiveProposalQueueKey T),
      (InactiveProposalQueuePrefix, InactiveProposalQueueKey T, InactiveProposalQueueIterator T prefixEnd, SplitInactiveProposalQueueKey T),
      (QuorumCheckQueuePrefix, QuorumCheckQueueKey T, QuorumCheckQueueIterator T prefixEnd, SplitQuorumQueueKey T)}"

lemma queuesE:
  assumes "(pre, key, iter, split) \<in> queues T prefixEnd"
  obtains b where "pre = [b]" "\<forall>i t. key i t = queue_bytes b T (t, i)" "(\<lambda>(t, i). key i t) = queue_bytes b T"
    "\<forall>t. iter t = Iterator [b] (prefixEnd (b # FormatTimeBytes T t))" "split = splitKeyWithTime T"
  using assms unfolding queues_def
  by (elim insertE; simp add: fun_eq_iff key_prefixes ActiveProposalQueueKey_def ActiveProposalByTimeKey_def
      InactiveProposalQueueKey_def InactiveProposalByTimeKey_def QuorumCheckQueueKey_def QuorumCheckByTimeKey_def
      ActiveProposalQueueIterator_def InactiveProposalQueueIterator_def QuorumCheckQueueIterator_def
      SplitActiveProposalQueueKey_def SplitInactiveProposalQueueKey_def SplitQuorumQueueKey_def)

text \<open>
  C17: the queues in the byte store are the queues of the model. When the entries under the first
  byte of a queue are those of a queue of the model, then writing and deleting a key do to them what
  the model does and leave the entries under all other bytes, the iterator up to a time visits the
  entries that are due, in their order, and the keys it visits are read back.
\<close>

theorem queue_store_refines:
  assumes "time_laws T" and "prefix_end_laws prefixEnd" and "kv_wf S"
    and "(pre, key, iter, split) \<in> queues T prefixEnd"
    and "part (hd pre) S = enc_kv (\<lambda>(t, i). key i t) q"
    and "\<forall>(t, i) \<in> fst ` set q. StorableTime T t" and "StorableTime T t"
  shows "part (hd pre) (kv_set (key i t) v S) = enc_kv (\<lambda>(t, i). key i t) (kv_set (t, i) v q) \<and>
    part (hd pre) (kv_del (key i t) S) = enc_kv (\<lambda>(t, i). key i t) (kv_del (t, i) q) \<and>
    (\<forall>b. b \<noteq> hd pre \<longrightarrow> part b (kv_set (key i t) v S) = part b S \<and> part b (kv_del (key i t) S) = part b S) \<and>
    iter t S = enc_kv (\<lambda>(t, i). key i t) (due t q) \<and>
    map (\<lambda>(k, _). split k) (iter t S) = map (\<lambda>((s, j), _). Ok (j, s)) (due t q)"
proof -
  from queuesE [OF assms(4)] obtain b where k: "pre = [b]" "\<forall>i t. key i t = queue_bytes b T (t, i)"
    "(\<lambda>(t, i). key i t) = queue_bytes b T" "\<forall>t. iter t = Iterator [b] (prefixEnd (b # FormatTimeBytes T t))"
    "split = splitKeyWithTime T" by blast
  have S: "part b S = enc_kv (queue_bytes b T) q" using assms(5) by (simp only: k(1,3) list.sel)
  have ok: "queue_storable T (t, i)" "\<forall>k \<in> fst ` set q. queue_storable T k" using assms(1,6,7) by auto
  have bytes: "queue_bytes b T (t, i) = b # FormatTimeBytes T t @ GetProposalIDBytes i" by simp
  have iter: "iter t S = enc_kv (queue_bytes b T) (due t q)"
    unfolding k(4) [rule_format] by (rule upto_due [OF assms(1,7,2) S ok(2)])
  have "map (\<lambda>(k, _). split k) (enc_kv (queue_bytes b T) es) = map (\<lambda>((s, j), _). Ok (j, s)) es"
    if "set es \<subseteq> set q" for es
    using that ok(2) by (induction es) (auto simp: k(5) splitKeyWithTime_bytes simp del: queue_bytes.simps)
  moreover have "set (due t q) \<subseteq> set q" by (auto simp: due_def)
  ultimately have "map (\<lambda>(k, _). split k) (iter t S) = map (\<lambda>((s, j), _). Ok (j, s)) (due t q)"
    unfolding iter by blast
  moreover have "part b (kv_set (queue_bytes b T (t, i)) v S) = enc_kv (queue_bytes b T) (kv_set (t, i) v q)"
    unfolding bytes part_set_same [OF assms(3)] S unfolding bytes [symmetric] by (rule queue_keys.enc_set [OF ok])
  moreover have "part b (kv_del (queue_bytes b T (t, i)) S) = enc_kv (queue_bytes b T) (kv_del (t, i) q)"
    unfolding bytes part_del_same S unfolding bytes [symmetric] by (rule queue_keys.enc_del [OF ok])
  ultimately show ?thesis
    unfolding k(1) k(2) [rule_format] k(3) [unfolded k(2) [rule_format]] list.sel using iter part_set [OF assms(3)] part_del [of _ b _ S] bytes by auto
qed

theorem queue_store_refines_witness:
  "map (\<lambda>(k, _). SplitActiveProposalQueueKey std_time k) (ActiveProposalQueueIterator std_time std_prefix_end 150
     [(ProposalKey 1, ()), (ActiveProposalQueueKey std_time 1 100, ()), (ActiveProposalQueueKey std_time 2 200, ())]) = [Ok (1, 100)]"
proof -
  let ?S = "[(ProposalKey 1, ()), (ActiveProposalQueueKey std_time 1 100, ()), (ActiveProposalQueueKey std_time 2 200, ())]"
  let ?q = "[((100, 1), ()), ((200, 2), ())] :: (queue_key, unit) kv"
  have "kv_wf ?S"
    by (simp add: kv_wf_Cons ProposalKey_def ActiveProposalQueueKey_def ActiveProposalByTimeKey_def key_prefixes append_less
        std_time_def)
  moreover have "part (hd ActiveProposalQueuePrefix) ?S = enc_kv (\<lambda>(t, i). ActiveProposalQueueKey std_time i t) ?q"
    by (simp add: part_def ProposalKey_def ActiveProposalQueueKey_def ActiveProposalByTimeKey_def key_prefixes)
  moreover have "\<forall>(t, i) \<in> fst ` set ?q. StorableTime std_time t" "StorableTime std_time 150" by (simp_all add: std_time_def)
  moreover have "(ActiveProposalQueuePrefix, ActiveProposalQueueKey std_time, ActiveProposalQueueIterator std_time std_prefix_end,
      SplitActiveProposalQueueKey std_time) \<in> queues std_time std_prefix_end" by (simp add: queues_def)
  ultimately have "map (\<lambda>(k, _). SplitActiveProposalQueueKey std_time k) (ActiveProposalQueueIterator std_time std_prefix_end 150 ?S) =
      map (\<lambda>((s, j), _). Ok (j, s)) (due 150 ?q)"
    using queue_store_refines [OF std_time_laws std_prefix_end_laws, of ?S ActiveProposalQueuePrefix
        "ActiveProposalQueueKey std_time" "ActiveProposalQueueIterator std_time std_prefix_end"
        "SplitActiveProposalQueueKey std_time" ?q 150] by blast
  then show ?thesis by (simp add: due_def)
qed

text \<open>The two kinds of entries below a proposal: first byte, key of the proposal, key and how it is read back.\<close>

definition entries_of :: "('m, 'x) gov_env \<Rightarrow>
    (bytes \<times> (u64 \<Rightarrow> bytes) \<times> (u64 \<Rightarrow> addr \<Rightarrow> bytes res) \<times> (bytes \<Rightarrow> (u64 \<times> addr) res)) set" where
  "entries_of E = {(DepositsKeyPrefix, DepositsKey, DepositKey E, SplitKeyDeposit), (VotesKeyPrefix, VotesKey, VoteKey E, SplitKeyVote)}"

text \<open>
  C18: deposits and votes in the byte store are those of the model: the key of an entry is the
  prefix, the id and the length-prefixed address, and is read back; reading, writing and deleting it
  do what the model does and leave all other parts, and the iterator below a proposal visits exactly
  the entries of that proposal, however the addresses continue.
\<close>

theorem entry_store_refines:
  assumes "prefix_end_laws prefixEnd" and "kv_wf S" and "(pre, below, key, split) \<in> entries_of E"
    and "part (hd pre) S = enc_kv (\<lambda>(i, k). below i @ k) m"
    and "geLengthPrefix E a = Some (c # a)" and "a \<noteq> []"
  shows "\<exists>kb. key i a = Ok kb \<and> split kb = Ok (i, a) \<and> kv_get S kb = kv_get m (i, c # a) \<and>
    part (hd pre) (kv_set kb v S) = enc_kv (\<lambda>(i, k). below i @ k) (kv_set (i, c # a) v m) \<and>
    part (hd pre) (kv_del kb S) = enc_kv (\<lambda>(i, k). below i @ k) (kv_del (i, c # a) m) \<and>
    (\<forall>b. b \<noteq> hd pre \<longrightarrow> part b (kv_set kb v S) = part b S \<and> part b (kv_del kb S) = part b S) \<and>
    KVStorePrefixIterator prefixEnd (below i) S = enc_kv (\<lambda>(i, k). below i @ k) (kv_under i m)"
proof -
  from assms(3) obtain b where k: "pre = [b]" "below = (\<lambda>i. b # GetProposalIDBytes i)" "split = splitKeyWithAddress"
    "key = (\<lambda>i a. bindR (addr_key E a) (\<lambda>k. Ok (below i @ k)))"
    by (auto simp: entries_of_def key_prefixes DepositsKey_def VotesKey_def DepositKey_def VoteKey_def fun_eq_iff
        SplitKeyDeposit_def SplitKeyVote_def)
  have enc: "(\<lambda>(i, k). below i @ k) = entry_bytes b" by (auto simp: fun_eq_iff k(2))
  note S = assms(4) [unfolded enc k(1) list.sel]
  have bytes: "entry_bytes b (i, c # a) = b # GetProposalIDBytes i @ c # a" by simp
  have ok: "\<forall>j \<in> fst ` set m. True" by simp
  have "key i a = Ok (entry_bytes b (i, c # a))" using assms(5) by (simp add: k(4) k(2) addr_key_def)
  moreover have "split (entry_bytes b (i, c # a)) = Ok (i, a)" unfolding k(3) by (rule splitKeyWithAddress_bytes [OF assms(6)])
  moreover have "kv_get S (entry_bytes b (i, c # a)) = kv_get m (i, c # a)"
    unfolding bytes part_get [of S b] S unfolding bytes [symmetric] by (rule entry_keys.enc_get [OF TrueI ok])
  moreover have "part b (kv_set (entry_bytes b (i, c # a)) v S) = enc_kv (entry_bytes b) (kv_set (i, c # a) v m)"
    unfolding bytes part_set_same [OF assms(2)] S unfolding bytes [symmetric] by (rule entry_keys.enc_set [OF TrueI ok])
  moreover have "part b (kv_del (entry_bytes b (i, c # a)) S) = enc_kv (entry_bytes b) (kv_del (i, c # a) m)"
    unfolding bytes part_del_same S unfolding bytes [symmetric] by (rule entry_keys.enc_del [OF TrueI ok])
  moreover have "KVStorePrefixIterator prefixEnd (below i) S = enc_kv (entry_bytes b) (kv_under i m)"
    unfolding k(2) by (rule prefix_under [OF assms(1) S])
  ultimately show ?thesis
    unfolding enc k(1) list.sel using part_set [OF assms(2)] part_del [of _ b _ S] bytes by (intro exI) auto
qed

theorem entry_store_refines_witness:
  "SplitKeyDeposit (DepositsKey 1 @ [1, 2]) = Ok (1, [2]) \<and>
   KVStorePrefixIterator std_prefix_end (DepositsKey 1) [(DepositsKey 1 @ [1, 2], 7), (DepositsKey 2 @ [1, 2], 8 :: nat)] =
     [(DepositsKey 1 @ [1, 2], 7)]"
proof -
  let ?S = "[(DepositsKey 1 @ [1, 2], 7), (DepositsKey 2 @ [1, 2], 8 :: nat)]"
  let ?m = "[((1, [1, 2]), 7), ((2, [1, 2]), 8)] :: (u64 \<times> addr, nat) kv"
  have "kv_wf ?S" by (simp add: kv_wf_Cons DepositsKey_def key_prefixes GetProposalIDBytes_def append_less)
  moreover have "part (hd DepositsKeyPrefix) ?S = enc_kv (\<lambda>(i, k). DepositsKey i @ k) ?m"
    by (simp add: part_def DepositsKey_def key_prefixes)
  moreover have "geLengthPrefix std_gov_env [2] = Some (1 # [2])" "([2] :: addr) \<noteq> []" by (simp_all add: std_gov_env_def)
  moreover have "(DepositsKeyPrefix, DepositsKey, DepositKey std_gov_env, SplitKeyDeposit) \<in> entries_of std_gov_env"
    by (simp add: entries_of_def)
  ultimately have "\<exists>kb. DepositKey std_gov_env 1 [2] = Ok kb \<and> SplitKeyDeposit kb = Ok (1, [2]) \<and>
      KVStorePrefixIterator std_prefix_end (DepositsKey 1) ?S = enc_kv (\<lambda>(i, k). DepositsKey i @ k) (kv_under 1 ?m)"
    using entry_store_refines [OF std_prefix_end_laws, of ?S DepositsKeyPrefix DepositsKey "DepositKey std_gov_env"
        SplitKeyDeposit std_gov_env ?m "[2]" 1 1] by blast
  moreover have "DepositKey std_gov_env 1 [2] = Ok (DepositsKey 1 @ [1, 2])"
    by (simp add: DepositKey_def addr_key_def std_gov_env_def)
  ultimately show ?thesis by (auto simp: kv_under_def)
qed

end
