(* ===== verification/Ui_Strings.thy ===== *)
theory Ui_Strings
  imports Prelude
begin

text \<open>
  The strings and plain objects of the bundled Swagger UI (\<open>client/docs/swagger-ui\<close>). A string
  is the list of its code points; a lone surrogate is a code point between \<open>0xD800\<close> and
  \<open>0xDFFF\<close>. The URI component functions and the property order are those of the language.
\<close>

section \<open>Strings\<close>

type_synonym jsstr = "nat list"

definition js :: "string \<Rightarrow> jsstr" where "js s = map of_char s"

definition scalar :: "nat \<Rightarrow> bool" where
  "scalar c \<longleftrightarrow> c < 0xD800 \<or> 0xE000 \<le> c \<and> c < 0x110000"

fun split_on :: "'a \<Rightarrow> 'a list \<Rightarrow> 'a list list" where
  "split_on d [] = [[]]"
| "split_on d (c # cs) =
     (if c = d then [] # split_on d cs
      else case split_on d cs of [] \<Rightarrow> [[c]] | p # ps \<Rightarrow> (c # p) # ps)"

fun join_with :: "'a \<Rightarrow> 'a list list \<Rightarrow> 'a list" where
  "join_with d [] = []"
| "join_with d [p] = p"
| "join_with d (p # ps) = p @ d # join_with d ps"

lemma split_on_not_Nil [simp]: "split_on d s \<noteq> []"
  by (induction s) (auto split: list.splits)

lemma split_on_absent [simp]: "d \<notin> set p \<Longrightarrow> split_on d p = [p]"
  by (induction p) auto

lemma split_on_append [simp]: "d \<notin> set p \<Longrightarrow> split_on d (p @ d # s) = p # split_on d s"
  by (induction p) auto

lemma split_on_join: "ps \<noteq> [] \<Longrightarrow> \<forall>p \<in> set ps. d \<notin> set p \<Longrightarrow> split_on d (join_with d ps) = ps"
  by (induction d ps rule: join_with.induct) auto

text \<open>White space and line ends of the language.\<close>

definition js_space :: "nat \<Rightarrow> bool" where
  "js_space c \<longleftrightarrow> c \<in> {9, 10, 11, 12, 13, 32, 0xA0, 0x1680, 0x2028, 0x2029, 0x202F, 0x205F, 0x3000, 0xFEFF} \<or>
     0x2000 \<le> c \<and> c \<le> 0x200A"

definition trim :: "jsstr \<Rightarrow> jsstr" where
  "trim s = rev (dropWhile js_space (rev (dropWhile js_space s)))"

section \<open>URI components\<close>

text \<open>The UTF-8 bytes of a code point.\<close>

definition utf8 :: "nat \<Rightarrow> nat list" where
  "utf8 c =
     (if c < 0x80 then [c]
      else if c < 0x800 then [0xC0 + c div 64, 0x80 + c mod 64]
      else if c < 0x10000 then [0xE0 + c div 64 div 64, 0x80 + c div 64 mod 64, 0x80 + c mod 64]
      else [0xF0 + c div 64 div 64 div 64, 0x80 + c div 64 div 64 mod 64, 0x80 + c div 64 mod 64, 0x80 + c mod 64])"

definition hex_digit :: "nat \<Rightarrow> nat" where
  "hex_digit n = (if n < 10 then 48 + n else 55 + n)"

definition hex_value :: "nat \<Rightarrow> nat option" where
  "hex_value c = (if 48 \<le> c \<and> c < 58 then Some (c - 48) else if 65 \<le> c \<and> c < 71 then Some (c - 55)
     else if 97 \<le> c \<and> c < 103 then Some (c - 87) else None)"

definition pct :: "nat \<Rightarrow> jsstr" where
  "pct b = [37, hex_digit (b div 16), hex_digit (b mod 16)]"

definition unreserved :: "nat \<Rightarrow> bool" where
  "unreserved c \<longleftrightarrow> 65 \<le> c \<and> c \<le> 90 \<or> 97 \<le> c \<and> c \<le> 122 \<or> 48 \<le> c \<and> c \<le> 57 \<or> c \<in> set (js ''-_.!~*'()'')"

text \<open>\<open>encodeURIComponent\<close>; a lone surrogate is a \<open>URIError\<close>.\<close>

fun encodeURIComponent :: "jsstr \<Rightarrow> jsstr option" where
  "encodeURIComponent [] = Some []"
| "encodeURIComponent (c # cs) =
     (case encodeURIComponent cs of None \<Rightarrow> None
      | Some r \<Rightarrow> if unreserved c then Some (c # r)
          else if scalar c then Some (concat (map pct (utf8 c)) @ r) else None)"

text \<open>One escape \<open>%XX\<close>, and the continuation bytes of a character.\<close>

fun take_pct :: "jsstr \<Rightarrow> (nat \<times> jsstr) option" where
  "take_pct (p # h # l # s) =
     (if p = 37 then (case (hex_value h, hex_value l) of (Some a, Some b) \<Rightarrow> Some (16 * a + b, s) | _ \<Rightarrow> None)
      else None)"
| "take_pct _ = None"

fun take_cont :: "nat \<Rightarrow> nat \<Rightarrow> jsstr \<Rightarrow> (nat \<times> jsstr) option" where
  "take_cont 0 acc s = Some (acc, s)"
| "take_cont (Suc n) acc s =
     (case take_pct s of None \<Rightarrow> None
      | Some (b, s) \<Rightarrow> if 0x80 \<le> b \<and> b < 0xC0 then take_cont n (64 * acc + (b - 0x80)) s else None)"

text \<open>The character after its first byte: overlong forms, surrogates and large values are errors.\<close>

definition take_char :: "nat \<Rightarrow> jsstr \<Rightarrow> (nat \<times> jsstr) option" where
  "take_char b s =
     (if b < 0x80 then Some (b, s)
      else case (if b < 0xC0 then None
             else if b < 0xE0 then map_option (\<lambda>r. (0x80, r)) (take_cont 1 (b - 0xC0) s)
             else if b < 0xF0 then map_option (\<lambda>r. (0x800, r)) (take_cont 2 (b - 0xE0) s)
             else if b < 0xF8 then map_option (\<lambda>r. (0x10000, r)) (take_cont 3 (b - 0xF0) s) else None) of
        None \<Rightarrow> None
      | Some (least, c, r) \<Rightarrow> if least \<le> c \<and> scalar c then Some (c, r) else None)"

lemma take_pct_length: "take_pct s = Some (b, r) \<Longrightarrow> length r < length s"
  by (induction s rule: take_pct.induct) (auto split: if_splits option.splits)

lemma take_cont_length: "take_cont n acc s = Some (c, r) \<Longrightarrow> length r \<le> length s"
proof (induction n arbitrary: acc s)
  case (Suc n)
  then obtain b s' where b: "take_pct s = Some (b, s')" "take_cont n (64 * acc + (b - 0x80)) s' = Some (c, r)"
    by (auto split: option.splits if_splits)
  from Suc.IH [OF b(2)] take_pct_length [OF b(1)] show ?case by simp
qed simp

lemma take_char_length: "take_char b s = Some (c, r) \<Longrightarrow> length r \<le> length s"
  by (auto simp: take_char_def simp del: take_cont.simps split: if_splits option.splits dest!: take_cont_length)

function decodeURIComponent :: "jsstr \<Rightarrow> jsstr option" where
  "decodeURIComponent [] = Some []"
| "decodeURIComponent (c # cs) =
     (if c = 37
      then (case take_pct (c # cs) of None \<Rightarrow> None
        | Some (b, s) \<Rightarrow>
           (case take_char b s of None \<Rightarrow> None
            | Some (ch, r) \<Rightarrow> map_option ((#) ch) (decodeURIComponent r)))
      else map_option ((#) c) (decodeURIComponent cs))"
  by pat_completeness auto

termination
proof (relation "measure length")
  fix c :: nat and cs and x y z xa ya r
  assume "take_pct (c # cs) = Some x" "(y, z) = x" "take_char y z = Some xa" "(ya, r) = xa"
  then have "take_pct (c # cs) = Some (y, z)" "take_char y z = Some (ya, r)" by simp_all
  from take_pct_length [OF this(1)] take_char_length [OF this(2)]
  show "(r, c # cs) \<in> measure length" by simp
qed simp_all

section \<open>Decoding what was encoded\<close>

lemma hex_value_digit [simp]: "n < 16 \<Longrightarrow> hex_value (hex_digit n) = Some n"
  by (auto simp: hex_value_def hex_digit_def)

lemma take_pct_pct [simp]: "b < 256 \<Longrightarrow> take_pct (pct b @ s) = Some (b, s)"
  by (simp add: pct_def)

lemma take_cont_pct: "x < 64 \<Longrightarrow> take_cont (Suc n) acc (pct (0x80 + x) @ s) = take_cont n (64 * acc + x) s"
  by simp

lemma base64: "64 * (c div 64) + c mod 64 = (c :: nat)"
  by (rule mult_div_mod_eq)

text \<open>The bytes of a scalar value are read back as that value.\<close>

lemma take_char_utf8:
  assumes "scalar c"
  shows "\<exists>b bs. utf8 c = b # bs \<and> b < 256 \<and> take_char b (concat (map pct bs) @ s) = Some (c, s)"
proof -
  consider "c < 0x80" | "0x80 \<le> c" "c < 0x800" | "0x800 \<le> c" "c < 0x10000" | "0x10000 \<le> c" "c < 0x110000"
    using assms by (fastforce simp: scalar_def)
  then show ?thesis
  proof cases
    case 1
    then show ?thesis by (simp add: utf8_def take_char_def)
  next
    case 2
    then have "c div 64 < 32" by (simp add: less_mult_imp_div_less)
    then show ?thesis using 2 assms
      by (simp add: utf8_def take_char_def take_cont_pct [of _ 0, simplified] base64 del: take_pct.simps)
  next
    case 3
    then have "c div 64 div 64 < 16" by (simp add: less_mult_imp_div_less div_mult2_eq [symmetric])
    then show ?thesis using 3 assms
      by (simp add: utf8_def take_char_def numeral_2_eq_2 take_cont_pct base64 del: take_pct.simps take_cont.simps(2))
  next
    case 4
    then have "c div 64 div 64 div 64 < 5" by (simp add: less_mult_imp_div_less div_mult2_eq [symmetric])
    then show ?thesis using 4 assms
      by (simp add: utf8_def take_char_def numeral_3_eq_3 take_cont_pct base64 del: take_pct.simps take_cont.simps(2))
  qed
qed


lemma encode_ascii: "unreserved c \<Longrightarrow> c < 0x80 \<and> c \<noteq> 37 \<and> c \<noteq> 38 \<and> c \<noteq> 61"
  by (auto simp: unreserved_def js_def)

lemma hex_digit_plain: "hex_digit n \<noteq> 38 \<and> hex_digit n \<noteq> 61"
  by (auto simp: hex_digit_def)

lemma encode_plain:
  "encodeURIComponent s = Some e \<Longrightarrow> 38 \<notin> set e \<and> 61 \<notin> set e"
proof (induction s arbitrary: e)
  case (Cons c cs)
  then show ?case
    using hex_digit_plain by (auto simp: pct_def dest: encode_ascii split: option.splits if_splits)
qed simp

lemma encode_scalar: "list_all scalar s \<Longrightarrow> encodeURIComponent s \<noteq> None"
  by (induction s) (auto split: option.splits)

lemma decode_pct_char:
  assumes "scalar c"
  shows "decodeURIComponent (concat (map pct (utf8 c)) @ r) = map_option ((#) c) (decodeURIComponent r)"
proof -
  obtain b bs where b: "utf8 c = b # bs" "b < 256" "take_char b (concat (map pct bs) @ r) = Some (c, r)"
    using take_char_utf8 [OF assms] by blast
  have "concat (map pct (utf8 c)) @ r = 37 # hex_digit (b div 16) # hex_digit (b mod 16) # concat (map pct bs) @ r"
    by (simp add: b(1) pct_def)
  moreover have "take_pct (37 # hex_digit (b div 16) # hex_digit (b mod 16) # concat (map pct bs) @ r) =
      Some (b, concat (map pct bs) @ r)"
    using take_pct_pct [OF b(2), of "concat (map pct bs) @ r"] by (simp add: pct_def)
  ultimately show ?thesis using b(3) by (simp del: take_pct.simps)
qed

lemma decode_encode: "encodeURIComponent s = Some e \<Longrightarrow> decodeURIComponent (e @ r) = map_option ((@) s) (decodeURIComponent r)"
proof (induction s arbitrary: e)
  case Nil
  then show ?case by (simp add: option.map_id [unfolded id_def])
next
  case (Cons c cs)
  then obtain e' where e': "encodeURIComponent cs = Some e'" by (auto split: option.splits)
  note IH = Cons.IH [OF e']
  show ?case
  proof (cases "unreserved c")
    case True
    with Cons.prems e' have "e = c # e'" by simp
    with IH encode_ascii [OF True] show ?thesis by (simp add: option.map_comp comp_def)
  next
    case False
    with Cons.prems e' have "scalar c" "e = concat (map pct (utf8 c)) @ e'" by (auto split: if_splits)
    with IH decode_pct_char [of c "e' @ r"] show ?thesis by (simp add: option.map_comp comp_def)
  qed
qed

lemma decode_encode_all [simp]: "encodeURIComponent s = Some e \<Longrightarrow> decodeURIComponent e = Some s"
  using decode_encode [of s e "[]"] by simp

end
