(* ===== verification/Ui_Search.thy ===== *)
theory Ui_Search
  imports Ui_Strings
begin

text \<open>
  The query string of the page (\<open>parseSearch\<close>, \<open>serializeSearch\<close>) and the top bar that stores
  the selected definition in it, as they are in \<open>swagger-ui-standalone-preset.js\<close>. The file is one
  line of minified code: a definition here translates the function it is named after (\<open>b\<close> and
  \<open>N\<close> in the bundle, and the methods of the class \<open>A\<close>).
\<close>

section \<open>Objects\<close>

text \<open>
  An object is the list of its own properties in the order of the language: array indices first,
  ascending, then the others in order of creation. The values of \<open>obj\<close> are strings. Assigning a string to \<open>__proto__\<close> has no effect.
\<close>

type_synonym obj = "(jsstr \<times> jsstr) list"

definition numeral_value :: "jsstr \<Rightarrow> nat" where
  "numeral_value k = foldl (\<lambda>n c. 10 * n + (c - 48)) 0 k"

definition is_index :: "jsstr \<Rightarrow> bool" where
  "is_index k \<longleftrightarrow> k \<noteq> [] \<and> list_all (\<lambda>c. 48 \<le> c \<and> c < 58) k \<and> (hd k \<noteq> 48 \<or> k = [48]) \<and>
     numeral_value k < 2 ^ 32 - 1"

definition key_before :: "jsstr \<Rightarrow> jsstr \<Rightarrow> bool" where
  "key_before k k' \<longleftrightarrow> is_index k \<and> (\<not> is_index k' \<or> numeral_value k < numeral_value k')"

definition obj_get :: "(jsstr \<times> 'v) list \<Rightarrow> jsstr \<Rightarrow> 'v option" where
  "obj_get ob k = map_of ob k"

definition obj_put :: "jsstr \<Rightarrow> 'v \<Rightarrow> (jsstr \<times> 'v) list \<Rightarrow> (jsstr \<times> 'v) list" where
  "obj_put k v ob =
     (if k \<in> fst ` set ob then map (\<lambda>(k', v'). (k', if k' = k then v else v')) ob
      else (let (smaller, larger) = (takeWhile (\<lambda>p. \<not> key_before k (fst p)) ob, dropWhile (\<lambda>p. \<not> key_before k (fst p)) ob)
            in smaller @ (k, v) # larger))"

definition proto :: jsstr where "proto = js ''__proto__''"

definition obj_set :: "jsstr \<Rightarrow> jsstr \<Rightarrow> obj \<Rightarrow> obj" where
  "obj_set k v ob = (if k = proto then ob else obj_put k v ob)"

section \<open>The query string\<close>

text \<open>\<open>None\<close> is the \<open>URIError\<close> of a malformed escape or of a lone surrogate.\<close>

definition search_pair :: "jsstr \<Rightarrow> (jsstr \<times> jsstr) option" where
  "search_pair param =
     (let r = split_on 61 param in
      case decodeURIComponent (hd r) of None \<Rightarrow> None
      | Some k \<Rightarrow> (if tl r = [] \<or> r ! 1 = [] then Some (k, []) else map_option (Pair k) (decodeURIComponent (r ! 1))))"

fun search_pairs :: "jsstr list \<Rightarrow> obj \<Rightarrow> obj option" where
  "search_pairs [] ob = Some ob"
| "search_pairs (p # ps) ob = (case search_pair p of None \<Rightarrow> None | Some (k, v) \<Rightarrow> search_pairs ps (obj_set k v ob))"

definition parseSearch :: "jsstr \<Rightarrow> obj option" where
  "parseSearch search = (if search = [] then Some [] else search_pairs (split_on 38 (drop 1 search)) [])"

definition serialize_pair :: "jsstr \<times> jsstr \<Rightarrow> jsstr option" where
  "serialize_pair p = (case (encodeURIComponent (fst p), encodeURIComponent (snd p)) of
     (Some k, Some v) \<Rightarrow> Some (k @ 61 # v) | _ \<Rightarrow> None)"

definition serializeSearch :: "obj \<Rightarrow> jsstr option" where
  "serializeSearch searchMap =
     (if list_all (\<lambda>p. serialize_pair p \<noteq> None) searchMap
      then Some (join_with 38 (map (\<lambda>p. the (serialize_pair p)) searchMap)) else None)"

section \<open>The top bar\<close>

text \<open>A definition offered in the list: its URL and its name.\<close>

record spec =
  spUrl :: jsstr
  spName :: jsstr

definition primary_name :: jsstr where "primary_name = js ''urls.primaryName''"

text \<open>The search part of the URL that replaces the current one.\<close>

definition setSearch :: "spec \<Rightarrow> jsstr \<Rightarrow> jsstr option" where
  "setSearch s search =
     (case parseSearch search of None \<Rightarrow> None
      | Some ob \<Rightarrow> map_option ((#) 63) (serializeSearch (obj_set primary_name (spName s) ob)))"

text \<open>The state: the selected index and the search part of the location.\<close>

fun select_each :: "nat \<Rightarrow> spec list \<Rightarrow> jsstr \<Rightarrow> nat \<times> jsstr \<Rightarrow> (nat \<times> jsstr) option" where
  "select_each i [] selectedUrl st = Some st"
| "select_each i (s # ss) selectedUrl (selectedIndex, search) =
     (if spUrl s = selectedUrl
      then (case setSearch s search of None \<Rightarrow> None
            | Some search \<Rightarrow> select_each (Suc i) ss selectedUrl (i, search))
      else select_each (Suc i) ss selectedUrl (selectedIndex, search))"

definition setSelectedUrl :: "spec list \<Rightarrow> jsstr \<Rightarrow> nat \<times> jsstr \<Rightarrow> (nat \<times> jsstr) option" where
  "setSelectedUrl urls selectedUrl st =
     (if urls = [] \<or> selectedUrl = [] then Some st else select_each 0 urls selectedUrl st)"

text \<open>
  \<open>componentDidMount\<close>: the index it selects and the URL it loads. \<open>None\<close> without a list; an index
  outside the list would be a type error, also \<open>None\<close>. An absent name is the empty string.
\<close>

fun match_name :: "nat \<Rightarrow> spec list \<Rightarrow> jsstr \<Rightarrow> nat \<Rightarrow> nat" where
  "match_name i [] primaryName target = target"
| "match_name i (s # ss) primaryName target =
     match_name (Suc i) ss primaryName (if spName s = primaryName then i else target)"

definition componentDidMount :: "spec list \<Rightarrow> jsstr \<Rightarrow> nat \<Rightarrow> (nat \<times> jsstr) option" where
  "componentDidMount urls primaryName selectedIndex =
     (let target = (if primaryName = [] then selectedIndex else match_name 0 urls primaryName selectedIndex) in
      if target < length urls then Some (target, spUrl (urls ! target)) else None)"

section \<open>Properties of objects\<close>

lemma map_of_replace:
  "map_of (map (\<lambda>(k', v'). (k', if k' = k then v else v')) ob) j =
     (if j = k then map_option (\<lambda>_. v) (map_of ob k) else map_of ob j)"
  by (induction ob) auto

lemma obj_get_put [simp]: "obj_get (obj_put k v ob) j = (if j = k then Some v else obj_get ob j)"
proof (cases "k \<in> fst ` set ob")
  case True
  then have "map_of ob k \<noteq> None" by (simp add: map_of_eq_None_iff)
  with True show ?thesis by (auto simp: obj_put_def obj_get_def map_of_replace)
next
  case False
  let ?P = "\<lambda>p. \<not> key_before k (fst p)"
  have ob: "map_of ob j = map_of (takeWhile ?P ob @ dropWhile ?P ob) j" by simp
  have "map_of (takeWhile ?P ob) k = None" "map_of (dropWhile ?P ob) k = None"
    using False by (auto simp: map_of_eq_None_iff dest: set_takeWhileD set_dropWhileD)
  then show ?thesis
    using False ob
    by (auto simp: obj_get_def obj_put_def Let_def map_add_def simp del: takeWhile_dropWhile_id split: option.splits)
qed

lemma obj_get_set [simp]: "obj_get (obj_set k v ob) j = (if j = k \<and> k \<noteq> proto then Some v else obj_get ob j)"
  by (auto simp: obj_set_def)

lemma obj_put_keys: "fst ` set (obj_put k v ob) = insert k (fst ` set ob)"
proof -
  have "j \<in> fst ` set (obj_put k v ob) \<longleftrightarrow> j = k \<or> j \<in> fst ` set ob" for j
    using obj_get_put [of k v ob j] map_of_eq_None_iff [of ob j] map_of_eq_None_iff [of "obj_put k v ob" j]
    unfolding obj_get_def by (cases "j = k") simp_all
  then show ?thesis by auto
qed

lemma obj_put_distinct: "distinct (map fst ob) \<Longrightarrow> distinct (map fst (obj_put k v ob))"
proof (cases "k \<in> fst ` set ob")
  case True
  have "map fst (map (\<lambda>(k', v'). (k', if k' = k then v else v')) ob) = map fst ob" by (induction ob) auto
  then show "distinct (map fst ob) \<Longrightarrow> ?thesis" using True by (simp add: obj_put_def del: map_map)
next
  case False
  let ?P = "\<lambda>p. \<not> key_before k (fst p)"
  assume d: "distinct (map fst ob)"
  have "distinct (map fst (takeWhile ?P ob @ dropWhile ?P ob))" using d by simp
  moreover have "k \<notin> fst ` set (takeWhile ?P ob)" "k \<notin> fst ` set (dropWhile ?P ob)"
    using False by (auto dest: set_takeWhileD set_dropWhileD)
  ultimately show ?thesis using False by (auto simp: obj_put_def Let_def simp del: takeWhile_dropWhile_id)
qed

text \<open>Objects as the page builds them: distinct names, well-formed strings.\<close>

definition obj_ok :: "obj \<Rightarrow> bool" where
  "obj_ok ob \<longleftrightarrow> distinct (map fst ob) \<and> proto \<notin> fst ` set ob \<and> (\<forall>(k, v) \<in> set ob. list_all scalar k \<and> list_all scalar v)"

lemma obj_set_ok:
  assumes "obj_ok ob" "list_all scalar k" "list_all scalar v"
  shows "obj_ok (obj_set k v ob)"
proof (cases "k = proto")
  case False
  have "distinct (map fst (obj_put k v ob))" using assms(1) by (simp add: obj_ok_def obj_put_distinct)
  moreover have "proto \<notin> fst ` set (obj_put k v ob)" using assms(1) False by (simp add: obj_put_keys obj_ok_def)
  moreover have "list_all scalar a \<and> list_all scalar b" if "(a, b) \<in> set (obj_put k v ob)" for a b
    using that assms by (auto simp: obj_put_def obj_ok_def Let_def split: if_splits dest!: set_takeWhileD set_dropWhileD)
  ultimately show ?thesis using False by (auto simp: obj_set_def obj_ok_def)
qed (use assms in \<open>simp add: obj_set_def\<close>)

section \<open>Round trip of the query string\<close>

lemma serialize_pair_total: "list_all scalar (fst p) \<Longrightarrow> list_all scalar (snd p) \<Longrightarrow> serialize_pair p \<noteq> None"
  using encode_scalar [of "fst p"] encode_scalar [of "snd p"] by (auto simp: serialize_pair_def split: option.splits)

lemma search_serialize_pair:
  assumes "serialize_pair p = Some s"
  shows "search_pair s = Some p" "38 \<notin> set s"
proof -
  from assms obtain k v where kv: "encodeURIComponent (fst p) = Some k" "encodeURIComponent (snd p) = Some v" "s = k @ 61 # v"
    by (auto simp: serialize_pair_def split: option.splits)
  have "split_on 61 s = [k, v]" using encode_plain [OF kv(1)] encode_plain [OF kv(2)] kv(3) by simp
  moreover have "v = [] \<Longrightarrow> snd p = []" using decode_encode_all [OF kv(2)] by simp
  ultimately show "search_pair s = Some p" using kv(1,2) by (cases p) (auto simp: search_pair_def)
  show "38 \<notin> set s" using encode_plain [OF kv(1)] encode_plain [OF kv(2)] kv(3) by simp
qed

lemma search_pairs_serialized:
  "list_all (\<lambda>p. serialize_pair p \<noteq> None) ps \<Longrightarrow>
     search_pairs (map (\<lambda>p. the (serialize_pair p)) ps) ob = Some (fold (\<lambda>(k, v). obj_set k v) ps ob)"
  by (induction ps arbitrary: ob) (auto simp: search_serialize_pair)

lemma fold_obj_set_get:
  "distinct (map fst ps) \<Longrightarrow> proto \<notin> fst ` set ps \<Longrightarrow>
     obj_get (fold (\<lambda>(k, v). obj_set k v) ps ob) j = (if j \<in> fst ` set ps then map_of ps j else obj_get ob j)"
proof (induction ps arbitrary: ob)
  case (Cons p ps)
  obtain k v where p: "p = (k, v)" by (cases p)
  show ?case using Cons.prems Cons.IH [of "obj_set k v ob"] by (auto simp: p)
qed simp

lemma parse_serialize:
  assumes ob: "obj_ok ob" "ob \<noteq> []"
  shows "\<exists>q ob'. serializeSearch ob = Some q \<and> parseSearch (63 # q) = Some ob' \<and> obj_get ob' = obj_get ob"
proof -
  have ser: "list_all (\<lambda>p. serialize_pair p \<noteq> None) ob"
    unfolding list_all_iff
  proof
    fix p
    assume "p \<in> set ob"
    then have "list_all scalar (fst p)" "list_all scalar (snd p)" using ob(1) by (auto simp: obj_ok_def)
    then show "serialize_pair p \<noteq> None" by (rule serialize_pair_total)
  qed
  let ?ps = "map (\<lambda>p. the (serialize_pair p)) ob"
  have "split_on 38 (join_with 38 ?ps) = ?ps"
  proof (rule split_on_join)
    show "\<forall>p \<in> set ?ps. 38 \<notin> set p"
      using ser search_serialize_pair(2) by (auto simp: list_all_iff)
  qed (use ob(2) in simp)
  then have "parseSearch (63 # join_with 38 ?ps) = Some (fold (\<lambda>(k, v). obj_set k v) ob [])"
    using search_pairs_serialized [OF ser] by (simp add: parseSearch_def)
  moreover have "obj_get (fold (\<lambda>(k, v). obj_set k v) ob []) = obj_get ob"
  proof
    fix j
    show "obj_get (fold (\<lambda>(k, v). obj_set k v) ob []) j = obj_get ob j"
      using fold_obj_set_get [of ob "[]" j] ob(1) map_of_eq_None_iff [of ob j]
      by (cases "j \<in> fst ` set ob") (simp_all add: obj_ok_def obj_get_def)
  qed
  ultimately show ?thesis using ser by (auto simp: serializeSearch_def)
qed


text \<open>
  C34: a query string written from an object is read back as the same object: no name and no
  value is lost or mixed with another, whatever characters they have.
\<close>

theorem parseSearch_serializeSearch:
  assumes "obj_ok ob" "ob \<noteq> []"
  shows "\<exists>q ob'. serializeSearch ob = Some q \<and> parseSearch (63 # q) = Some ob' \<and> obj_get ob' = obj_get ob"
  by (rule parse_serialize [OF assms])

theorem parseSearch_serializeSearch_witness:
  "\<exists>q ob'. serializeSearch [(js ''a&b'', js ''x=1 '' @ [0x20AC]), (js ''c'', [])] = Some q \<and>
     parseSearch (63 # q) = Some ob' \<and> obj_get ob' (js ''a&b'') = Some (js ''x=1 '' @ [0x20AC])"
proof -
  have "obj_ok [(js ''a&b'', js ''x=1 '' @ [0x20AC]), (js ''c'', [])]"
    by (simp add: obj_ok_def js_def proto_def scalar_def)
  from parseSearch_serializeSearch [OF this] obtain q ob' where
    "serializeSearch [(js ''a&b'', js ''x=1 '' @ [0x20AC]), (js ''c'', [])] = Some q" "parseSearch (63 # q) = Some ob'"
    and get: "obj_get ob' = obj_get [(js ''a&b'', js ''x=1 '' @ [0x20AC]), (js ''c'', [])]"
    by blast
  moreover have "obj_get ob' (js ''a&b'') = Some (js ''x=1 '' @ [0x20AC])" unfolding get by (simp add: obj_get_def)
  ultimately show ?thesis by blast
qed

section \<open>The selected definition survives a reload\<close>

lemma scalar_ascii: "c < 0x80 \<Longrightarrow> scalar c"
  by (simp add: scalar_def)

lemma js_scalar: "list_all (\<lambda>c. of_char c < (0x80 :: nat)) s \<Longrightarrow> list_all scalar (js s)"
  by (auto simp: js_def list_all_iff scalar_def)

lemma take_char_scalar: "take_char b s = Some (c, r) \<Longrightarrow> scalar c"
  by (auto simp: take_char_def scalar_ascii simp del: take_cont.simps split: if_splits option.splits)

lemma take_pct_sub: "take_pct s = Some (b, r) \<Longrightarrow> set r \<subseteq> set s"
  by (induction s rule: take_pct.induct) (auto split: if_splits option.splits)

lemma take_cont_sub: "take_cont n acc s = Some (c, r) \<Longrightarrow> set r \<subseteq> set s"
proof (induction n arbitrary: acc s)
  case (Suc n)
  then obtain b s' where b: "take_pct s = Some (b, s')" "take_cont n (64 * acc + (b - 0x80)) s' = Some (c, r)"
    by (auto split: option.splits if_splits)
  from Suc.IH [OF b(2)] take_pct_sub [OF b(1)] show ?case by simp
qed simp

lemma take_char_sub: "take_char b s = Some (c, r) \<Longrightarrow> set r \<subseteq> set s"
  by (auto simp: take_char_def simp del: take_cont.simps split: if_splits option.splits dest!: take_cont_sub)

lemma decode_scalar: "decodeURIComponent s = Some r \<Longrightarrow> list_all scalar s \<Longrightarrow> list_all scalar r"
proof (induction s arbitrary: r rule: decodeURIComponent.induct)
  case (2 c cs)
  show ?case
  proof (cases "c = 37")
    case True
    with "2.prems" obtain b s' ch t r' where steps: "take_pct (c # cs) = Some (b, s')" "take_char b s' = Some (ch, t)"
        "decodeURIComponent t = Some r'" "r = ch # r'"
      by (auto split: option.splits simp del: take_pct.simps)
    have "list_all scalar t"
      using "2.prems"(2) take_pct_sub [OF steps(1)] take_char_sub [OF steps(2)] by (auto simp: list_all_iff)
    with "2.IH"(1) [OF True steps(1) refl steps(2) refl steps(3)] show ?thesis
      using take_char_scalar [OF steps(2)] steps(4) by simp
  next
    case False
    with "2.prems" "2.IH"(2) show ?thesis by auto
  qed
qed simp


lemma split_on_scalar: "list_all scalar s \<Longrightarrow> q \<in> set (split_on d s) \<Longrightarrow> list_all scalar q"
proof (induction s arbitrary: q)
  case (Cons c cs)
  then show ?case by (cases "split_on d cs") (auto split: if_splits)
qed simp

lemma search_pair_scalar:
  assumes "search_pair p = Some (k, v)" "list_all scalar p"
  shows "list_all scalar k \<and> list_all scalar v"
proof -
  let ?r = "split_on 61 p"
  have hd: "list_all scalar (hd ?r)" by (rule split_on_scalar [OF assms(2), where d = 61]) simp
  have snd: "list_all scalar (?r ! 1)" if "tl ?r \<noteq> []"
  proof (rule split_on_scalar [OF assms(2), where d = 61])
    have "1 < length ?r" using that by (cases ?r) (auto simp: neq_Nil_conv)
    then show "?r ! 1 \<in> set ?r" by simp
  qed
  from assms(1) hd snd show ?thesis
    by (auto simp: search_pair_def Let_def split: option.splits if_splits dest: decode_scalar)
qed

lemma search_pairs_ok:
  "search_pairs ps ob = Some ob' \<Longrightarrow> obj_ok ob \<Longrightarrow> \<forall>p \<in> set ps. list_all scalar p \<Longrightarrow> obj_ok ob'"
proof (induction ps arbitrary: ob)
  case (Cons p ps)
  then obtain k v where kv: "search_pair p = Some (k, v)" "search_pairs ps (obj_set k v ob) = Some ob'"
    by (auto split: option.splits)
  have "obj_ok (obj_set k v ob)"
    using search_pair_scalar [OF kv(1)] Cons.prems by (auto intro: obj_set_ok)
  with Cons.IH [OF kv(2)] Cons.prems show ?case by simp
qed simp

lemma parseSearch_ok:
  assumes "parseSearch s = Some ob" "list_all scalar s"
  shows "obj_ok ob"
proof (cases "s = []")
  case False
  have d: "list_all scalar (drop 1 s)" using assms(2) by (auto simp: list_all_iff dest: in_set_dropD)
  have "obj_ok []" by (simp add: obj_ok_def)
  moreover have "\<forall>p \<in> set (split_on 38 (drop 1 s)). list_all scalar p" using split_on_scalar [OF d] by blast
  ultimately show ?thesis using search_pairs_ok assms(1) False by (simp add: parseSearch_def)
qed (use assms in \<open>simp add: parseSearch_def obj_ok_def\<close>)

lemma primary_name_scalar [simp]: "list_all scalar primary_name" "primary_name \<noteq> proto"
  by (simp_all add: primary_name_def proto_def js_def scalar_def)

lemma setSearch_stored:
  assumes "parseSearch search = Some ob" "list_all scalar search" "list_all scalar (spName s)"
  shows "\<exists>search' ob'. setSearch s search = Some search' \<and> parseSearch search' = Some ob' \<and>
    obj_get ob' primary_name = Some (spName s) \<and> (\<forall>k. k \<noteq> primary_name \<longrightarrow> obj_get ob' k = obj_get ob k)"
proof -
  let ?o = "obj_set primary_name (spName s) ob"
  have ok: "obj_ok ?o" using assms by (intro obj_set_ok parseSearch_ok) simp_all
  have "obj_get ?o primary_name = Some (spName s)" by simp
  then have "?o \<noteq> []" by (auto simp: obj_get_def)
  from parse_serialize [OF ok this] obtain q ob' where
    "serializeSearch ?o = Some q" "parseSearch (63 # q) = Some ob'" "obj_get ob' = obj_get ?o" by blast
  with assms(1) show ?thesis by (auto simp: setSearch_def)
qed

lemma select_each_unique:
  assumes "distinct (map spUrl ss)" "i < length ss"
  shows "select_each n ss (spUrl (ss ! i)) (j, search) =
    (case setSearch (ss ! i) search of None \<Rightarrow> None | Some s' \<Rightarrow> Some (n + i, s'))"
  using assms
proof (induction ss arbitrary: n i j search)
  case (Cons s ss)
  show ?case
  proof (cases i)
    case 0
    have "select_each m ss (spUrl s) st = Some st" for m st
    proof -
      have "spUrl s \<notin> spUrl ` set ss" using Cons.prems by simp
      then show ?thesis by (induction ss arbitrary: m st) (auto split: prod.splits)
    qed
    with 0 show ?thesis by (auto split: option.splits)
  next
    case (Suc i')
    with Cons.prems have i': "i' < length ss" by simp
    then have "spUrl (ss ! i') \<in> spUrl ` set ss" by simp
    with Cons.prems have "spUrl s \<noteq> spUrl (ss ! i')" by auto
    with Cons i' Suc show ?thesis by (simp split: option.splits)
  qed
qed simp

lemma match_name_unique:
  assumes "distinct (map spName ss)" "i < length ss"
  shows "match_name n ss (spName (ss ! i)) t = n + i"
  using assms
proof (induction ss arbitrary: n i t)
  case (Cons s ss)
  have other: "match_name m ss (spName s) t = t" if "spName s \<notin> spName ` set ss" for m t
    using that by (induction ss arbitrary: m t) auto
  show ?case using Cons other by (cases i) auto
qed simp

text \<open>
  C35: choosing an entry of the list of definitions stores its name in the query string and keeps
  the other parameters; a page loaded with that query string selects and loads the same entry.
\<close>

theorem selection_survives_reload:
  assumes "distinct (map spUrl urls)" "distinct (map spName urls)" "i < length urls"
    and "spUrl (urls ! i) \<noteq> []" "spName (urls ! i) \<noteq> []" "list_all scalar (spName (urls ! i))"
    and "parseSearch search = Some ob" "list_all scalar search"
  shows "\<exists>search' ob'. setSelectedUrl urls (spUrl (urls ! i)) (j, search) = Some (i, search') \<and>
    parseSearch search' = Some ob' \<and> (\<forall>k. k \<noteq> primary_name \<longrightarrow> obj_get ob' k = obj_get ob k) \<and>
    (\<exists>nm. obj_get ob' primary_name = Some nm \<and>
      componentDidMount urls nm 0 = Some (i, spUrl (urls ! i)))"
proof -
  obtain search' ob' where s: "setSearch (urls ! i) search = Some search'" "parseSearch search' = Some ob'"
    "obj_get ob' primary_name = Some (spName (urls ! i))" "\<forall>k. k \<noteq> primary_name \<longrightarrow> obj_get ob' k = obj_get ob k"
    using setSearch_stored [OF assms(7,8,6)] by blast
  have "urls \<noteq> []" using assms(3) by auto
  then have "setSelectedUrl urls (spUrl (urls ! i)) (j, search) = Some (i, search')"
    using select_each_unique [OF assms(1,3), of 0 j search] s(1) assms(4) by (simp add: setSelectedUrl_def)
  moreover have "componentDidMount urls (spName (urls ! i)) 0 = Some (i, spUrl (urls ! i))"
    using match_name_unique [OF assms(2,3), of 0 0] assms(3,5) by (simp add: componentDidMount_def)
  ultimately show ?thesis using s by blast
qed

theorem selection_survives_reload_witness:
  "\<exists>search' ob'. setSelectedUrl [\<lparr>spUrl = js ''a.yaml'', spName = js ''A''\<rparr>, \<lparr>spUrl = js ''b.yaml'', spName = js ''B & C''\<rparr>]
      (js ''b.yaml'') (0, js ''?x=%20'') = Some (1, search') \<and>
    parseSearch search' = Some ob' \<and> obj_get ob' (js ''x'') = Some [32]"
proof -
  let ?urls = "[\<lparr>spUrl = js ''a.yaml'', spName = js ''A''\<rparr>, \<lparr>spUrl = js ''b.yaml'', spName = js ''B & C''\<rparr>]"
  have p: "parseSearch (js ''?x=%20'') = Some [(js ''x'', [32])]"
    by (simp add: js_def parseSearch_def search_pair_def hex_value_def take_char_def obj_set_def obj_put_def proto_def)
  have "list_all scalar (js ''?x=%20'')" by (simp add: js_def scalar_def)
  with selection_survives_reload [of ?urls 1, OF _ _ _ _ _ _ p, of 0] show ?thesis
    by (fastforce simp: js_def scalar_def primary_name_def obj_get_def)
qed

end
