(* ===== verification/Ui_Modules.thy ===== *)
theory Ui_Modules
  imports Prelude
begin

text \<open>
  The module loader at the head of \<open>swagger-ui-bundle.js\<close> (the function \<open>n\<close> of the webpack
  bootstrap, on the one line of code of the file). The modules themselves are arbitrary code:
  a tree of steps on the state of the page, of calls of the loader, and of assignments to
  \<open>module.exports\<close>.
\<close>

section \<open>Modules and the cache\<close>

text \<open>
  The continuation of \<open>Require\<close> gets the exports, or \<open>None\<close> when the required module threw: a
  module that does not catch continues with \<open>Throw\<close>.
\<close>

datatype ('e, 's) code =
    Done
  | Throw
  | Step "'s \<Rightarrow> 's" "'s \<Rightarrow> ('e, 's) code"
  | Require nat "'e option \<Rightarrow> ('e, 's) code"
  | SetExports 'e "('e, 's) code"

text \<open>A module object: its flag \<open>l\<close> and its \<open>exports\<close>.\<close>

record 'e module_object =
  moLoaded :: bool
  moExports :: 'e

text \<open>
  \<open>ldRuns\<close> is not in the code: it records which modules were started, to state how often
  that happens.
\<close>

record ('e, 's) loader =
  ldCache :: "nat \<Rightarrow> 'e module_object option"
  ldState :: 's
  ldRuns :: "nat list"

primrec run_module ::
  "(nat \<Rightarrow> ('e, 's) loader \<Rightarrow> ('e option \<times> ('e, 's) loader) option) \<Rightarrow> ('e, 's) code \<Rightarrow> nat \<Rightarrow> ('e, 's) loader \<Rightarrow>
     (bool \<times> ('e, 's) loader) option" where
  "run_module req Done = (\<lambda>i L. Some (True, L))"
| "run_module req Throw = (\<lambda>i L. Some (False, L))"
| "run_module req (Step f k) = (\<lambda>i L. let s = f (ldState L) in run_module req (k s) i (L\<lparr>ldState := s\<rparr>))"
| "run_module req (Require j k) = (\<lambda>i L. case req j L of None \<Rightarrow> None | Some (r, L) \<Rightarrow> run_module req (k r) i L)"
| "run_module req (SetExports e c) = (\<lambda>i L.
     run_module req c i (L\<lparr>ldCache := (ldCache L)(i := map_option (moExports_update (\<lambda>_. e)) (ldCache L i))\<rparr>))"

text \<open>
  The loader. \<open>new\<close> allocates the empty exports object; \<open>mods\<close> is the table of modules, where an
  absent entry is undefined, and calling it throws. The entry is in the cache before the module
  runs, and stays there when it throws. The first argument bounds the depth of the calls.
\<close>

primrec webpack_require ::
  "nat \<Rightarrow> (nat \<Rightarrow> ('e, 's) code option) \<Rightarrow> ('s \<Rightarrow> 'e \<times> 's) \<Rightarrow> nat \<Rightarrow> ('e, 's) loader \<Rightarrow>
     ('e option \<times> ('e, 's) loader) option" where
  "webpack_require 0 mods new r L = None"
| "webpack_require (Suc n) mods new r L =
     (case ldCache L r of
        Some m \<Rightarrow> Some (Some (moExports m), L)
      | None \<Rightarrow>
          let (exports, s) = new (ldState L);
              L = L\<lparr>ldCache := (ldCache L)(r \<mapsto> \<lparr>moLoaded = False, moExports = exports\<rparr>), ldState := s\<rparr> in
          (case mods r of None \<Rightarrow> Some (None, L)
           | Some body \<Rightarrow>
               (case run_module (webpack_require n mods new) body r (L\<lparr>ldRuns := r # ldRuns L\<rparr>) of
                  None \<Rightarrow> None
                | Some (False, L) \<Rightarrow> Some (None, L)
                | Some (True, L) \<Rightarrow>
                    (case ldCache L r of None \<Rightarrow> Some (None, L)
                     | Some m \<Rightarrow> Some (Some (moExports m), L\<lparr>ldCache := (ldCache L)(r \<mapsto> m\<lparr>moLoaded := True\<rparr>)\<rparr>)))))"

section \<open>What every call keeps\<close>

definition grows :: "('e, 's) loader \<Rightarrow> ('e, 's) loader \<Rightarrow> bool" where
  "grows L L' \<longleftrightarrow> dom (ldCache L) \<subseteq> dom (ldCache L')"

definition runs_ok :: "('e, 's) loader \<Rightarrow> bool" where
  "runs_ok L \<longleftrightarrow> distinct (ldRuns L) \<and> set (ldRuns L) \<subseteq> dom (ldCache L)"

definition keeps :: "('e, 's) loader \<Rightarrow> ('e, 's) loader \<Rightarrow> bool" where
  "keeps L L' \<longleftrightarrow> grows L L' \<and> (runs_ok L \<longrightarrow> runs_ok L')"

lemma keeps_refl [simp]: "keeps L L"
  by (simp add: keeps_def grows_def)

lemma keeps_trans: "keeps A B \<Longrightarrow> keeps B C \<Longrightarrow> keeps A C"
  by (auto simp: keeps_def grows_def)

lemma keeps_state [simp]: "keeps L (L\<lparr>ldState := s\<rparr>)"
  by (simp add: keeps_def grows_def runs_ok_def)

lemma keeps_exports [simp]:
  "keeps L (L\<lparr>ldCache := (ldCache L)(i := map_option f (ldCache L i))\<rparr>)"
  by (auto simp: keeps_def grows_def runs_ok_def split: if_splits)

lemma run_module_keeps:
  assumes "\<And>j L r L'. req j L = Some (r, L') \<Longrightarrow> keeps L L'"
  shows "run_module req c i L = Some (b, L') \<Longrightarrow> keeps L L'"
proof (induction c arbitrary: L)
  case (Step f k)
  have "keeps (L\<lparr>ldState := f (ldState L)\<rparr>) L'"
    by (rule Step.IH [OF rangeI]) (use Step.prems in \<open>simp add: Let_def\<close>)
  with keeps_state show ?case by (rule keeps_trans)
next
  case (Require j k)
  then obtain r L1 where r: "req j L = Some (r, L1)" "run_module req (k r) i L1 = Some (b, L')"
    by (auto split: option.splits)
  from assms [OF r(1)] Require.IH [OF rangeI r(2)] show ?case by (rule keeps_trans)
next
  case (SetExports e c)
  have "keeps (L\<lparr>ldCache := (ldCache L)(i := map_option (moExports_update (\<lambda>_. e)) (ldCache L i))\<rparr>) L'"
    by (rule SetExports.IH) (use SetExports.prems in simp)
  with keeps_exports show ?case by (rule keeps_trans)
qed auto

lemma require_keeps: "webpack_require n mods new r L = Some (e, L') \<Longrightarrow> keeps L L'"
proof (induction n arbitrary: r L e L')
  case (Suc n)
  show ?case
  proof (cases "ldCache L r")
    case (Some m)
    with Suc.prems show ?thesis by simp
  next
    case None
    obtain ex s where new: "new (ldState L) = (ex, s)" by force
    let ?L1 = "L\<lparr>ldCache := (ldCache L)(r \<mapsto> \<lparr>moLoaded = False, moExports = ex\<rparr>), ldState := s\<rparr>"
    let ?L2 = "?L1\<lparr>ldRuns := r # ldRuns ?L1\<rparr>"
    have k1: "keeps L ?L1" "keeps L ?L2" using None by (auto simp: keeps_def grows_def runs_ok_def)
    show ?thesis
    proof (cases "mods r")
      case None
      with Suc.prems \<open>ldCache L r = None\<close> new k1 show ?thesis by simp
    next
      case (Some body)
      with Suc.prems None new obtain b L3 where
        run: "run_module (webpack_require n mods new) body r ?L2 = Some (b, L3)"
        by (auto split: option.splits)
      have k3: "keeps L L3"
        by (rule keeps_trans [OF k1(2) run_module_keeps [OF Suc.IH run]])
      have "L' = L3 \<or> (\<exists>m. ldCache L3 r = Some m \<and> L' = L3\<lparr>ldCache := (ldCache L3)(r \<mapsto> m\<lparr>moLoaded := True\<rparr>)\<rparr>)"
        using Suc.prems None new Some run by (auto split: bool.splits option.splits)
      moreover have "keeps L3 (L3\<lparr>ldCache := (ldCache L3)(r \<mapsto> m)\<rparr>)" for m
        by (auto simp: keeps_def grows_def runs_ok_def)
      ultimately show ?thesis using k3 keeps_trans by blast
    qed
  qed
qed simp

section \<open>The loader ends\<close>

definition todo where
  "todo mods L = card (dom mods - dom (ldCache L))"

lemma todo_mono: "finite (dom mods) \<Longrightarrow> keeps L L' \<Longrightarrow> todo mods L' \<le> todo mods L"
  unfolding todo_def keeps_def grows_def by (intro card_mono) auto

lemma run_module_total:
  assumes fin: "finite (dom mods)"
    and req: "\<And>j L. todo mods L < n \<Longrightarrow> req j L \<noteq> None"
    and keeps: "\<And>j L r L'. req j L = Some (r, L') \<Longrightarrow> keeps L L'"
  shows "todo mods L < n \<Longrightarrow> run_module req c i L \<noteq> None"
proof (induction c arbitrary: L)
  case (Step f k)
  have "todo mods (L\<lparr>ldState := f (ldState L)\<rparr>) < n"
    using todo_mono [OF fin keeps_state] Step.prems by (rule le_less_trans)
  from Step.IH [OF rangeI this] show ?case by (simp add: Let_def)
next
  case (Require j k)
  obtain r L' where r: "req j L = Some (r, L')" using req [OF Require.prems, of j] by auto
  have "todo mods L' < n" using todo_mono [OF fin keeps [OF r]] Require.prems by simp
  with Require.IH r show ?case by auto
next
  case (SetExports e c)
  have "todo mods (L\<lparr>ldCache := (ldCache L)(i := map_option (moExports_update (\<lambda>_. e)) (ldCache L i))\<rparr>) < n"
    using todo_mono [OF fin keeps_exports] SetExports.prems by (rule le_less_trans)
  from SetExports.IH [OF this] show ?case by simp
qed auto

lemma require_total:
  assumes fin: "finite (dom mods)"
  shows "todo mods L < n \<Longrightarrow> webpack_require n mods new r L \<noteq> None"
proof (induction n arbitrary: r L)
  case (Suc n)
  obtain ex s where new: "new (ldState L) = (ex, s)" by force
  let ?L1 = "L\<lparr>ldCache := (ldCache L)(r \<mapsto> \<lparr>moLoaded = False, moExports = ex\<rparr>), ldState := s\<rparr>"
  let ?L2 = "?L1\<lparr>ldRuns := r # ldRuns ?L1\<rparr>"
  show ?case
  proof (cases "ldCache L r = None \<and> mods r \<noteq> None")
    case True
    then obtain body where body: "mods r = Some body" by auto
    have "dom mods - dom (ldCache ?L2) \<subset> dom mods - dom (ldCache L)" using True by auto
    then have "todo mods ?L2 < todo mods L"
      unfolding todo_def using fin by (intro psubset_card_mono) auto
    then have "todo mods ?L2 < n" using Suc.prems by simp
    from run_module_total [OF fin _ _ this, of "webpack_require n mods new" body r] Suc.IH require_keeps
    have "run_module (webpack_require n mods new) body r ?L2 \<noteq> None" by blast
    with True body new show ?thesis by (auto split: option.splits bool.splits)
  next
    case False
    with new show ?thesis by (auto split: option.splits)
  qed
qed simp

section \<open>Each module runs once\<close>

definition empty_loader :: "'s \<Rightarrow> ('e, 's) loader" where
  "empty_loader s = \<lparr>ldCache = Map.empty, ldState = s, ldRuns = []\<rparr>"

text \<open>A run of the page: the loader is called for one module after another; a throw is caught outside.\<close>

primrec require_all ::
  "nat \<Rightarrow> (nat \<Rightarrow> ('e, 's) code option) \<Rightarrow> ('s \<Rightarrow> 'e \<times> 's) \<Rightarrow> nat list \<Rightarrow> ('e, 's) loader \<Rightarrow> ('e, 's) loader option" where
  "require_all n mods new [] L = Some L"
| "require_all n mods new (r # rs) L =
     (case webpack_require n mods new r L of None \<Rightarrow> None | Some (e, L) \<Rightarrow> require_all n mods new rs L)"

lemma require_all_keeps: "require_all n mods new rs L = Some L' \<Longrightarrow> keeps L L'"
  by (induction rs arbitrary: L) (auto split: option.splits dest!: require_keeps intro: keeps_trans)

lemma require_all_total:
  assumes fin: "finite (dom mods)"
  shows "todo mods L < n \<Longrightarrow> require_all n mods new rs L \<noteq> None"
proof (induction rs arbitrary: L)
  case (Cons r rs)
  obtain e L' where r: "webpack_require n mods new r L = Some (e, L')"
    using require_total [OF fin Cons.prems, of new r] by (cases "webpack_require n mods new r L") auto
  have "todo mods L' < n" using todo_mono [OF fin require_keeps [OF r]] Cons.prems by simp
  with Cons.IH r show ?case by auto
qed simp

lemma require_cached:
  assumes "webpack_require n mods new r L = Some (x, L')"
  shows "\<exists>m. ldCache L' r = Some m \<and> (x = Some (moExports m) \<or> x = None)"
proof (cases n)
  case (Suc k)
  show ?thesis
  proof (cases "ldCache L r")
    case None
    obtain ex s where new: "new (ldState L) = (ex, s)" by force
    let ?L2 = "L\<lparr>ldCache := (ldCache L)(r \<mapsto> \<lparr>moLoaded = False, moExports = ex\<rparr>), ldState := s, ldRuns := r # ldRuns L\<rparr>"
    show ?thesis
    proof (cases "mods r")
      case (Some body)
      have run: "r \<in> dom (ldCache L1)" if "run_module (webpack_require k mods new) body r ?L2 = Some (b, L1)" for b L1
        using run_module_keeps [OF require_keeps that] by (auto simp: keeps_def grows_def)
      from assms Suc None Some new show ?thesis
        by (auto split: option.splits bool.splits dest!: run)
    qed (use assms Suc None new in auto)
  qed (use assms Suc in auto)
qed (use assms in simp)

text \<open>
  C32: loading modules ends however they require each other, in cycles too, and whether they throw
  or not: calls nest at most as deep as there are modules. Every module is started at most once.
\<close>

theorem modules_load_once:
  assumes "finite (dom mods)" "card (dom mods) < n"
  shows "\<exists>L. require_all n mods new rs (empty_loader s) = Some L \<and> distinct (ldRuns L)"
proof -
  have "todo mods (empty_loader s :: ('a, 'b) loader) < n" using assms by (simp add: todo_def empty_loader_def)
  then obtain L where L: "require_all n mods new rs (empty_loader s) = Some L"
    using require_all_total [OF assms(1)] by blast
  moreover have "runs_ok (empty_loader s :: ('a, 'b) loader)" by (simp add: runs_ok_def empty_loader_def)
  ultimately show ?thesis using require_all_keeps [OF L] by (auto simp: keeps_def runs_ok_def)
qed

text \<open>Two modules that require each other, and a third entry that is missing.\<close>

theorem modules_load_once_witness:
  "\<exists>L. require_all 3 [0 \<mapsto> Require 1 (\<lambda>r. SetExports 10 Done), 1 \<mapsto> Require 0 (\<lambda>r. Require 2 (\<lambda>r. Throw))]
      (\<lambda>s. (s, Suc s)) [0, 1] (empty_loader (0 :: nat)) = Some L \<and> distinct (ldRuns L)"
  by (rule modules_load_once) (simp_all add: card_insert_if)

text \<open>
  A module that was loaded is not run again: the next call gives the same exports and leaves
  the page and the cache as they are. A module that threw is not retried either: its partial
  exports are handed out.
\<close>

theorem required_again_is_same:
  assumes "webpack_require n mods new r L = Some (x, L')"
  shows "\<exists>e. webpack_require (Suc k) mods new r L' = Some (Some e, L') \<and> (x = Some e \<or> x = None)"
  using require_cached [OF assms] by auto

theorem required_again_is_same_witness:
  "\<exists>e. webpack_require 1 [0 \<mapsto> Step Suc (\<lambda>s. SetExports s Throw)] (\<lambda>s. (0, s)) 0
      \<lparr>ldCache = [0 \<mapsto> \<lparr>moLoaded = False, moExports = 8\<rparr>], ldState = 8, ldRuns = [0]\<rparr> =
    Some (Some e, \<lparr>ldCache = [0 \<mapsto> \<lparr>moLoaded = False, moExports = 8\<rparr>], ldState = 8, ldRuns = [0]\<rparr>)"
proof -
  have "webpack_require 1 [0 \<mapsto> Step Suc (\<lambda>s. SetExports s Throw)] (\<lambda>s. (0, s)) 0
      \<lparr>ldCache = Map.empty, ldState = 7, ldRuns = []\<rparr> =
    Some (None, \<lparr>ldCache = [0 \<mapsto> \<lparr>moLoaded = False, moExports = 8 :: nat\<rparr>], ldState = 8, ldRuns = [0]\<rparr>)"
    by (simp add: Let_def)
  from required_again_is_same [OF this, of 0] show ?thesis by simp
qed

end
