(* ===== verification/Ui_References.thy ===== *)
theory Ui_References
  imports Ui_Strings "HOL-Library.Sublist"
begin

text \<open>
  How the bundled client finds circular references of an API definition, as it is in
  \<open>swagger-ui-es-bundle-core.js\<close>: \<open>escapeJsonPointerToken\<close> (\<open>Et\<close> on the one line of code of the
  file), \<open>pointerIsAParent\<close> (\<open>xt\<close>) and \<open>pointerAlreadyInPath\<close> (the function the plugin \<open>ut\<close> of the
  key \<open>$ref\<close> calls). A path is a list of keys; that it is compared as text is what the proofs are
  about.
\<close>

section \<open>JSON pointers\<close>

definition replace_char :: "nat \<Rightarrow> jsstr \<Rightarrow> jsstr \<Rightarrow> jsstr" where
  "replace_char d r s = concat (map (\<lambda>c. if c = d then r else [c]) s)"

text \<open>The value of a parameter as \<open>URLSearchParams\<close> writes it.\<close>

definition form_plain :: "nat \<Rightarrow> bool" where
  "form_plain c \<longleftrightarrow> 65 \<le> c \<and> c \<le> 90 \<or> 97 \<le> c \<and> c \<le> 122 \<or> 48 \<le> c \<and> c \<le> 57 \<or> c \<in> set (js ''*-._'')"

definition form_char :: "nat \<Rightarrow> jsstr" where
  "form_char c = (if c = 32 then [43] else if form_plain c then [c]
     else concat (map pct (utf8 (if scalar c then c else 0xFFFD))))"

definition escapeJsonPointerToken :: "jsstr \<Rightarrow> jsstr" where
  "escapeJsonPointerToken token =
     concat (map form_char (replace_char 47 [126, 49] (replace_char 126 [126, 48] token)))"

definition arrayToJsonPointer :: "jsstr list \<Rightarrow> jsstr" where
  "arrayToJsonPointer arr = (if arr = [] then [] else 47 # join_with 47 (map escapeJsonPointerToken arr))"

definition pointerBoundaryChar :: "jsstr \<Rightarrow> bool" where
  "pointerBoundaryChar c \<longleftrightarrow> c = [] \<or> c = [47] \<or> c = [35]"

definition pointerIsAParent :: "jsstr \<Rightarrow> jsstr \<Rightarrow> bool" where
  "pointerIsAParent pointer parentPointer \<longleftrightarrow>
     pointerBoundaryChar parentPointer \<or>
     (let nextChar = take 1 (drop (length parentPointer) pointer);
          lastParentChar = drop (length parentPointer - 1) parentPointer in
      take (length parentPointer) pointer = parentPointer \<and> pointerBoundaryChar nextChar \<and> lastParentChar \<noteq> [35])"

section \<open>Circular references\<close>

text \<open>The expression \<open>/allOf\/\d+\/?/g\<close>, replaced by nothing.\<close>

definition allOf_slash :: jsstr where "allOf_slash = js ''allOf/''"

definition digit :: "nat \<Rightarrow> bool" where "digit c \<longleftrightarrow> 48 \<le> c \<and> c < 58"

definition after_allOf :: "jsstr \<Rightarrow> jsstr option" where
  "after_allOf s =
     (let r = drop (length allOf_slash) s; t = dropWhile digit r in
      if take (length allOf_slash) s = allOf_slash \<and> takeWhile digit r \<noteq> []
      then Some (if take 1 t = [47] then drop 1 t else t) else None)"

lemma after_allOf_shorter: "after_allOf s = Some t \<Longrightarrow> length t < length s"
proof -
  assume a: "after_allOf s = Some t"
  let ?r = "drop (length allOf_slash) s"
  have r: "takeWhile digit ?r \<noteq> []" "length t \<le> length (dropWhile digit ?r)"
    using a by (auto simp: after_allOf_def Let_def split: if_splits)
  have "length (takeWhile digit ?r) + length (dropWhile digit ?r) = length ?r"
    by (metis length_append takeWhile_dropWhile_id)
  with r show ?thesis by (cases "takeWhile digit ?r") auto
qed

function strip_allOf :: "jsstr \<Rightarrow> jsstr" where
  "strip_allOf s = (case s of [] \<Rightarrow> [] | c # cs \<Rightarrow>
     (case after_allOf s of Some t \<Rightarrow> strip_allOf t | None \<Rightarrow> c # strip_allOf cs))"
  by pat_completeness auto

termination
  by (relation "measure length") (auto dest: after_allOf_shorter)

declare strip_allOf.simps [simp del]

text \<open>The document of a reference; \<open>null\<close> and \<open>undefined\<close> are not \<open>===\<close>.\<close>

datatype doc = Null | Undefined | Doc jsstr

definition base_text :: "doc \<Rightarrow> jsstr" where
  "base_text b = (case b of Doc s \<Rightarrow> if s = [] then js ''<specmap-base>'' else s | _ \<Rightarrow> js ''<specmap-base>'')"

fun cycle_on_path :: "(jsstr \<Rightarrow> jsstr list option) \<Rightarrow> jsstr \<Rightarrow> jsstr \<Rightarrow> jsstr list \<Rightarrow> bool" where
  "cycle_on_path refs fullyQualifiedPointer currPath [] = False"
| "cycle_on_path refs fullyQualifiedPointer currPath (token # tokens) =
     (let currPath = currPath @ 47 # escapeJsonPointerToken token in
      (case refs currPath of None \<Rightarrow> False
       | Some rs \<Rightarrow> list_ex (\<lambda>ref. pointerIsAParent ref fullyQualifiedPointer \<or> pointerIsAParent fullyQualifiedPointer ref) rs) \<or>
      cycle_on_path refs fullyQualifiedPointer currPath tokens)"

text \<open>The answer, and the references recorded for the specification.\<close>

definition pointerAlreadyInPath ::
  "jsstr \<Rightarrow> doc \<Rightarrow> jsstr list \<Rightarrow> doc \<Rightarrow> (jsstr \<Rightarrow> jsstr list option) \<Rightarrow> bool \<times> (jsstr \<Rightarrow> jsstr list option)" where
  "pointerAlreadyInPath pointer basePath parent rootDoc refs =
     (let fullyQualifiedPointer = base_text basePath @ 35 # pointer;
          safeParentPointer = strip_allOf (arrayToJsonPointer parent) in
      if basePath = rootDoc \<and> pointerIsAParent safeParentPointer pointer then (True, refs)
      else if cycle_on_path refs fullyQualifiedPointer [] parent then (True, refs)
      else (False, refs(safeParentPointer \<mapsto>
        (case refs safeParentPointer of None \<Rightarrow> [] | Some rs \<Rightarrow> rs) @ [fullyQualifiedPointer])))"

section \<open>Pointers and paths\<close>

lemma form_plain_safe: "form_plain c \<Longrightarrow> c \<noteq> 47 \<and> c \<noteq> 35 \<and> c \<noteq> 43 \<and> c \<noteq> 37"
  by (auto simp: form_plain_def js_def)

lemma pct_safe: "c \<in> set (pct b) \<Longrightarrow> c \<noteq> 47 \<and> c \<noteq> 35 \<and> c \<noteq> 43"
proof -
  have "48 \<le> hex_digit n" for n by (simp add: hex_digit_def)
  from this [of "b div 16"] this [of "b mod 16"] show "c \<in> set (pct b) \<Longrightarrow> c \<noteq> 47 \<and> c \<noteq> 35 \<and> c \<noteq> 43"
    by (auto simp: pct_def)
qed

lemma form_char_safe: "c \<in> set (form_char d) \<Longrightarrow> c \<noteq> 47 \<and> c \<noteq> 35"
  using form_plain_safe pct_safe by (fastforce simp: form_char_def split: if_splits)

lemma concat_form_char_plain: "c \<in> set (concat (map form_char s)) \<Longrightarrow> c \<noteq> 47 \<and> c \<noteq> 35"
  using form_char_safe by auto

lemma escape_plain [simp]: "47 \<notin> set (escapeJsonPointerToken t)" "35 \<notin> set (escapeJsonPointerToken t)"
  using concat_form_char_plain unfolding escapeJsonPointerToken_def by blast+

definition unplus :: "nat \<Rightarrow> nat" where "unplus c = (if c = 43 then 32 else c)"

lemma map_unplus_pct: "map unplus (concat (map pct bs)) = concat (map pct bs)"
  by (rule map_idI) (use pct_safe in \<open>auto simp: unplus_def\<close>)

lemma decode_form:
  "list_all scalar s \<Longrightarrow> decodeURIComponent (map unplus (concat (map form_char s))) = Some s"
proof (induction s)
  case (Cons c cs)
  consider "c = 32" | "c \<noteq> 32" "form_plain c" | "c \<noteq> 32" "\<not> form_plain c" by blast
  then show ?case
  proof cases
    case 1
    then show ?thesis using Cons by (simp add: form_char_def unplus_def)
  next
    case 2
    then show ?thesis using Cons form_plain_safe [OF 2(2)] by (simp add: form_char_def unplus_def)
  next
    case 3
    then show ?thesis using Cons by (simp add: form_char_def map_unplus_pct decode_pct_char)
  qed
qed simp

definition esc :: "nat \<Rightarrow> jsstr" where
  "esc c = (if c = 126 then [126, 48] else if c = 47 then [126, 49] else [c])"

lemma escape_esc: "escapeJsonPointerToken t = concat (map form_char (concat (map esc t)))"
proof -
  have "replace_char 47 [126, 49] (replace_char 126 [126, 48] t) = concat (map esc t)"
    by (induction t) (auto simp: replace_char_def esc_def)
  then show ?thesis by (simp add: escapeJsonPointerToken_def)
qed

lemma esc_step: "esc c @ u = esc d @ v \<Longrightarrow> c = d \<and> u = v"
  by (simp add: esc_def split: if_splits)

lemma esc_inj: "concat (map esc s) = concat (map esc t) \<Longrightarrow> s = t"
proof (induction s arbitrary: t)
  case Nil
  then show ?case by (cases t) (auto simp: esc_def split: if_splits)
next
  case (Cons c s)
  then obtain d t' where t: "t = d # t'" by (cases t) (auto simp: esc_def split: if_splits)
  have "c = d \<and> concat (map esc s) = concat (map esc t')"
    by (rule esc_step) (use Cons.prems t in simp)
  with Cons.IH t show ?case by blast
qed

definition tokens_ok :: "jsstr list \<Rightarrow> bool" where
  "tokens_ok ts \<longleftrightarrow> list_all (list_all scalar) ts"

lemma escape_inj:
  assumes "escapeJsonPointerToken s = escapeJsonPointerToken t" "list_all scalar s" "list_all scalar t"
  shows "s = t"
proof -
  have sc: "list_all scalar (concat (map esc u))" if "list_all scalar u" for u
    using that by (induction u) (auto simp: esc_def scalar_def)
  have "decodeURIComponent (map unplus (escapeJsonPointerToken u)) = Some (concat (map esc u))"
    if "list_all scalar u" for u unfolding escape_esc by (rule decode_form [OF sc [OF that]])
  from this [OF assms(2)] this [OF assms(3)] have "concat (map esc s) = concat (map esc t)"
    unfolding assms(1) by simp
  then show ?thesis by (rule esc_inj)
qed

definition slashed :: "jsstr list \<Rightarrow> jsstr" where
  "slashed ts = concat (map ((#) 47) ts)"

lemma slashed_simps [simp]: "slashed [] = []" "slashed (t # ts) = 47 # t @ slashed ts"
  by (simp_all add: slashed_def)

lemma slashed_append [simp]: "slashed (xs @ ys) = slashed xs @ slashed ys"
  by (simp add: slashed_def)

lemma pointer_slashed: "arrayToJsonPointer ts = slashed (map escapeJsonPointerToken ts)"
proof -
  have "ps \<noteq> [] \<Longrightarrow> 47 # join_with 47 ps = slashed ps" for ps
    by (induction "47 :: nat" ps rule: join_with.induct) auto
  then show ?thesis by (simp add: arrayToJsonPointer_def)
qed

lemma token_split:
  assumes "x @ u = y @ v" "d \<notin> set x" "d \<notin> set y" "u = [] \<or> hd u = d" "v = [] \<or> hd v = d"
  shows "x = y \<and> u = v"
proof -
  have "takeWhile ((\<noteq>) d) (x @ u) = x" using assms(2,4) by (cases u) (auto simp: takeWhile_append)
  moreover have "takeWhile ((\<noteq>) d) (y @ v) = y" using assms(3,5) by (cases v) (auto simp: takeWhile_append)
  ultimately have "x = y" using assms(1) by simp
  with assms(1) show ?thesis by simp
qed

lemma slashed_hd: "slashed ts = [] \<or> hd (slashed ts) = 47"
  by (cases ts) auto

lemma slashed_prefix:
  assumes "\<forall>t \<in> set xs. 47 \<notin> set t" "\<forall>t \<in> set ys. 47 \<notin> set t"
    and "slashed xs = slashed ys @ r" "r = [] \<or> hd r = 47"
  shows "\<exists>zs. xs = ys @ zs \<and> r = slashed zs"
  using assms
proof (induction ys arbitrary: xs)
  case (Cons y ys)
  then obtain x xs' where xs: "xs = x # xs'" by (cases xs) auto
  with Cons.prems have "x @ slashed xs' = y @ slashed ys @ r" by simp
  moreover have "slashed ys @ r = [] \<or> hd (slashed ys @ r) = 47"
    using slashed_hd [of ys] Cons.prems(4) by (cases ys) auto
  moreover have "47 \<notin> set x" "47 \<notin> set y" using Cons.prems(1,2) xs by simp_all
  ultimately have s: "x = y \<and> slashed xs' = slashed ys @ r"
    using slashed_hd [of xs'] by (intro token_split)
  then have "\<exists>zs. xs' = ys @ zs \<and> r = slashed zs"
    by (intro Cons.IH) (use Cons.prems xs in simp_all)
  with s xs show ?case by auto
qed simp

lemma map_escape_prefix:
  "tokens_ok xs \<Longrightarrow> tokens_ok ys \<Longrightarrow>
     (\<exists>zs. map escapeJsonPointerToken xs = map escapeJsonPointerToken ys @ zs) \<longleftrightarrow> prefix ys xs"
proof (induction ys arbitrary: xs)
  case (Cons y ys)
  then show ?case by (cases xs) (auto simp: tokens_ok_def dest: escape_inj)
qed simp

text \<open>The text of one pointer continues another at a boundary exactly when its path does.\<close>

lemma pointer_prefix:
  assumes "tokens_ok xs" "tokens_ok ys"
  shows "(\<exists>r. arrayToJsonPointer xs = arrayToJsonPointer ys @ r \<and> pointerBoundaryChar (take 1 r)) \<longleftrightarrow> prefix ys xs"
proof
  assume "\<exists>r. arrayToJsonPointer xs = arrayToJsonPointer ys @ r \<and> pointerBoundaryChar (take 1 r)"
  then obtain r where r: "slashed (map escapeJsonPointerToken xs) = slashed (map escapeJsonPointerToken ys) @ r"
    and b: "pointerBoundaryChar (take 1 r)" by (auto simp: pointer_slashed)
  have "35 \<notin> set (slashed (map escapeJsonPointerToken xs))" by (auto simp: slashed_def)
  then have "35 \<notin> set r" unfolding r by simp
  with b have "r = [] \<or> hd r = 47" by (cases r) (auto simp: pointerBoundaryChar_def)
  from slashed_prefix [OF _ _ r this] show "prefix ys xs" using map_escape_prefix [OF assms] by auto
next
  assume "prefix ys xs"
  then obtain zs where "xs = ys @ zs" by (auto simp: prefix_def)
  then show "\<exists>r. arrayToJsonPointer xs = arrayToJsonPointer ys @ r \<and> pointerBoundaryChar (take 1 r)"
    by (cases zs) (auto simp: pointer_slashed pointerBoundaryChar_def)
qed

lemma take_is_prefix: "take (length p) s = p \<and> Q (drop (length p) s) \<longleftrightarrow> (\<exists>r. s = p @ r \<and> Q r)"
  by (auto simp: append_eq_conv_conj [symmetric]) (metis append_take_drop_id)

lemma pointer_not_hash: "drop (length (arrayToJsonPointer ys) - 1) (arrayToJsonPointer ys) \<noteq> [35]"
proof
  assume "drop (length (arrayToJsonPointer ys) - 1) (arrayToJsonPointer ys) = [35]"
  then have "35 \<in> set (arrayToJsonPointer ys)" by (metis in_set_dropD list.set_intros(1))
  then show False unfolding pointer_slashed by (auto simp: slashed_def split: if_splits)
qed

lemma parent_iff:
  "\<not> pointerBoundaryChar q \<Longrightarrow> drop (length q - 1) q \<noteq> [35] \<Longrightarrow>
     pointerIsAParent p q \<longleftrightarrow> (\<exists>r. p = q @ r \<and> pointerBoundaryChar (take 1 r))"
  unfolding pointerIsAParent_def Let_def take_is_prefix [symmetric] by blast

lemma pointer_Nil_iff: "arrayToJsonPointer ys = [] \<longleftrightarrow> ys = []"
  by (simp add: arrayToJsonPointer_def)

lemma pointer_not_boundary:
  assumes "ys \<noteq> []" "ys \<noteq> [[]]"
  shows "\<not> pointerBoundaryChar (arrayToJsonPointer ys)"
proof -
  have fc: "form_char c \<noteq> []" for c by (simp add: form_char_def utf8_def pct_def)
  have e: "escapeJsonPointerToken t \<noteq> []" if "t \<noteq> []" for t
    using that fc by (cases t) (simp_all add: escape_esc esc_def)
  obtain y ys' where ys: "ys = y # ys'" using assms(1) by (cases ys) auto
  have "escapeJsonPointerToken y \<noteq> [] \<or> slashed (map escapeJsonPointerToken ys') \<noteq> []"
    using e [of y] assms(2) ys by (cases ys') auto
  then show ?thesis unfolding pointer_slashed ys by (auto simp: pointerBoundaryChar_def)
qed

lemma parent_pointers:
  assumes "tokens_ok xs" "tokens_ok ys" "ys \<noteq> [[]]"
  shows "pointerIsAParent (arrayToJsonPointer xs) (arrayToJsonPointer ys) \<longleftrightarrow> prefix ys xs"
proof (cases "ys = []")
  case False
  show ?thesis
    unfolding parent_iff [OF pointer_not_boundary [OF False assms(3)] pointer_not_hash]
    by (rule pointer_prefix [OF assms(1,2)])
qed (simp add: pointerIsAParent_def arrayToJsonPointer_def pointerBoundaryChar_def)

definition qualified_ptr :: "jsstr \<Rightarrow> jsstr list \<Rightarrow> jsstr" where
  "qualified_ptr b q = b @ 35 # arrayToJsonPointer q"

lemma parent_qualified:
  assumes "tokens_ok xs" "tokens_ok ys" "35 \<notin> set b" "35 \<notin> set c" "c \<noteq> []"
  shows "pointerIsAParent (qualified_ptr b xs) (qualified_ptr c ys) \<longleftrightarrow> b = c \<and> ys \<noteq> [] \<and> prefix ys xs"
proof (cases "ys = []")
  case True
  have "\<not> pointerBoundaryChar (c @ [35])" using assms(5) by (cases c) (auto simp: pointerBoundaryChar_def)
  with True show ?thesis by (simp add: pointerIsAParent_def qualified_ptr_def arrayToJsonPointer_def)
next
  case False
  let ?q = "qualified_ptr c ys"
  have "\<not> pointerBoundaryChar ?q"
    using assms(5) by (cases c) (auto simp: pointerBoundaryChar_def qualified_ptr_def)
  moreover have "drop (length ?q - 1) ?q \<noteq> [35]"
    using pointer_not_hash [of ys] False pointer_Nil_iff [of ys]
    by (cases "arrayToJsonPointer ys") (simp_all add: qualified_ptr_def)
  ultimately have "pointerIsAParent (qualified_ptr b xs) ?q \<longleftrightarrow>
    (\<exists>r. qualified_ptr b xs = ?q @ r \<and> pointerBoundaryChar (take 1 r))"
    by (rule parent_iff)
  also have "\<dots> \<longleftrightarrow> b = c \<and> (\<exists>r. arrayToJsonPointer xs = arrayToJsonPointer ys @ r \<and> pointerBoundaryChar (take 1 r))"
  proof -
    have "qualified_ptr b xs = ?q @ r \<longleftrightarrow> b = c \<and> arrayToJsonPointer xs = arrayToJsonPointer ys @ r" for r
      using token_split [of b "35 # arrayToJsonPointer xs" c "35 # arrayToJsonPointer ys @ r" 35] assms(3,4)
      by (auto simp: qualified_ptr_def)
    then show ?thesis by auto
  qed
  also have "\<dots> \<longleftrightarrow> b = c \<and> prefix ys xs" using pointer_prefix [OF assms(1,2)] by simp
  finally show ?thesis using False by simp
qed

lemma pointer_inj:
  assumes "arrayToJsonPointer xs = arrayToJsonPointer ys" "tokens_ok xs" "tokens_ok ys"
  shows "xs = ys"
proof -
  have "prefix ys xs" using pointer_prefix [of xs ys] assms by (auto simp: pointerBoundaryChar_def)
  moreover have "prefix xs ys" using pointer_prefix [of ys xs] assms by (auto simp: pointerBoundaryChar_def)
  ultimately show ?thesis by (auto simp: prefix_order.antisym)
qed

section \<open>Stripping of collapsed steps\<close>

definition no_allOf :: "jsstr list \<Rightarrow> bool" where
  "no_allOf ts \<longleftrightarrow> list_all (\<lambda>t. \<not> suffix (js ''allOf'') (escapeJsonPointerToken t)) ts"

lemma strip_absent: "(\<And>u v. s \<noteq> u @ allOf_slash @ v) \<Longrightarrow> strip_allOf s = s"
proof (induction s)
  case (Cons c cs)
  have "take (length allOf_slash) (c # cs) \<noteq> allOf_slash"
  proof
    assume "take (length allOf_slash) (c # cs) = allOf_slash"
    then have "c # cs = [] @ allOf_slash @ drop (length allOf_slash) (c # cs)"
      by (metis append_Nil append_take_drop_id)
    with Cons.prems show False by blast
  qed
  then have "after_allOf (c # cs) = None" by (simp add: after_allOf_def Let_def)
  moreover have "strip_allOf cs = cs"
    by (rule Cons.IH) (use Cons.prems in \<open>metis append_Cons\<close>)
  ultimately show ?case by (subst strip_allOf.simps) simp
qed (simp add: strip_allOf.simps)

lemma split_on_mid: "split_on d (x @ d # v) = split_on d x @ split_on d v"
proof (induction x)
  case (Cons c x)
  then show ?case by (cases "split_on d x") (auto split: list.splits)
qed simp

lemma last_split_on: "d \<notin> set w \<Longrightarrow> suffix w (last (split_on d (u @ w)))"
proof (induction u)
  case (Cons c u)
  then show ?case by (cases "split_on d (u @ w)") (auto simp: suffix_Cons)
qed simp

lemma strip_pointer:
  assumes "no_allOf ts"
  shows "strip_allOf (arrayToJsonPointer ts) = arrayToJsonPointer ts"
proof (rule strip_absent)
  fix u v
  let ?a = "js ''allOf''"
  show "arrayToJsonPointer ts \<noteq> u @ allOf_slash @ v"
  proof
    assume "arrayToJsonPointer ts = u @ allOf_slash @ v"
    then have eq: "arrayToJsonPointer ts = (u @ ?a) @ 47 # v" by (simp add: allOf_slash_def js_def)
    then have "ts \<noteq> []" by (auto simp: arrayToJsonPointer_def)
    have "split_on 47 (arrayToJsonPointer ts) = [] # map escapeJsonPointerToken ts"
    proof -
      have "split_on 47 (join_with 47 (map escapeJsonPointerToken ts)) = map escapeJsonPointerToken ts"
        using \<open>ts \<noteq> []\<close> by (intro split_on_join) auto
      with \<open>ts \<noteq> []\<close> show ?thesis by (simp add: arrayToJsonPointer_def)
    qed
    moreover have "last (split_on 47 (u @ ?a)) \<in> set (split_on 47 (arrayToJsonPointer ts))"
      unfolding eq split_on_mid by simp
    moreover have s: "suffix ?a (last (split_on 47 (u @ ?a)))" by (rule last_split_on) (simp add: js_def)
    ultimately have "last (split_on 47 (u @ ?a)) \<in> set (map escapeJsonPointerToken ts)" by (auto simp: js_def)
    with s assms show False by (auto simp: no_allOf_def list_all_iff)
  qed
qed

section \<open>Circularity as a relation on paths\<close>

text \<open>
  The abstract record: for every reference that was followed, its place in the definition, its
  document and the path it points to. A new one is circular when it points to an ancestor of its
  own place in the same document, or when a reference followed at an ancestor points above or
  below the place it points to. A reference to a whole document is not compared in the second way.
\<close>

type_synonym followed = "(jsstr list \<times> jsstr \<times> jsstr list) list"

definition overlap :: "jsstr \<Rightarrow> jsstr list \<Rightarrow> jsstr \<Rightarrow> jsstr list \<Rightarrow> bool" where
  "overlap b q b' q' \<longleftrightarrow> b = b' \<and> q \<noteq> [] \<and> q' \<noteq> [] \<and> (prefix q q' \<or> prefix q' q)"

definition circular :: "jsstr list \<Rightarrow> doc \<Rightarrow> jsstr list \<Rightarrow> doc \<Rightarrow> followed \<Rightarrow> bool" where
  "circular q b parent rootDoc a \<longleftrightarrow>
     b = rootDoc \<and> prefix q parent \<or>
     (\<exists>(p, b', q') \<in> set a. p \<noteq> [] \<and> prefix p parent \<and> overlap (base_text b) q b' q')"

definition records :: "(jsstr \<Rightarrow> jsstr list option) \<Rightarrow> followed \<Rightarrow> bool" where
  "records refs a \<longleftrightarrow>
     (\<forall>(p, b, q) \<in> set a. tokens_ok p \<and> tokens_ok q \<and> 35 \<notin> set b \<and> b \<noteq> []) \<and>
     (\<forall>p. tokens_ok p \<longrightarrow> (case refs (arrayToJsonPointer p) of None \<Rightarrow> [] | Some rs \<Rightarrow> rs) =
        map (\<lambda>(_, b, q). qualified_ptr b q) (filter (\<lambda>(p', _). p' = p) a))"

lemma overlap_parent:
  assumes "tokens_ok q" "tokens_ok q'" "35 \<notin> set b" "35 \<notin> set b'" "b \<noteq> []" "b' \<noteq> []"
  shows "pointerIsAParent (qualified_ptr b' q') (qualified_ptr b q) \<or> pointerIsAParent (qualified_ptr b q) (qualified_ptr b' q')
    \<longleftrightarrow> overlap b q b' q'"
  using parent_qualified [OF assms(2,1,4,3,5)] parent_qualified [OF assms(1,2,3,4,6)]
  by (auto simp: overlap_def)

lemma pointer_snoc: "arrayToJsonPointer pre @ 47 # escapeJsonPointerToken t = arrayToJsonPointer (pre @ [t])"
  by (simp add: pointer_slashed)

definition overlaps_at where
  "overlaps_at a b q p \<longleftrightarrow> (\<exists>(p', b', q') \<in> set a. p' = p \<and> overlap b q b' q')"

lemma recorded_overlap:
  assumes "records refs a" "tokens_ok p" "tokens_ok q" "35 \<notin> set b" "b \<noteq> []"
  shows "(case refs (arrayToJsonPointer p) of None \<Rightarrow> False
     | Some rs \<Rightarrow> list_ex (\<lambda>ref. pointerIsAParent ref (qualified_ptr b q) \<or> pointerIsAParent (qualified_ptr b q) ref) rs) \<longleftrightarrow>
    overlaps_at a b q p"
proof -
  let ?test = "\<lambda>ref. pointerIsAParent ref (qualified_ptr b q) \<or> pointerIsAParent (qualified_ptr b q) ref"
  have "(case refs (arrayToJsonPointer p) of None \<Rightarrow> False | Some rs \<Rightarrow> list_ex ?test rs) \<longleftrightarrow>
      list_ex ?test (case refs (arrayToJsonPointer p) of None \<Rightarrow> [] | Some rs \<Rightarrow> rs)"
    by (simp split: option.splits)
  also have "\<dots> \<longleftrightarrow> list_ex ?test (map (\<lambda>(_, b, q). qualified_ptr b q) (filter (\<lambda>(p', _). p' = p) a))"
    using assms(1,2) by (simp add: records_def)
  also have "\<dots> \<longleftrightarrow> (\<exists>(p', b', q') \<in> set a. p' = p \<and> ?test (qualified_ptr b' q'))"
    by (auto simp: list_ex_iff)
  also have "\<dots> \<longleftrightarrow> overlaps_at a b q p"
    unfolding overlaps_at_def
  proof (intro bex_cong refl, clarify)
    fix p' b' q'
    assume "(p', b', q') \<in> set a"
    then have "tokens_ok q'" "35 \<notin> set b'" "b' \<noteq> []" using assms(1) by (auto simp: records_def)
    from overlap_parent [OF assms(3) this(1) assms(4) this(2) assms(5) this(3)]
    show "p' = p \<and> ?test (qualified_ptr b' q') \<longleftrightarrow> p' = p \<and> overlap b q b' q'" by blast
  qed
  finally show ?thesis .
qed

lemma cycle_on_path_iff:
  assumes "records refs a" "tokens_ok (pre @ ts)" "tokens_ok q" "35 \<notin> set b" "b \<noteq> []"
  shows "cycle_on_path refs (qualified_ptr b q) (arrayToJsonPointer pre) ts \<longleftrightarrow>
    (\<exists>k. k \<noteq> [] \<and> prefix k ts \<and> overlaps_at a b q (pre @ k))"
  using assms(2)
proof (induction ts arbitrary: pre)
  case (Cons t ts)
  let ?pre = "pre @ [t]"
  have "tokens_ok ?pre" "tokens_ok (?pre @ ts)" using Cons.prems by (auto simp: tokens_ok_def)
  note here = recorded_overlap [OF assms(1) this(1) assms(3-5)] and IH = Cons.IH [OF this(2)]
  have "cycle_on_path refs (qualified_ptr b q) (arrayToJsonPointer pre) (t # ts) \<longleftrightarrow>
      overlaps_at a b q ?pre \<or> (\<exists>k. k \<noteq> [] \<and> prefix k ts \<and> overlaps_at a b q (?pre @ k))"
    by (simp only: cycle_on_path.simps Let_def pointer_snoc here IH)
  also have "\<dots> \<longleftrightarrow> (\<exists>k. k \<noteq> [] \<and> prefix k (t # ts) \<and> overlaps_at a b q (pre @ k))"
  proof -
    have "R [t] \<or> (\<exists>k. k \<noteq> [] \<and> prefix k ts \<and> R (t # k)) \<longleftrightarrow> (\<exists>k. k \<noteq> [] \<and> prefix k (t # ts) \<and> R k)"
      for R :: "jsstr list \<Rightarrow> bool"
    proof
      assume "\<exists>k. k \<noteq> [] \<and> prefix k (t # ts) \<and> R k"
      then obtain k where "prefix k ts" "R (t # k)" by (auto simp: prefix_Cons)
      then show "R [t] \<or> (\<exists>k. k \<noteq> [] \<and> prefix k ts \<and> R (t # k))" by (cases "k = []") blast+
    next
      assume "R [t] \<or> (\<exists>k. k \<noteq> [] \<and> prefix k ts \<and> R (t # k))"
      then obtain k where "prefix k ts" "R (t # k)" using Nil_prefix [of ts] by blast
      then show "\<exists>k. k \<noteq> [] \<and> prefix k (t # ts) \<and> R k" by (intro exI [of _ "t # k"]) simp
    qed
    from this [of "\<lambda>k. overlaps_at a b q (pre @ k)"] show ?thesis by simp
  qed
  finally show ?case .
qed simp

lemma base_text_not_Nil [simp]: "base_text b \<noteq> []"
  by (simp add: base_text_def js_def split: doc.split)

lemma records_add:
  assumes "records refs a" "tokens_ok parent" "tokens_ok q" "35 \<notin> set b" "b \<noteq> []"
  shows "records (refs(arrayToJsonPointer parent \<mapsto>
      (case refs (arrayToJsonPointer parent) of None \<Rightarrow> [] | Some rs \<Rightarrow> rs) @ [qualified_ptr b q]))
    (a @ [(parent, b, q)])"
  using assms pointer_inj by (auto simp: records_def)



end
