(* ===== verification/Ui_Deep_Link.thy ===== *)
theory Ui_Deep_Link
  imports Ui_Strings
begin

text \<open>
  The state of the page layout and its deep links, as they are in \<open>swagger-ui.js\<close>: the reducers and
  selectors of the layout plugin, the actions and selectors of the deep-linking plugin (\<open>show\<close> is
  \<open>C\<close>, \<open>scrollTo\<close> is \<open>_\<close>, \<open>parseDeepLinkHash\<close> is \<open>A\<close> in the bundle), \<open>createDeepLinkPath\<close>
  (\<open>Ge\<close>) and \<open>setHash\<close>.
\<close>

section \<open>Layout\<close>

text \<open>
  A key is the array of the parts of a shown thing. \<open>pgHash\<close> is the hash part of the location with
  its \<open>#\<close>, or empty.
\<close>

record page =
  pgLayout :: "jsstr option"
  pgShown :: "jsstr list \<Rightarrow> bool option"
  pgScrollToKey :: "jsstr list option"
  pgHash :: jsstr

definition updateLayout :: "jsstr \<Rightarrow> page \<Rightarrow> page" where
  "updateLayout l p = p\<lparr>pgLayout := Some l\<rparr>"

text \<open>The reducer of \<open>SHOW\<close>.\<close>

definition reduce_show :: "jsstr list \<Rightarrow> bool \<Rightarrow> page \<Rightarrow> page" where
  "reduce_show thing shown p = p\<lparr>pgShown := (pgShown p)(thing \<mapsto> shown)\<rparr>"

definition isShown :: "page \<Rightarrow> jsstr list \<Rightarrow> bool option \<Rightarrow> bool option" where
  "isShown p thing d = (case pgShown p thing of None \<Rightarrow> d | Some b \<Rightarrow> Some b)"

definition showSummary :: "page \<Rightarrow> bool" where
  "showSummary p \<longleftrightarrow> isShown p [js ''editor''] None \<noteq> Some True"

definition scrollTo :: "jsstr list \<Rightarrow> page \<Rightarrow> page" where
  "scrollTo path p = p\<lparr>pgScrollToKey := Some path\<rparr>"

definition clearScrollTo :: "page \<Rightarrow> page" where
  "clearScrollTo p = p\<lparr>pgScrollToKey := None\<rparr>"

section \<open>The hash of the location\<close>

definition ops :: jsstr where "ops = js ''operations''"
definition ops_tag :: jsstr where "ops_tag = js ''operations-tag''"

definition createDeepLinkPath :: "jsstr \<Rightarrow> jsstr" where
  "createDeepLinkPath str = concat (map (\<lambda>c. if js_space c then js ''%20'' else [c]) (trim str))"

text \<open>The value has only characters that a location keeps as they are.\<close>

definition setHash :: "jsstr \<Rightarrow> page \<Rightarrow> page" where
  "setHash value p = p\<lparr>pgHash := (if value = [] then [] else 35 # value)\<rparr>"

text \<open>An absent part is \<open>undefined\<close>, which \<open>encodeURIComponent\<close> spells out.\<close>

definition part :: "jsstr list \<Rightarrow> nat \<Rightarrow> jsstr option" where
  "part key i = (if i < length key then Some (key ! i) else None)"

definition encode_part :: "jsstr option \<Rightarrow> jsstr option" where
  "encode_part v = (case v of None \<Rightarrow> Some (js ''undefined'') | Some s \<Rightarrow> encodeURIComponent s)"

definition urlHashArrayFromIsShownKey :: "jsstr list \<Rightarrow> jsstr option list" where
  "urlHashArrayFromIsShownKey key =
     (if part key 0 = Some ops then [part key 1, part key 2]
      else if part key 0 = Some ops_tag then [part key 1] else [])"

text \<open>\<open>[]\<close> and an empty part are falsy.\<close>

definition isShownKeyFromUrlHashArray :: "jsstr list \<Rightarrow> jsstr list" where
  "isShownKeyFromUrlHashArray arr =
     (case (part arr 0, part arr 1) of
        (Some tag, Some operationId) \<Rightarrow>
          if operationId \<noteq> [] then [ops, tag, operationId] else if tag \<noteq> [] then [ops_tag, tag] else []
      | (Some tag, None) \<Rightarrow> if tag \<noteq> [] then [ops_tag, tag] else []
      | _ \<Rightarrow> [])"

text \<open>The wrapped action: a malformed string is caught and logged.\<close>

definition show_action :: "bool \<Rightarrow> jsstr list \<Rightarrow> bool \<Rightarrow> page \<Rightarrow> page" where
  "show_action deepLinking thing shown p =
     (let p = reduce_show thing shown p; arr = urlHashArrayFromIsShownKey thing in
      if \<not> deepLinking \<or> arr = [] then p
      else if \<not> shown then setHash [47] p
      else (case map encode_part arr of
          [Some tag, Some operationId] \<Rightarrow> setHash (createDeepLinkPath (47 # tag @ 47 # operationId)) p
        | [Some tag] \<Rightarrow> setHash (createDeepLinkPath (47 # tag)) p
        | _ \<Rightarrow> p))"

definition replace_underscore :: "jsstr \<Rightarrow> jsstr" where
  "replace_underscore = map (\<lambda>c. if c = 95 then 32 else c)"

definition strip_first :: "nat \<Rightarrow> jsstr \<Rightarrow> jsstr" where
  "strip_first c s = (if take 1 s = [c] then drop 1 s else s)"

definition parseDeepLinkHash :: "bool \<Rightarrow> jsstr \<Rightarrow> page \<Rightarrow> page" where
  "parseDeepLinkHash deepLinking rawHash p =
     (if \<not> deepLinking \<or> rawHash = [] then p else
      let hash = strip_first 47 (strip_first 33 (drop 1 rawHash));
          isShownKey = isShownKeyFromUrlHashArray (split_on 47 hash);
          tagId = (case part isShownKey 1 of None \<Rightarrow> [] | Some s \<Rightarrow> s);
          maybeOperationId = (case part isShownKey 2 of None \<Rightarrow> [] | Some s \<Rightarrow> s);
          p = (if part isShownKey 0 = Some ops
               then let tagIsShownKey = isShownKeyFromUrlHashArray [tagId];
                        p = (if 95 \<in> set tagId
                             then show_action deepLinking (map replace_underscore tagIsShownKey) True p else p)
                    in show_action deepLinking tagIsShownKey True p
               else p);
          p = (if 95 \<in> set tagId \<or> 95 \<in> set maybeOperationId
               then show_action deepLinking (map replace_underscore isShownKey) True p else p);
          p = show_action deepLinking isShownKey True p
      in scrollTo isShownKey p)"

text \<open>Loading the page with a location: a malformed escape throws before anything changes.\<close>

definition loaded :: "bool \<Rightarrow> page \<Rightarrow> page option" where
  "loaded deepLinking p = map_option (\<lambda>h. parseDeepLinkHash deepLinking h p) (decodeURIComponent (pgHash p))"

text \<open>\<open>toggleShown\<close> of an operation, with the value it has when nothing is stored.\<close>

definition toggleShown :: "bool \<Rightarrow> bool \<Rightarrow> jsstr \<Rightarrow> jsstr \<Rightarrow> page \<Rightarrow> page" where
  "toggleShown deepLinking d tag operationId p =
     show_action deepLinking [ops, tag, operationId] (isShown p [ops, tag, operationId] (Some d) \<noteq> Some True) p"

section \<open>The hash names the key\<close>

lemma ops_neq [simp]: "ops \<noteq> ops_tag" "ops_tag \<noteq> ops"
  by (simp_all add: ops_def ops_tag_def js_def)

lemma unreserved_no_space: "unreserved c \<Longrightarrow> \<not> js_space c \<and> c \<noteq> 47"
  by (auto simp: unreserved_def js_space_def js_def)

lemma pct_no_space: "c \<in> set (pct b) \<Longrightarrow> b < 256 \<Longrightarrow> \<not> js_space c \<and> c \<noteq> 47"
proof -
  have h: "48 \<le> hex_digit n \<and> hex_digit n \<le> 70" if "n < 16" for n using that by (simp add: hex_digit_def)
  assume "c \<in> set (pct b)" "b < 256"
  moreover from this have "b div 16 < 16" "b mod 16 < 16" by simp_all
  ultimately have "c = 37 \<or> 48 \<le> c \<and> c \<le> 70" using h by (auto simp: pct_def)
  then show ?thesis by (auto simp: js_space_def)
qed

lemma utf8_byte:
  assumes "scalar c" "b \<in> set (utf8 c)"
  shows "b < 256"
proof -
  have c: "c < 0x110000" using assms(1) by (auto simp: scalar_def)
  have d3: "c div 64 div 64 div 64 < 5" using c by (simp add: div_mult2_eq [symmetric] less_mult_imp_div_less)
  have d2: "c div 64 div 64 < 16" if "c < 0x10000" using that by (simp add: div_mult2_eq [symmetric] less_mult_imp_div_less)
  have d1: "c div 64 < 32" if "c < 0x800" using that by (simp add: less_mult_imp_div_less)
  have m: "0x80 + n mod 64 < 256" for n :: nat using mod_less_divisor [of 64 n] by linarith
  consider "c < 0x80" | "\<not> c < 0x80" "c < 0x800" | "\<not> c < 0x80" "\<not> c < 0x800" "c < 0x10000"
    | "\<not> c < 0x80" "\<not> c < 0x800" "\<not> c < 0x10000" by blast
  then show ?thesis
  proof cases
    case 1
    with assms(2) show ?thesis by (simp add: utf8_def)
  next
    case 2
    with assms(2) have "b = 0xC0 + c div 64 \<or> b = 0x80 + c mod 64" by (simp add: utf8_def)
    with d1 [OF 2(2)] m show ?thesis by auto
  next
    case 3
    with assms(2) have "b = 0xE0 + c div 64 div 64 \<or> b = 0x80 + c div 64 mod 64 \<or> b = 0x80 + c mod 64"
      by (simp add: utf8_def)
    with d2 [OF 3(3)] m show ?thesis by auto
  next
    case 4
    with assms(2) have "b = 0xF0 + c div 64 div 64 div 64 \<or> b = 0x80 + c div 64 div 64 mod 64 \<or>
        b = 0x80 + c div 64 mod 64 \<or> b = 0x80 + c mod 64"
      by (simp add: utf8_def)
    with d3 m show ?thesis by auto
  qed
qed

lemma encode_no_space:
  "encodeURIComponent s = Some e \<Longrightarrow> c \<in> set e \<Longrightarrow> \<not> js_space c \<and> c \<noteq> 47"
proof (induction s arbitrary: e)
  case (Cons d s)
  then show ?case
    using unreserved_no_space pct_no_space utf8_byte by (fastforce split: option.splits if_splits)
qed simp

lemma createDeepLinkPath_id: "\<forall>c \<in> set s. \<not> js_space c \<Longrightarrow> createDeepLinkPath s = s"
proof -
  assume s: "\<forall>c \<in> set s. \<not> js_space c"
  have "dropWhile js_space u = u" if "\<forall>c \<in> set u. \<not> js_space c" for u using that by (cases u) auto
  from this [of s] this [of "rev s"] s have "trim s = s" by (simp add: trim_def)
  moreover have "concat (map (\<lambda>c. if js_space c then js ''%20'' else [c]) s) = s" using s by (induction s) auto
  ultimately show ?thesis by (simp add: createDeepLinkPath_def)
qed

text \<open>The keys of the page: an operation, or a tag.\<close>

definition key_ok :: "jsstr list \<Rightarrow> bool" where
  "key_ok key \<longleftrightarrow> (\<exists>tag. key = [ops_tag, tag] \<and> tag \<noteq> [] \<and> list_all scalar tag \<or>
     (\<exists>operationId. key = [ops, tag, operationId] \<and> tag \<noteq> [] \<and> operationId \<noteq> [] \<and> list_all scalar tag \<and> list_all scalar operationId))"

definition link :: "jsstr list \<Rightarrow> jsstr" where
  "link key = 35 # concat (map (\<lambda>s. 47 # the (encodeURIComponent s)) (tl key))"

lemma show_action_link:
  assumes "key_ok key"
  shows "show_action True key True p = (reduce_show key True p)\<lparr>pgHash := link key\<rparr>"
proof -
  have enc: "\<exists>e. encodeURIComponent s = Some e" if "list_all scalar s" for s using encode_scalar [OF that] by blast
  have sp: "\<not> js_space 47" by (simp add: js_space_def)
  from assms consider tag where "key = [ops_tag, tag]" "list_all scalar tag"
    | tag operationId where "key = [ops, tag, operationId]" "list_all scalar tag" "list_all scalar operationId"
    by (auto simp: key_ok_def)
  then show ?thesis
  proof cases
    case 1
    then obtain e where e: "encodeURIComponent tag = Some e" using enc by blast
    have "createDeepLinkPath (47 # e) = 47 # e"
      by (rule createDeepLinkPath_id) (use encode_no_space [OF e] sp in auto)
    with 1 e show ?thesis
      by (simp add: show_action_def urlHashArrayFromIsShownKey_def part_def encode_part_def setHash_def link_def)
  next
    case 2
    then obtain e f where e: "encodeURIComponent tag = Some e" "encodeURIComponent operationId = Some f" using enc by blast
    have "createDeepLinkPath (47 # e @ 47 # f) = 47 # e @ 47 # f"
      by (rule createDeepLinkPath_id) (use encode_no_space [OF e(1)] encode_no_space [OF e(2)] sp in auto)
    with 2 e show ?thesis
      by (simp add: show_action_def urlHashArrayFromIsShownKey_def part_def encode_part_def setHash_def link_def)
  qed
qed

section \<open>Opening a link\<close>

text \<open>
  The keys that a link opens: the one it names, the tag of an operation, and for a name with an
  underscore the one with spaces in its place.
\<close>

definition opened :: "jsstr list \<Rightarrow> jsstr list set" where
  "opened key = {key} \<union>
     (if \<exists>s \<in> set (tl key). 95 \<in> set s then {map replace_underscore key} else {}) \<union>
     (if hd key = ops then {[ops_tag, key ! 1]} \<union>
        (if 95 \<in> set (key ! 1) then {[ops_tag, replace_underscore (key ! 1)]} else {}) else {})"

lemma replace_underscore_ops [simp]: "replace_underscore ops = ops" "replace_underscore ops_tag = ops_tag"
  by (simp_all add: replace_underscore_def ops_def ops_tag_def js_def)

lemma replace_underscore_ok [simp]:
  "replace_underscore s = [] \<longleftrightarrow> s = []" "list_all scalar s \<Longrightarrow> list_all scalar (replace_underscore s)"
  by (auto simp: replace_underscore_def list_all_iff scalar_def)

lemma key_ok_simps [simp]:
  "key_ok [ops_tag, tag] \<longleftrightarrow> tag \<noteq> [] \<and> list_all scalar tag"
  "key_ok [ops, tag, operationId] \<longleftrightarrow> tag \<noteq> [] \<and> operationId \<noteq> [] \<and> list_all scalar tag \<and> list_all scalar operationId"
  by (auto simp: key_ok_def)

text \<open>The keys that are stored as shown, and the last one of them in the location.\<close>

definition shows_all :: "jsstr list set \<Rightarrow> page \<Rightarrow> (jsstr list \<Rightarrow> bool option)" where
  "shows_all ks p = (\<lambda>k. if k \<in> ks then Some True else pgShown p k)"

lemma open_key:
  assumes "isShownKeyFromUrlHashArray (split_on 47 h) = key" "key_ok key" "take 1 h \<noteq> [47]"
  shows "parseDeepLinkHash True (35 # 47 # h) p =
    p\<lparr>pgShown := shows_all (opened key) p, pgHash := link key, pgScrollToKey := Some key\<rparr>"
proof -
  have h: "strip_first 47 (strip_first 33 (drop 1 (35 # 47 # h))) = h" by (simp add: strip_first_def)
  from assms(2) consider tag where "key = [ops_tag, tag]" "tag \<noteq> []" "list_all scalar tag"
    | tag operationId where "key = [ops, tag, operationId]" "tag \<noteq> []" "operationId \<noteq> []"
        "list_all scalar tag" "list_all scalar operationId"
    unfolding key_ok_def by blast
  then show ?thesis
  proof cases
    case 1
    then show ?thesis
      unfolding parseDeepLinkHash_def Let_def h assms(1)
      by (simp add: part_def show_action_link reduce_show_def scrollTo_def shows_all_def opened_def fun_eq_iff)
  next
    case 2
    have t: "isShownKeyFromUrlHashArray [tag] = [ops_tag, tag]"
      using 2 by (simp add: isShownKeyFromUrlHashArray_def part_def)
    show ?thesis
      unfolding parseDeepLinkHash_def Let_def h assms(1) 2(1)
      using 2(2-) t
      by (simp add: part_def show_action_link reduce_show_def scrollTo_def shows_all_def opened_def fun_eq_iff)
  qed
qed

text \<open>The part of the location after \<open>#/\<close>, once it is decoded.\<close>

lemma decode_link:
  assumes "key_ok key"
  shows "decodeURIComponent (link key) = Some (35 # concat (map ((#) 47) (tl key)))"
proof -
  have slash: "decodeURIComponent (47 # s) = map_option ((#) 47) (decodeURIComponent s)"
    "decodeURIComponent (35 # s) = map_option ((#) 35) (decodeURIComponent s)" for s by simp_all
  from assms consider tag where "key = [ops_tag, tag]" "list_all scalar tag"
    | tag operationId where "key = [ops, tag, operationId]" "list_all scalar tag" "list_all scalar operationId"
    by (auto simp: key_ok_def)
  then show ?thesis
  proof cases
    case 1
    then obtain e where "encodeURIComponent tag = Some e" using encode_scalar [OF 1(2)] by blast
    with 1 show ?thesis by (simp add: link_def slash)
  next
    case 2
    obtain e f where "encodeURIComponent tag = Some e" "encodeURIComponent operationId = Some f"
      using encode_scalar [OF 2(2)] encode_scalar [OF 2(3)] by blast
    with 2 show ?thesis by (simp add: link_def slash decode_encode)
  qed
qed



text \<open>
  A tag whose name contains a slash is not found again: its link is read as the link of an
  operation, which is shown and scrolled to, and the tag stays as it was.
\<close>

theorem deep_link_slash_misread:
  assumes "list_all scalar a" "list_all scalar b" "a \<noteq> []" "b \<noteq> []" "47 \<notin> set a" "47 \<notin> set b"
    and "pgHash q = pgHash (show_action True [ops_tag, a @ 47 # b] True p)"
  shows "\<exists>q'. loaded True q = Some q' \<and> isShown q' [ops, a, b] d = Some True \<and>
    pgScrollToKey q' = Some [ops, a, b] \<and> pgShown q' [ops_tag, a @ 47 # b] = pgShown q [ops_tag, a @ 47 # b]"
proof -
  let ?k = "[ops_tag, a @ 47 # b]"
  have k: "key_ok ?k" "key_ok [ops, a, b]" using assms(1-4) by (simp_all add: scalar_def)
  have hash: "pgHash q = link ?k" using assms(7) by (simp add: show_action_link [OF k(1)])
  have s: "isShownKeyFromUrlHashArray (split_on 47 (a @ 47 # b)) = [ops, a, b]" "take 1 (a @ 47 # b) \<noteq> [47]"
    using assms(3-6) by (auto simp: isShownKeyFromUrlHashArray_def part_def neq_Nil_conv)
  have "47 \<notin> set (replace_underscore a)" using assms(5) by (auto simp: replace_underscore_def)
  then have "a @ 47 # b \<noteq> replace_underscore a" by (metis in_set_conv_decomp)
  then have "?k \<notin> opened [ops, a, b]" by (simp add: opened_def)
  moreover have "loaded True q = Some (q\<lparr>pgShown := shows_all (opened [ops, a, b]) q, pgHash := link [ops, a, b],
      pgScrollToKey := Some [ops, a, b]\<rparr>)"
    unfolding loaded_def hash decode_link [OF k(1)] using open_key [OF s(1) k(2) s(2)] by simp
  ultimately show ?thesis by (auto simp: isShown_def shows_all_def opened_def)
qed

theorem deep_link_slash_misread_witness:
  "\<exists>q'. loaded True \<lparr>pgLayout = None, pgShown = Map.empty, pgScrollToKey = None, pgHash = js ''#/a%2Fb''\<rparr> = Some q' \<and>
     isShown q' [ops, js ''a'', js ''b''] None = Some True \<and> pgShown q' [ops_tag, js ''a/b''] = None"
proof -
  let ?p = "\<lparr>pgLayout = None, pgShown = Map.empty, pgScrollToKey = None, pgHash = js ''#/a%2Fb''\<rparr>"
  have k: "list_all scalar (js ''a'')" "list_all scalar (js ''b'')" "js ''a'' \<noteq> []" "js ''b'' \<noteq> []"
      "47 \<notin> set (js ''a'')" "47 \<notin> set (js ''b'')"
    by (simp_all add: js_def scalar_def)
  have ab: "js ''a'' @ 47 # js ''b'' = js ''a/b''" by (simp add: js_def)
  have "key_ok [ops_tag, js ''a/b'']" by (simp add: js_def scalar_def)
  then have "pgHash ?p = pgHash (show_action True [ops_tag, js ''a'' @ 47 # js ''b''] True ?p)"
    unfolding ab by (simp add: show_action_link) (simp add: link_def js_def unreserved_def scalar_def utf8_def pct_def hex_digit_def)
  from deep_link_slash_misread [OF k this, of None] show ?thesis unfolding ab by auto
qed

end
