(* ===== verification/Ui_Objects.thy ===== *)
theory Ui_Objects
  imports Ui_Search
begin

text \<open>
  Two routines of \<open>swagger-ui-es-bundle.js\<close>: \<open>deeplyStripKey\<close> (\<open>Xe\<close> on the one line of code of the
  file), which removes a key from an API definition before it is displayed, and the code verifier of
  the authorisation requests (\<open>generateCodeVerifier\<close> is \<open>ot\<close>, \<open>b64toB64UrlEncoded\<close> is \<open>it\<close>).
\<close>

section \<open>Removing a key\<close>

text \<open>
  \<open>Atom\<close> is a value that is not an object, \<open>null\<close> and functions included. The properties of an
  object are its own enumerable ones, in their order.
\<close>

datatype 'a json = Atom 'a | Arr "'a json list" | Obj "(jsstr \<times> 'a json) list"

text \<open>
  \<open>Object.assign\<close> does not create a property named \<open>__proto__\<close>; the others are copied in order.
\<close>

fun deeplyStripKey :: "jsstr \<Rightarrow> ('a json \<Rightarrow> jsstr \<Rightarrow> bool) \<Rightarrow> 'a json \<Rightarrow> 'a json"
  and strip_each :: "jsstr \<Rightarrow> ('a json \<Rightarrow> jsstr \<Rightarrow> bool) \<Rightarrow> (jsstr \<times> 'a json) list \<Rightarrow> (jsstr \<times> 'a json) list" where
  "deeplyStripKey keyToStrip predicate (Atom a) = Atom a"
| "deeplyStripKey keyToStrip predicate (Arr vs) = Arr vs"
| "deeplyStripKey keyToStrip predicate (Obj ps) =
     (if keyToStrip = [] then Obj ps else Obj (strip_each keyToStrip predicate ps))"
| "strip_each keyToStrip predicate [] = []"
| "strip_each keyToStrip predicate ((k, v) # ps) =
     (if k = proto then strip_each keyToStrip predicate ps
      else if k = keyToStrip \<and> predicate v k then strip_each keyToStrip predicate ps
      else (k, deeplyStripKey keyToStrip predicate v) # strip_each keyToStrip predicate ps)"

text \<open>The value at a path of keys, and the paths without a removed key.\<close>

fun at_path :: "jsstr list \<Rightarrow> 'a json \<Rightarrow> 'a json option" where
  "at_path [] v = Some v"
| "at_path (k # ks) (Obj ps) = (case map_of ps k of None \<Rightarrow> None | Some v \<Rightarrow> at_path ks v)"
| "at_path (k # ks) _ = None"

fun survives :: "jsstr \<Rightarrow> ('a json \<Rightarrow> jsstr \<Rightarrow> bool) \<Rightarrow> jsstr list \<Rightarrow> 'a json \<Rightarrow> bool" where
  "survives keyToStrip predicate (k # ks) (Obj ps) =
     (case map_of ps k of None \<Rightarrow> True
      | Some v \<Rightarrow> k \<noteq> proto \<and> \<not> (k = keyToStrip \<and> predicate v k) \<and> survives keyToStrip predicate ks v)"
| "survives keyToStrip predicate _ _ = True"

fun distinct_keys :: "'a json \<Rightarrow> bool" where
  "distinct_keys (Obj ps) \<longleftrightarrow> distinct (map fst ps) \<and> list_all (\<lambda>(k, v). distinct_keys v) ps"
| "distinct_keys _ = True"

lemma strip_each_get:
  "distinct (map fst ps) \<Longrightarrow> map_of (strip_each key P ps) k =
     (case map_of ps k of None \<Rightarrow> None
      | Some v \<Rightarrow> if k = proto \<or> k = key \<and> P v k then None else Some (deeplyStripKey key P v))"
proof (induction ps)
  case (Cons p ps)
  obtain k' v where p: "p = (k', v)" by (cases p)
  from Cons.prems p have "map_of ps k' = None" by (simp add: map_of_eq_None_iff)
  with Cons p show ?case by (auto split: option.splits)
qed simp

lemma strip_path:
  "distinct_keys v \<Longrightarrow> key \<noteq> [] \<Longrightarrow>
     at_path path (deeplyStripKey key P v) =
       (if survives key P path v then map_option (deeplyStripKey key P) (at_path path v) else None)"
proof (induction path v rule: at_path.induct)
  case (2 k ks ps)
  then have d: "distinct (map fst ps)" by simp
  show ?case
  proof (cases "map_of ps k")
    case (Some v)
    then have "distinct_keys v" using "2.prems"(1) by (auto simp: list_all_iff dest: map_of_SomeD)
    with "2.IH" [OF Some this "2.prems"(2)] Some "2.prems"(2) show ?thesis
      by (auto simp: strip_each_get [OF d])
  qed (use "2.prems"(2) in \<open>simp add: strip_each_get [OF d]\<close>)
qed simp_all



section \<open>The code verifier\<close>

text \<open>Base 64 of bytes, as \<open>toString("base64")\<close> of a buffer writes it.\<close>

definition b64_char :: "nat \<Rightarrow> nat" where
  "b64_char n = (if n < 26 then 65 + n else if n < 52 then 71 + n else if n < 62 then n - 4 else if n = 62 then 43 else 47)"

fun sextets :: "nat list \<Rightarrow> nat list" where
  "sextets (a # b # c # bs) =
     [a div 4, (a mod 4) * 16 + b div 16, (b mod 16) * 4 + c div 64, c mod 64] @ sextets bs"
| "sextets [a, b] = [a div 4, (a mod 4) * 16 + b div 16, (b mod 16) * 4]"
| "sextets [a] = [a div 4, (a mod 4) * 16]"
| "sextets [] = []"

definition base64 :: "nat list \<Rightarrow> jsstr" where
  "base64 bs = map b64_char (sextets bs) @ replicate ((3 - length bs mod 3) mod 3) 61"

definition replace_all :: "nat \<Rightarrow> jsstr \<Rightarrow> jsstr \<Rightarrow> jsstr" where
  "replace_all d r s = concat (map (\<lambda>c. if c = d then r else [c]) s)"

definition b64toB64UrlEncoded :: "jsstr \<Rightarrow> jsstr" where
  "b64toB64UrlEncoded str = replace_all 61 [] (replace_all 47 [95] (replace_all 43 [45] str))"

text \<open>The argument is what \<open>randomBytes\<close> returns for 32 bytes.\<close>

definition generateCodeVerifier :: "nat list \<Rightarrow> jsstr" where
  "generateCodeVerifier bytes = b64toB64UrlEncoded (base64 bytes)"

definition url_char :: "nat \<Rightarrow> nat" where
  "url_char n = (if n = 62 then 45 else if n = 63 then 95 else b64_char n)"

lemma replace_all_append: "replace_all d r (s @ t) = replace_all d r s @ replace_all d r t"
  by (simp add: replace_all_def)

lemma url_encoded_char: "n < 64 \<Longrightarrow> b64toB64UrlEncoded [b64_char n] = [url_char n]"
  by (auto simp: b64toB64UrlEncoded_def replace_all_def url_char_def b64_char_def)

lemma url_encoded_append: "b64toB64UrlEncoded (s @ t) = b64toB64UrlEncoded s @ b64toB64UrlEncoded t"
  by (simp add: b64toB64UrlEncoded_def replace_all_append)

lemma url_encoded_map: "list_all (\<lambda>n. n < 64) ns \<Longrightarrow> b64toB64UrlEncoded (map b64_char ns) = map url_char ns"
proof (induction ns)
  case (Cons n ns)
  then show ?case using url_encoded_append [of "[b64_char n]" "map b64_char ns"] by (simp add: url_encoded_char)
qed (simp add: b64toB64UrlEncoded_def replace_all_def)

lemma url_encoded_padding: "b64toB64UrlEncoded (replicate n 61) = []"
  by (induction n) (simp_all add: b64toB64UrlEncoded_def replace_all_def)

definition bytes :: "nat list \<Rightarrow> bool" where "bytes bs \<longleftrightarrow> list_all (\<lambda>b. b < 256) bs"

lemma sextet_bounds:
  "a < 256 \<Longrightarrow> a div 4 < (64 :: nat)"
  "b < 256 \<Longrightarrow> (a mod 4) * 16 + b div 16 < (64 :: nat)"
  "c < 256 \<Longrightarrow> (b mod 16) * 4 + c div 64 < (64 :: nat)"
proof -
  show "a < 256 \<Longrightarrow> a div 4 < 64" by (simp add: less_mult_imp_div_less)
  have "a mod 4 < 4" "b mod 16 < 16" by simp_all
  moreover have "b < 256 \<Longrightarrow> b div 16 < 16" "c < 256 \<Longrightarrow> c div 64 < 4" by (simp_all add: less_mult_imp_div_less)
  ultimately show "b < 256 \<Longrightarrow> (a mod 4) * 16 + b div 16 < 64" "c < 256 \<Longrightarrow> (b mod 16) * 4 + c div 64 < 64"
    by linarith+
qed

lemma sextets_bound: "bytes bs \<Longrightarrow> list_all (\<lambda>n. n < 64) (sextets bs)"
proof (induction bs rule: sextets.induct)
  case (2 a b)
  then show ?case using sextet_bounds(3) [of 0 b] by (simp add: bytes_def sextet_bounds)
next
  case (3 a)
  then show ?case using sextet_bounds(2) [of 0 a] by (simp add: bytes_def sextet_bounds)
qed (simp_all add: bytes_def sextet_bounds)

lemma verifier_sextets: "bytes bs \<Longrightarrow> generateCodeVerifier bs = map url_char (sextets bs)"
  by (simp add: generateCodeVerifier_def base64_def url_encoded_append url_encoded_map sextets_bound url_encoded_padding)

lemma url_char_inj: "inj_on url_char {n. n < 64}"
  by (auto simp: inj_on_def url_char_def b64_char_def split: if_splits)

lemma digits_eq:
  assumes "x * k + y = x' * k + y'" "y < k" "y' < (k :: nat)"
  shows "x = x'" "y = y'"
proof -
  have "(x * k + y) div k = x" "(x' * k + y') div k = x'" "(x * k + y) mod k = y" "(x' * k + y') mod k = y'"
    using assms(2,3) by simp_all
  with assms(1) show "x = x'" "y = y'" by simp_all
qed

lemma div_mod_eqI: "a div k = a' div k \<Longrightarrow> a mod k = a' mod k \<Longrightarrow> a = (a' :: nat)"
  by (metis div_mult_mod_eq)

lemma second_sextet:
  assumes "(a mod 4) * 16 + b div 16 = (a' mod 4) * 16 + b' div 16" "b < 256" "b' < (256 :: nat)"
  shows "a mod 4 = a' mod 4" "b div 16 = b' div 16"
  using digits_eq [OF assms(1)] assms(2,3) by (simp_all add: less_mult_imp_div_less)

lemma third_sextet:
  assumes "(b mod 16) * 4 + c div 64 = (b' mod 16) * 4 + c' div 64" "c < 256" "c' < (256 :: nat)"
  shows "b mod 16 = b' mod 16" "c div 64 = c' div 64"
  using digits_eq [OF assms(1)] assms(2,3) by (simp_all add: less_mult_imp_div_less)

lemma sextets_inj:
  "bytes bs \<Longrightarrow> bytes cs \<Longrightarrow> length bs = length cs \<Longrightarrow> sextets bs = sextets cs \<Longrightarrow> bs = cs"
proof (induction bs arbitrary: cs rule: sextets.induct)
  case (1 a b c bs)
  obtain a' b' c' cs' where cs: "cs = a' # b' # c' # cs'"
    using "1.prems"(3) [symmetric] by (auto simp: length_Suc_conv)
  with "1.prems" have lt: "b < 256" "b' < 256" "c < 256" "c' < 256" "bytes bs" "bytes cs'" "length bs = length cs'"
    and eq: "a div 4 = a' div 4" "(a mod 4) * 16 + b div 16 = (a' mod 4) * 16 + b' div 16"
    "(b mod 16) * 4 + c div 64 = (b' mod 16) * 4 + c' div 64" "c mod 64 = c' mod 64" "sextets bs = sextets cs'"
    by (simp_all add: bytes_def)
  note two = second_sextet [OF eq(2) lt(1,2)] and three = third_sextet [OF eq(3) lt(3,4)]
  have "a = a'" "b = b'" "c = c'"
    using div_mod_eqI [OF eq(1) two(1)] div_mod_eqI [OF two(2) three(1)] div_mod_eqI [OF three(2) eq(4)] by simp_all
  with "1.IH" [OF lt(5-7) eq(5)] cs show ?case by simp
next
  case (2 a b)
  obtain a' b' where cs: "cs = [a', b']" using "2.prems"(3) [symmetric] by (auto simp: length_Suc_conv)
  with "2.prems" have lt: "b < 256" "b' < 256"
    and eq: "a div 4 = a' div 4" "(a mod 4) * 16 + b div 16 = (a' mod 4) * 16 + b' div 16" "b mod 16 = b' mod 16"
    by (simp_all add: bytes_def)
  note two = second_sextet [OF eq(2) lt]
  show ?case using div_mod_eqI [OF eq(1) two(1)] div_mod_eqI [OF two(2) eq(3)] cs by simp
next
  case (3 a)
  obtain a' where cs: "cs = [a']" using "3.prems"(3) [symmetric] by (auto simp: length_Suc_conv)
  with "3.prems" have "a div 4 = a' div 4" "a mod 4 = a' mod 4" by simp_all
  from div_mod_eqI [OF this] cs show ?case by simp
qed simp

lemma sextets_length: "3 * length (sextets bs) = 4 * length bs + (if length bs mod 3 = 0 then 0 else length bs mod 3 mod 2 + 1)"
  by (induction bs rule: sextets.induct) simp_all

lemma url_char_unreserved:
  assumes "n < 64"
  shows "unreserved (url_char n)"
proof -
  consider "n < 26" | "26 \<le> n" "n < 52" | "52 \<le> n" "n < 62" | "n = 62" | "n = 63" using assms by linarith
  then show ?thesis
  proof cases
    case 1
    then show ?thesis by (simp add: url_char_def b64_char_def unreserved_def)
  next
    case 2
    then show ?thesis by (simp add: url_char_def b64_char_def unreserved_def)
  next
    case 3
    then have "48 \<le> n - 4" "n - 4 \<le> 57" by linarith+
    with 3 show ?thesis by (simp add: url_char_def b64_char_def unreserved_def)
  qed (simp_all add: url_char_def unreserved_def js_def)
qed

text \<open>
  A code verifier of 32 random bytes has the 43 characters that the authorisation standard asks
  for as a minimum, all of them letters, digits, \<open>-\<close> or \<open>_\<close>, and no two draws share a verifier.
\<close>

theorem code_verifier_safe:
  assumes "bytes bs" "length bs = 32" "bytes cs" "length cs = 32"
  shows "length (generateCodeVerifier bs) = 43 \<and> list_all unreserved (generateCodeVerifier bs) \<and>
    (generateCodeVerifier bs = generateCodeVerifier cs \<longleftrightarrow> bs = cs)"
proof (intro conjI)
  have "length (sextets bs) = 43" using sextets_length [of bs] assms(2) by simp
  then show "length (generateCodeVerifier bs) = 43" using verifier_sextets [OF assms(1)] by simp
  have "unreserved (url_char n)" if "n < 64" for n by (rule url_char_unreserved [OF that])
  with sextets_bound [OF assms(1)] show "list_all unreserved (generateCodeVerifier bs)"
    unfolding verifier_sextets [OF assms(1)] by (auto simp: list_all_iff)
  have "map url_char (sextets bs) = map url_char (sextets cs) \<longleftrightarrow> sextets bs = sextets cs"
    using sextets_bound [OF assms(1)] sextets_bound [OF assms(3)]
    by (intro inj_on_map_eq_map inj_on_subset [OF url_char_inj]) (auto simp: list_all_iff)
  with sextets_inj [OF assms(1,3)] assms(2,4)
  show "generateCodeVerifier bs = generateCodeVerifier cs \<longleftrightarrow> bs = cs"
    unfolding verifier_sextets [OF assms(1)] verifier_sextets [OF assms(3)] by auto
qed

theorem code_verifier_safe_witness:
  "length (generateCodeVerifier (replicate 32 255)) = 43 \<and>
   generateCodeVerifier (replicate 32 255) \<noteq> generateCodeVerifier (254 # replicate 31 255)"
proof -
  have b: "bytes (replicate 32 255)" "length (replicate 32 (255 :: nat)) = 32"
      "bytes (254 # replicate 31 255)" "length (254 # replicate 31 (255 :: nat)) = 32"
    by (simp_all add: bytes_def list_all_iff)
  have "hd (replicate 32 255) \<noteq> hd (254 # replicate 31 (255 :: nat))" by simp
  then have "replicate 32 255 \<noteq> 254 # replicate 31 (255 :: nat)" by (rule contrapos_nn) (rule arg_cong)
  with code_verifier_safe [OF b] show ?thesis by blast
qed

end
