(* ===== verification/Ui_Sanitize.thy ===== *)
theory Ui_Sanitize
  imports Ui_Strings "HOL-Library.Sublist"
begin

text \<open>
  \<open>sanitizeUrl\<close> of \<open>swagger-ui-standalone-preset.js\<close>: every link and image address that comes from an
  API definition passes through it before it is put into the page. The file is one line of minified
  code; the function is the module that defines \<open>e.sanitizeUrl\<close>, with its three expressions
  \<open>r\<close> (\<open>dangerous\<close> below), \<open>i\<close> (\<open>control\<close>), \<open>o\<close> (\<open>first_scheme\<close>) and the list \<open>u\<close> (\<open>relative_url\<close>).
  What a browser takes for the scheme of an address is written here after the URL standard.
\<close>

section \<open>The function\<close>

text \<open>The characters \<open>i\<close> deletes.\<close>

definition control :: "nat \<Rightarrow> bool" where
  "control c \<longleftrightarrow> c \<le> 0x1F \<or> 0x7F \<le> c \<and> c \<le> 0x9F \<or> 0x2000 \<le> c \<and> c \<le> 0x200D \<or> c = 0xFEFF"

definition word_char :: "nat \<Rightarrow> bool" where
  "word_char c \<longleftrightarrow> 65 \<le> c \<and> c \<le> 90 \<or> 97 \<le> c \<and> c \<le> 122 \<or> 48 \<le> c \<and> c \<le> 57 \<or> c = 95"

definition lower :: "nat \<Rightarrow> nat" where
  "lower c = (if 65 \<le> c \<and> c \<le> 90 then c + 32 else c)"

text \<open>Where \<open>^\<close> matches with the flag \<open>m\<close>: at the start and after a line end.\<close>

definition line_end :: "nat \<Rightarrow> bool" where
  "line_end c \<longleftrightarrow> c \<in> {10, 13, 0x2028, 0x2029}"

fun after_lines :: "jsstr \<Rightarrow> jsstr list" where
  "after_lines [] = []"
| "after_lines (c # cs) = (if line_end c then [cs] else []) @ after_lines cs"

definition line_starts :: "jsstr \<Rightarrow> jsstr list" where
  "line_starts s = s # after_lines s"

definition script_schemes :: "jsstr list" where
  "script_schemes = [js ''javascript'', js ''data'', js ''vbscript'']"

text \<open>
  \<open>/^([^\w]*)(javascript|data|vbscript)/im\<close>. The three words start with a word character, so that
  the first group is the whole run of other characters.
\<close>

definition dangerous_at :: "jsstr \<Rightarrow> bool" where
  "dangerous_at s \<longleftrightarrow> list_ex (\<lambda>w. take (length w) (map lower (dropWhile (\<lambda>c. \<not> word_char c) s)) = w) script_schemes"

definition dangerous :: "jsstr \<Rightarrow> bool" where
  "dangerous s \<longleftrightarrow> list_ex dangerous_at (line_starts s)"

text \<open>The first match of \<open>/^([^:]+):/gm\<close>.\<close>

definition scheme_at :: "jsstr \<Rightarrow> jsstr option" where
  "scheme_at s = (let p = takeWhile (\<lambda>c. c \<noteq> 58) s in
     if p \<noteq> [] \<and> dropWhile (\<lambda>c. c \<noteq> 58) s \<noteq> [] then Some (p @ [58]) else None)"

fun first_some :: "('a \<Rightarrow> 'b option) \<Rightarrow> 'a list \<Rightarrow> 'b option" where
  "first_some f [] = None"
| "first_some f (x # xs) = (case f x of Some y \<Rightarrow> Some y | None \<Rightarrow> first_some f xs)"

definition first_scheme :: "jsstr \<Rightarrow> jsstr option" where
  "first_scheme s = first_some scheme_at (line_starts s)"

definition relative_url :: "jsstr \<Rightarrow> bool" where
  "relative_url s \<longleftrightarrow> (case s of [] \<Rightarrow> False | c # _ \<Rightarrow> c \<in> {46, 47})"

definition about_blank :: jsstr where "about_blank = js ''about:blank''"

definition sanitizeUrl :: "jsstr \<Rightarrow> jsstr" where
  "sanitizeUrl url =
     (if url = [] then about_blank
      else let sanitized = trim (filter (\<lambda>c. \<not> control c) url) in
        if relative_url sanitized then sanitized
        else case first_scheme sanitized of None \<Rightarrow> sanitized
          | Some s \<Rightarrow> if dangerous s then about_blank else sanitized)"

section \<open>The scheme of an address\<close>

text \<open>
  How a browser reads an address: controls and spaces around it and all tabs and line ends are
  dropped; the scheme is a letter followed by letters, digits, \<open>+\<close>, \<open>-\<close> and \<open>.\<close>, up to a colon,
  without regard to case.
\<close>

definition alpha :: "nat \<Rightarrow> bool" where
  "alpha c \<longleftrightarrow> 65 \<le> c \<and> c \<le> 90 \<or> 97 \<le> c \<and> c \<le> 122"

definition scheme_char :: "nat \<Rightarrow> bool" where
  "scheme_char c \<longleftrightarrow> alpha c \<or> 48 \<le> c \<and> c \<le> 57 \<or> c \<in> {43, 45, 46}"

definition url_scheme :: "jsstr \<Rightarrow> jsstr option" where
  "url_scheme s =
     (let u = filter (\<lambda>c. c \<notin> {9, 10, 13}) (rev (dropWhile (\<lambda>c. c \<le> 32) (rev (dropWhile (\<lambda>c. c \<le> 32) s))));
          p = takeWhile scheme_char u; r = dropWhile scheme_char u in
      if p \<noteq> [] \<and> alpha (hd p) \<and> r \<noteq> [] \<and> hd r = 58 then Some (map lower p) else None)"

section \<open>What comes out\<close>

lemma dropWhile_id: "s = [] \<or> \<not> P (hd s) \<Longrightarrow> dropWhile P s = s"
  by (cases s) auto

lemma trim_ends: "trim s = [] \<or> \<not> js_space (hd (trim s)) \<and> \<not> js_space (last (trim s))"
proof (cases "trim s = []")
  case False
  let ?a = "dropWhile js_space s"
  let ?d = "dropWhile js_space (rev ?a)"
  have d: "?d \<noteq> []" using False by (simp add: trim_def)
  then have "\<not> js_space (hd ?d)" by (rule hd_dropWhile)
  then have "\<not> js_space (last (trim s))" using d by (simp add: trim_def last_rev)
  moreover have "hd (trim s) = hd ?a"
  proof -
    have "rev ?a = takeWhile js_space (rev ?a) @ ?d" by simp
    then have "?a = rev ?d @ rev (takeWhile js_space (rev ?a))" by (metis rev_append rev_rev_ident)
    moreover have "rev ?d \<noteq> []" using d by simp
    ultimately show ?thesis by (metis hd_append2 trim_def)
  qed
  moreover have "?a \<noteq> []" using d by (metis dropWhile.simps(1) rev.simps(1))
  then have "\<not> js_space (hd ?a)" by (rule hd_dropWhile)
  ultimately show ?thesis by simp
qed simp

lemma trim_set: "set (trim s) \<subseteq> set s"
proof -
  have "set (dropWhile js_space u) \<subseteq> set u" for u using set_dropWhileD by fast
  from this [of s] this [of "rev (dropWhile js_space s)"] show ?thesis by (simp add: trim_def)
qed

lemma trim_id: "s = [] \<or> \<not> js_space (hd s) \<and> \<not> js_space (last s) \<Longrightarrow> trim s = s"
  using dropWhile_id [of s js_space] dropWhile_id [of "rev s" js_space] by (auto simp: trim_def hd_rev)

text \<open>An address after the first step.\<close>

definition clean :: "jsstr \<Rightarrow> bool" where
  "clean s \<longleftrightarrow> list_all (\<lambda>c. \<not> control c) s \<and> (s = [] \<or> \<not> js_space (hd s) \<and> \<not> js_space (last s))"

lemma cleaned: "clean (trim (filter (\<lambda>c. \<not> control c) s))"
  using trim_ends [of "filter (\<lambda>c. \<not> control c) s"] trim_set [of "filter (\<lambda>c. \<not> control c) s"]
  by (auto simp: clean_def list_all_iff)

lemma clean_id: "clean s \<Longrightarrow> trim (filter (\<lambda>c. \<not> control c) s) = s"
  by (simp add: clean_def list_all_iff trim_id)

lemma clean_url_scheme:
  assumes "clean s"
  shows "url_scheme s =
     (let p = takeWhile scheme_char s; r = dropWhile scheme_char s in
      if p \<noteq> [] \<and> alpha (hd p) \<and> r \<noteq> [] \<and> hd r = 58 then Some (map lower p) else None)"
proof -
  have big: "\<not> c \<le> 32" if "\<not> control c" "\<not> js_space c" for c
    using that by (auto simp: control_def js_space_def)
  have "dropWhile (\<lambda>c. c \<le> 32) s = s"
    using assms big by (cases s) (auto simp: clean_def)
  moreover have "dropWhile (\<lambda>c. c \<le> 32) (rev s) = rev s"
    using assms big by (cases s rule: rev_cases) (auto simp: clean_def)
  moreover have "filter (\<lambda>c. c \<notin> {9, 10, 13}) s = s"
    using assms by (auto simp: clean_def list_all_iff control_def intro!: filter_True)
  ultimately show ?thesis by (simp add: url_scheme_def)
qed

lemma scheme_char_plain: "scheme_char c \<Longrightarrow> c \<noteq> 58"
  by (auto simp: scheme_char_def alpha_def)

lemma alpha_word: "alpha c \<Longrightarrow> word_char c"
  by (auto simp: alpha_def word_char_def)

lemma before_colon: "58 \<notin> set p \<Longrightarrow> takeWhile (\<lambda>c. c \<noteq> 58) (p @ 58 # r) = p \<and> dropWhile (\<lambda>c. c \<noteq> 58) (p @ 58 # r) = 58 # r"
  by (induction p) auto

text \<open>The first match is the text before the first colon of an address that does not start with one.\<close>

lemma first_scheme_colon: "58 \<notin> set p \<Longrightarrow> p \<noteq> [] \<Longrightarrow> first_scheme (p @ 58 # r) = Some (p @ [58])"
  using before_colon [of p r] by (simp add: first_scheme_def line_starts_def scheme_at_def)

lemma dangerous_script:
  assumes "map lower p \<in> set script_schemes" "p \<noteq> []" "alpha (hd p)"
  shows "dangerous (p @ [58])"
proof -
  from assms(2,3) have d: "dropWhile (\<lambda>c. \<not> word_char c) (p @ [58]) = p @ [58]"
    by (cases p) (auto dest: alpha_word)
  have "take (length (map lower p)) (map lower (p @ [58])) = map lower p" by simp
  with assms(1) have "dangerous_at (p @ [58])"
    unfolding dangerous_at_def list_ex_iff d by blast
  then show ?thesis by (simp add: dangerous_def line_starts_def)
qed

lemma blank_scheme: "url_scheme about_blank = Some (js ''about'')"
  by code_simp

text \<open>
  C29: whatever text it is given, the address \<open>sanitizeUrl\<close> returns is not one that a browser would
  run as a script or read as inline data: its scheme, as the browser reads it, is not
  \<open>javascript\<close>, \<open>vbscript\<close> or \<open>data\<close>, with any capital letters, and with any controls, white space
  or zero-width characters that were put around or into it.
\<close>

theorem sanitizeUrl_never_script:
  "url_scheme (sanitizeUrl url) \<noteq> Some (js ''javascript'') \<and> url_scheme (sanitizeUrl url) \<noteq> Some (js ''vbscript'') \<and>
   url_scheme (sanitizeUrl url) \<noteq> Some (js ''data'')"
proof -
  define e where "e = trim (filter (\<lambda>c. \<not> control c) url)"
  have e: "clean e" unfolding e_def by (rule cleaned)
  have safe: "w \<notin> set script_schemes" if s: "url_scheme (sanitizeUrl url) = Some w" for w
  proof (cases "sanitizeUrl url = about_blank")
    case True
    with s show ?thesis by (auto simp: blank_scheme script_schemes_def js_def)
  next
    case False
    let ?p = "takeWhile scheme_char e"
    from False have "sanitizeUrl url = e" by (auto simp: sanitizeUrl_def e_def Let_def split: if_splits option.splits)
    with s have p: "?p \<noteq> []" "alpha (hd ?p)" "w = map lower ?p"
      and r: "dropWhile scheme_char e \<noteq> []" "hd (dropWhile scheme_char e) = 58"
      by (simp_all add: clean_url_scheme [OF e] Let_def split: if_splits)
    have colon: "58 \<notin> set ?p" using set_takeWhileD scheme_char_plain by fastforce
    have split: "e = ?p @ 58 # tl (dropWhile scheme_char e)" using r by (metis list.collapse takeWhile_dropWhile_id)
    have first: "first_scheme e = Some (?p @ [58])"
      using first_scheme_colon [OF colon p(1)] split by metis
    have "\<not> relative_url e" using p(1,2) by (cases e) (auto simp: relative_url_def alpha_def split: if_splits)
    with first False have "\<not> dangerous (?p @ [58])"
      by (auto simp: sanitizeUrl_def e_def [symmetric] Let_def split: if_splits)
    with dangerous_script [of ?p] p show ?thesis by blast
  qed
  show ?thesis using safe by (auto simp: script_schemes_def)
qed

text \<open>
  Which addresses are refused. An address without controls and outer white space that starts
  with a word and a colon is returned unchanged, unless the word begins, in any capitals, with one
  of the three schemes; then the result is \<open>about:blank\<close>. The whole word is not compared: an
  address such as \<open>database:x\<close> is refused too.
\<close>

theorem sanitizeUrl_by_scheme:
  assumes "clean (p @ 58 # r)" "p \<noteq> []" "list_all word_char p"
  shows "sanitizeUrl (p @ 58 # r) =
    (if \<exists>w \<in> set script_schemes. prefix w (map lower p) then about_blank else p @ 58 # r)"
proof -
  have no: "58 \<notin> set p" "\<forall>c \<in> set p. \<not> line_end c" "word_char (hd p)" "\<not> relative_url (p @ 58 # r)"
    using assms(2,3) by (cases p; fastforce simp: list_all_iff word_char_def line_end_def relative_url_def)+
  have lines: "after_lines (p @ [58]) = []"
    using no(2) by (induction p) (auto simp: line_end_def)
  have at: "dangerous (p @ [58]) \<longleftrightarrow> (\<exists>w \<in> set script_schemes. take (length w) (map lower p @ [58]) = w)"
  proof -
    have "dropWhile (\<lambda>c. \<not> word_char c) (p @ [58]) = p @ [58]"
      using no(3) assms(2) by (cases p) auto
    then show ?thesis
      by (simp add: dangerous_def line_starts_def lines dangerous_at_def list_ex_iff lower_def)
  qed
  have eq: "take (length w) (map lower p @ [58]) = w \<longleftrightarrow> prefix w (map lower p)" if "w \<in> set script_schemes" for w
  proof -
    have "58 \<notin> set w" using that by (auto simp: script_schemes_def js_def)
    then have "take (length w) (map lower p @ [58]) = w \<longleftrightarrow> take (length w) (map lower p) = w"
      by (cases "length w \<le> length p") (auto simp: take_Cons' split: if_splits)
    then show ?thesis by (metis append_eq_conv_conj prefix_def take_is_prefix)
  qed
  show ?thesis
    using no(4) first_scheme_colon [OF no(1) assms(2)] at eq
    unfolding sanitizeUrl_def Let_def clean_id [OF assms(1)] by simp
qed

theorem sanitizeUrl_by_scheme_witness:
  "sanitizeUrl (js ''https://a'') = js ''https://a'' \<and> sanitizeUrl (js ''DataBase:x'') = about_blank"
proof -
  have w: "clean (js ''https'' @ 58 # js ''//a'')" "js ''https'' \<noteq> []" "list_all word_char (js ''https'')"
    "clean (js ''DataBase'' @ 58 # js ''x'')" "js ''DataBase'' \<noteq> []" "list_all word_char (js ''DataBase'')"
    by (simp_all add: js_def clean_def control_def js_space_def word_char_def)
  show ?thesis
    using sanitizeUrl_by_scheme [OF w(1-3)] sanitizeUrl_by_scheme [OF w(4-6)]
    by (simp add: js_def script_schemes_def lower_def)
qed

end
