(* ===== verification/Ui_Json_Patch.thy ===== *)
theory Ui_Json_Patch
  imports Ui_Objects "HOL-Library.Word" "HOL-Library.Log_Nat" "HOL-Library.Sublist"
begin

text \<open>
  JSON patches, as \<open>swagger-ui-es-bundle.js\<close> applies them to the API definition while it resolves
  references: escaping of keys (\<open>Ie\<close> and \<open>Pe\<close> on the one line of code of the file), equality
  (\<open>$e\<close>), one operation (\<open>Ue\<close> with the tables \<open>Be\<close> for objects and \<open>Fe\<close> for arrays), a sequence
  of operations (\<open>qe\<close>), reading a pointer (\<open>ze\<close>), the comparison of two documents that generates a
  patch (\<open>Xe\<close> and \<open>et\<close>) and the pointer of a list of keys (\<open>ot\<close>). The client never asks for the
  validation of patches, which is not modelled. A document is a JSON value: an operation that would
  leave JSON (a hole in an array, an inherited property, a property of a string) ends in \<open>Outside\<close>.
\<close>

section \<open>Documents\<close>

text \<open>The numbers of the language are only compared here; \<open>NaN\<close> is not JSON.\<close>

datatype 'n prim = JNull | JBool bool | JNum 'n | JStr jsstr

type_synonym 'n document = "'n prim json"

datatype patch_error = Type_error | Test_failed | Outside

type_synonym 'x patched = "patch_error + 'x"

fun and_then :: "'x patched \<Rightarrow> ('x \<Rightarrow> 'y patched) \<Rightarrow> 'y patched" where
  "and_then (Inl e) f = Inl e"
| "and_then (Inr x) f = f x"

definition is_array :: "'a json \<Rightarrow> bool" where
  "is_array v \<longleftrightarrow> (case v of Arr _ \<Rightarrow> True | _ \<Rightarrow> False)"

definition is_object :: "'a json \<Rightarrow> bool" where
  "is_object v \<longleftrightarrow> (case v of Atom _ \<Rightarrow> False | _ \<Rightarrow> True)"

section \<open>Equality\<close>

text \<open>
  \<open>_areEquals\<close>: lists and properties are compared from the last to the first. A property called
  \<open>hasOwnProperty\<close> hides the method the comparison calls: \<open>None\<close> is that type error.
\<close>

definition has_own :: jsstr where "has_own = js ''hasOwnProperty''"

fun areEquals :: "'a json \<Rightarrow> 'a json \<Rightarrow> bool option"
  and equal_items :: "'a json list \<Rightarrow> 'a json list \<Rightarrow> bool option"
  and equal_props :: "(jsstr \<times> 'a json) list \<Rightarrow> (jsstr \<times> 'a json) list \<Rightarrow> bool option" where
  "areEquals (Atom a) (Atom b) = Some (a = b)"
| "areEquals (Arr vs) (Arr ws) = (if length vs \<noteq> length ws then Some False else equal_items vs ws)"
| "areEquals (Obj ps) (Obj qs) =
     (if length ps \<noteq> length qs then Some False
      else if ps \<noteq> [] \<and> has_own \<in> fst ` set qs then None
      else if \<exists>p \<in> set ps. fst p \<notin> fst ` set qs then Some False
      else equal_props ps qs)"
| "areEquals _ _ = Some False"
| "equal_items (v # vs) (w # ws) = (case equal_items vs ws of Some True \<Rightarrow> areEquals v w | r \<Rightarrow> r)"
| "equal_items _ _ = Some True"
| "equal_props [] qs = Some True"
| "equal_props ((k, v) # ps) qs = (case equal_props ps qs of
     Some True \<Rightarrow> (case map_of qs k of None \<Rightarrow> Some False | Some w \<Rightarrow> areEquals v w) | r \<Rightarrow> r)"

section \<open>Keys in pointers\<close>

fun replace_pair :: "nat \<Rightarrow> nat \<Rightarrow> nat \<Rightarrow> jsstr \<Rightarrow> jsstr" where
  "replace_pair a b r (c # d # s) =
     (if c = a \<and> d = b then r # replace_pair a b r s else c # replace_pair a b r (d # s))"
| "replace_pair a b r s = s"

definition escapePathComponent :: "jsstr \<Rightarrow> jsstr" where
  "escapePathComponent path =
     (if 47 \<notin> set path \<and> 126 \<notin> set path then path
      else replace_all 47 [126, 49] (replace_all 126 [126, 48] path))"

definition unescapePathComponent :: "jsstr \<Rightarrow> jsstr" where
  "unescapePathComponent path = replace_pair 126 48 126 (replace_pair 126 49 47 path)"

text \<open>The pointer of a list of keys.\<close>

definition normalizeJSONPath :: "jsstr list \<Rightarrow> jsstr" where
  "normalizeJSONPath path =
     (if path = [] then []
      else 47 # join_with 47 (map (\<lambda>k. replace_all 47 [126, 49] (replace_all 126 [126, 48] k)) path))"

section \<open>Arrays\<close>

text \<open>
  A row of digits, also the empty one, is an index: its value as a double, cut to 32 bits with a
  sign. A minus sign is the length.
\<close>

definition isInteger :: "jsstr \<Rightarrow> bool" where
  "isInteger str \<longleftrightarrow> list_all (\<lambda>c. 48 \<le> c \<and> c \<le> 57) str"

definition to_double :: "nat \<Rightarrow> nat" where
  "to_double n =
     (if int n < 2 ^ 53 then n
      else let u = 2 ^ (floorlog 2 n - 53); q = n div u; r = n mod u in
        (if u < 2 * r \<or> u = 2 * r \<and> odd q then q + 1 else q) * u)"

definition to_int32 :: "jsstr \<Rightarrow> int" where
  "to_int32 digits = sint (word_of_nat (to_double (numeral_value digits)) :: 32 word)"

definition array_index :: "nat \<Rightarrow> jsstr \<Rightarrow> int option" where
  "array_index len key = (if key = [45] then Some (int len) else if isInteger key then Some (to_int32 key) else None)"

text \<open>Where \<open>splice\<close> starts.\<close>

definition splice_at :: "nat \<Rightarrow> int \<Rightarrow> nat" where
  "splice_at len i = (if i < 0 then nat (int len + i) else min len (nat i))"

section \<open>One operation\<close>

datatype 'n op =
    Add jsstr "'n document"
  | Remove jsstr
  | Replace jsstr "'n document"
  | Move jsstr jsstr
  | Copy jsstr jsstr
  | Test jsstr "'n document"
  | Get jsstr

text \<open>Properties every object has without owning them.\<close>

definition inherited :: "jsstr list" where
  "inherited = map js [''constructor'', ''__defineGetter__'', ''__defineSetter__'', ''hasOwnProperty'',
     ''__lookupGetter__'', ''__lookupSetter__'', ''isPrototypeOf'', ''propertyIsEnumerable'', ''toString'',
     ''valueOf'', ''toLocaleString'']"

text \<open>\<open>s[p]\<close>, where \<open>None\<close> is \<open>undefined\<close>.\<close>

fun child :: "'n document \<Rightarrow> jsstr \<Rightarrow> 'n document option patched" where
  "child (Obj ps) key =
     (case map_of ps key of Some v \<Rightarrow> Inr (Some v)
      | None \<Rightarrow> if key \<in> set inherited then Inl Outside else Inr None)"
| "child (Arr vs) key =
     (case array_index (length vs) key of None \<Rightarrow> Inl Outside
      | Some i \<Rightarrow> Inr (if 0 \<le> i \<and> nat i < length vs then Some (vs ! nat i) else None))"
| "child (Atom JNull) key = Inl Type_error"
| "child (Atom _) key = Inl Outside"

text \<open>The document after its child was changed in place.\<close>

fun put_child :: "'n document \<Rightarrow> jsstr \<Rightarrow> 'n document \<Rightarrow> 'n document" where
  "put_child (Obj ps) key c = Obj (obj_put key c ps)"
| "put_child (Arr vs) key c = Arr (vs[nat (the (array_index (length vs) key)) := c])"
| "put_child (Atom a) key c = Atom a"

text \<open>The operation at the end of its path, with the value it removes or reads.\<close>

fun at_end :: "'n op \<Rightarrow> 'n document \<Rightarrow> jsstr \<Rightarrow> ('n document \<times> 'n document option) patched" where
  "at_end (Add _ v) (Obj ps) key = Inr (Obj (obj_put key v ps), None)"
| "at_end (Add _ v) (Arr vs) key =
     (case array_index (length vs) key of None \<Rightarrow> Inl Outside
      | Some i \<Rightarrow> (let s = splice_at (length vs) i in Inr (Arr (take s vs @ v # drop s vs), None)))"
| "at_end (Add _ v) (Atom _) key = Inl Type_error"
| "at_end (Remove _) (Obj ps) key = Inr (Obj (filter (\<lambda>p. fst p \<noteq> key) ps), map_of ps key)"
| "at_end (Remove _) (Arr vs) key =
     (case array_index (length vs) key of None \<Rightarrow> Inl Outside
      | Some i \<Rightarrow> (let s = splice_at (length vs) i in
          Inr (Arr (take s vs @ drop (Suc s) vs), if s < length vs then Some (vs ! s) else None)))"
| "at_end (Remove _) (Atom a) key = Inl (if a = JNull then Type_error else Outside)"
| "at_end (Replace _ v) (Obj ps) key = Inr (Obj (obj_put key v ps), map_of ps key)"
| "at_end (Replace _ v) (Arr vs) key =
     (case array_index (length vs) key of None \<Rightarrow> Inl Outside
      | Some i \<Rightarrow> if 0 \<le> i \<and> nat i < length vs then Inr (Arr (vs[nat i := v]), Some (vs ! nat i))
          else if i = int (length vs) then Inr (Arr (vs @ [v]), None) else Inl Outside)"
| "at_end (Replace _ v) (Atom _) key = Inl Type_error"
| "at_end (Test _ v) (Obj ps) key =
     (case map_of ps key of None \<Rightarrow> Inl Test_failed
      | Some w \<Rightarrow> (case areEquals w v of None \<Rightarrow> Inl Type_error
          | Some ok \<Rightarrow> if ok then Inr (Obj ps, None) else Inl Test_failed))"
| "at_end (Test _ v) s key =
     and_then (child s key) (\<lambda>c. case c of None \<Rightarrow> Inl Test_failed
      | Some w \<Rightarrow> (case areEquals w v of None \<Rightarrow> Inl Type_error
          | Some ok \<Rightarrow> if ok then Inr (s, None) else Inl Test_failed))"
| "at_end (Get _) s key = and_then (child s key) (\<lambda>c. Inr (s, c))"
| "at_end (Move _ _) s key = Inr (s, None)"
| "at_end (Copy _ _) s key = Inr (s, None)"

text \<open>
  The walk along the components of a path. \<open>__proto__\<close> is banned; the step after \<open>undefined\<close> is a
  type error.
\<close>

definition component :: "jsstr \<Rightarrow> jsstr" where
  "component p = (if 126 \<in> set p then unescapePathComponent p else p)"

fun walk :: "'n op \<Rightarrow> jsstr list \<Rightarrow> 'n document \<Rightarrow> ('n document \<times> 'n document option) patched" where
  "walk op [] s = Inl Outside"
| "walk op [p] s = (if component p = proto then Inl Type_error else at_end op s (component p))"
| "walk op (p # q # ps) s =
     (if component p = proto then Inl Type_error
      else and_then (child s (component p)) (\<lambda>c. case c of None \<Rightarrow> Inl Type_error
        | Some c \<Rightarrow> and_then (walk op (q # ps) c) (\<lambda>(c', removed). Inr (put_child s (component p) c', removed))))"

text \<open>A path without a slash has no first component: the key is \<open>undefined\<close>.\<close>

definition walk_path :: "'n op \<Rightarrow> jsstr \<Rightarrow> 'n document \<Rightarrow> ('n document \<times> 'n document option) patched" where
  "walk_path op path s =
     (if 47 \<in> set path then walk op (tl (split_on 47 path)) s
      else if is_array s then Inl Type_error else at_end op s (js ''undefined''))"

definition getValueByPointer :: "'n document \<Rightarrow> jsstr \<Rightarrow> 'n document option patched" where
  "getValueByPointer doc pointer =
     (if pointer = [] then Inr (Some doc) else and_then (walk_path (Get pointer) pointer doc) (\<lambda>(d, v). Inr v))"

text \<open>The operations that do not call another operation, at the root and below.\<close>

definition apply_at :: "'n op \<Rightarrow> jsstr \<Rightarrow> 'n document \<Rightarrow> ('n document \<times> 'n document option) patched" where
  "apply_at op path doc =
     (if path = [] then
        (case op of Add _ v \<Rightarrow> Inr (v, None)
         | Replace _ v \<Rightarrow> Inr (v, Some doc)
         | Remove _ \<Rightarrow> Inr (Atom JNull, Some doc)
         | Test _ v \<Rightarrow> (case areEquals doc v of None \<Rightarrow> Inl Type_error
             | Some ok \<Rightarrow> if ok then Inr (doc, None) else Inl Test_failed)
         | _ \<Rightarrow> Inr (doc, Some doc))
      else walk_path op path doc)"

text \<open>
  \<open>applyOperation\<close>: the new document. A move of the whole document into itself and the insertion of
  \<open>undefined\<close> are not JSON; a copy turns \<open>undefined\<close> into \<open>null\<close>.
\<close>

definition applyOperation :: "'n document \<Rightarrow> 'n op \<Rightarrow> 'n document patched" where
  "applyOperation doc op =
     (case op of
        Add path v \<Rightarrow> and_then (apply_at op path doc) (\<lambda>(d, _). Inr d)
      | Remove path \<Rightarrow> and_then (apply_at op path doc) (\<lambda>(d, _). Inr d)
      | Replace path v \<Rightarrow> and_then (apply_at op path doc) (\<lambda>(d, _). Inr d)
      | Test path v \<Rightarrow> and_then (apply_at op path doc) (\<lambda>(d, _). Inr d)
      | Get path \<Rightarrow> and_then (apply_at op path doc) (\<lambda>(d, _). Inr d)
      | Move from path \<Rightarrow>
          if path = [] then and_then (getValueByPointer doc from) (\<lambda>v. case v of None \<Rightarrow> Inl Outside | Some v \<Rightarrow> Inr v)
          else and_then (walk_path op path doc) (\<lambda>_.
            and_then (getValueByPointer doc path) (\<lambda>_.
              if from = [] then Inl Outside
              else and_then (apply_at (Remove from) from doc) (\<lambda>(d, removed). case removed of None \<Rightarrow> Inl Outside
                | Some v \<Rightarrow> and_then (apply_at (Add path v) path d) (\<lambda>(d, _). Inr d))))
      | Copy from path \<Rightarrow>
          if path = [] then and_then (getValueByPointer doc from) (\<lambda>v. case v of None \<Rightarrow> Inl Outside | Some v \<Rightarrow> Inr v)
          else and_then (walk_path op path doc) (\<lambda>_.
            and_then (getValueByPointer doc from) (\<lambda>v.
              and_then (apply_at (Add path (case v of None \<Rightarrow> Atom JNull | Some v \<Rightarrow> v)) path doc) (\<lambda>(d, _). Inr d))))"

fun applyPatch :: "'n document \<Rightarrow> 'n op list \<Rightarrow> 'n document patched" where
  "applyPatch doc [] = Inr doc"
| "applyPatch doc (op # ops) = and_then (applyOperation doc op) (\<lambda>d. applyPatch d ops)"

section \<open>The comparison of two documents\<close>

fun decimal :: "nat \<Rightarrow> jsstr" where
  "decimal n = (if n < 10 then [48 + n] else decimal (n div 10) @ [48 + n mod 10])"

declare decimal.simps [simp del]

text \<open>The own keys with their values; the keys of an array are its indices.\<close>

fun entries :: "'a json \<Rightarrow> (jsstr \<times> 'a json) list" where
  "entries (Obj ps) = ps"
| "entries (Arr vs) = zip (map decimal [0..<length vs]) vs"
| "entries (Atom a) = []"

definition entries_size :: "(jsstr \<times> 'a json) list \<Rightarrow> nat" where
  "entries_size ps = sum_list (map (\<lambda>p. size (snd p) + 1) ps)"

lemma entries_size_less: "entries_size (entries v) < size (v :: 'a json)"
proof (cases v)
  case (Arr vs)
  have "map (\<lambda>p. size (snd p) + 1) (zip ks vs) = map (\<lambda>v. size v + 1) vs" if "length ks = length vs" for ks :: "jsstr list"
    using that by (induction ks vs rule: list_induct2) simp_all
  then have "entries_size (entries v) = sum_list (map (\<lambda>v. size v + 1) vs)"
    by (simp add: entries_size_def Arr)
  also have "\<dots> = size_list size vs" by (induction vs) simp_all
  finally show ?thesis by (simp add: Arr)
next
  case (Obj ps)
  have "entries_size ps \<le> size_list (size_prod (\<lambda>_. 0) size) ps"
    by (induction ps) (auto simp: entries_size_def)
  then show ?thesis by (simp add: Obj)
qed (simp add: entries_size_def)

text \<open>
  \<open>_generate\<close>, from the last key of the old document to the first, then the keys that are only in
  the new one. A document that is the same object generates nothing, as an equal one does.
\<close>

function generate :: "bool \<Rightarrow> jsstr \<Rightarrow> 'n document \<Rightarrow> 'n document \<Rightarrow> 'n op list"
  and generate_keys :: "bool \<Rightarrow> jsstr \<Rightarrow> 'n document \<Rightarrow> 'n document \<Rightarrow> (jsstr \<times> 'n document) list \<Rightarrow> 'n op list" where
  "generate invertible path mirror obj =
     (let newKeys = entries obj; oldKeys = entries mirror;
          deleted = (is_array mirror = is_array obj \<and> (\<exists>p \<in> set oldKeys. fst p \<notin> fst ` set newKeys)) in
      generate_keys invertible path mirror obj oldKeys @
      (if deleted \<or> length newKeys \<noteq> length oldKeys
       then concat (map (\<lambda>(key, v). if key \<in> fst ` set oldKeys then []
              else [Add (path @ 47 # escapePathComponent key) v]) newKeys)
       else []))"
| "generate_keys invertible path mirror obj [] = []"
| "generate_keys invertible path mirror obj ((key, oldVal) # ps) =
     generate_keys invertible path mirror obj ps @
     (let p = path @ 47 # escapePathComponent key in
      case map_of (entries obj) key of
        None \<Rightarrow>
          if is_array mirror = is_array obj then (if invertible then [Test p oldVal] else []) @ [Remove p]
          else (if invertible then [Test path mirror] else []) @ [Replace path obj]
      | Some newVal \<Rightarrow>
          if is_object oldVal \<and> is_object newVal \<and> is_array oldVal = is_array newVal
          then generate invertible p oldVal newVal
          else if oldVal \<noteq> newVal then (if invertible then [Test p oldVal] else []) @ [Replace p newVal]
          else [])"
  by pat_completeness auto

termination
proof (relation "measure (\<lambda>x. case x of Inl (_, _, mirror, _) \<Rightarrow> 2 * size mirror
      | Inr (_, _, _, _, ps) \<Rightarrow> 2 * entries_size ps + 1)")
  fix invertible :: bool and path and mirror obj :: "'n document" and x xa xb
  assume "x = entries obj" "xa = entries mirror"
  with entries_size_less [of mirror]
  show "(Inr (invertible, path, mirror, obj, xa), Inl (invertible, path, mirror, obj)) \<in>
      measure (\<lambda>x. case x of Inl (_, _, mirror, _) \<Rightarrow> 2 * size mirror | Inr (_, _, _, _, ps) \<Rightarrow> 2 * entries_size ps + 1)"
    by simp
qed (simp_all add: entries_size_def)

text \<open>
  \<open>compare\<close>, for two arrays or two objects. Of two documents of different kinds only the common
  keys are compared, which is not modelled.
\<close>

definition compare_docs :: "bool \<Rightarrow> 'n document \<Rightarrow> 'n document \<Rightarrow> 'n op list option" where
  "compare_docs invertible tree1 tree2 =
     (if is_object tree1 \<and> is_object tree2 \<and> is_array tree1 = is_array tree2
      then Some (generate invertible [] tree1 tree2) else None)"

section \<open>Keys and indices\<close>

definition tilde :: "nat \<Rightarrow> jsstr" where
  "tilde c = (if c = 126 then [126, 48] else [c])"

definition escaped :: "nat \<Rightarrow> jsstr" where
  "escaped c = (if c = 126 then [126, 48] else if c = 47 then [126, 49] else [c])"

lemma escape_chars: "replace_all 47 [126, 49] (replace_all 126 [126, 48] s) = concat (map escaped s)"
  by (induction s) (auto simp: replace_all_def escaped_def)

lemma escape_eq: "escapePathComponent s = concat (map escaped s)"
proof -
  have "concat (map escaped s) = s" if "47 \<notin> set s" "126 \<notin> set s"
    using that by (induction s) (auto simp: escaped_def)
  then show ?thesis by (simp add: escapePathComponent_def escape_chars)
qed

lemma escape_no_slash [simp]: "47 \<notin> set (escapePathComponent s)"
  by (auto simp: escape_eq escaped_def split: if_splits)

lemma replace_pair_other: "c \<noteq> a \<Longrightarrow> replace_pair a b r (c # s) = c # replace_pair a b r s"
  by (cases s) simp_all

lemma unescape_slashes: "replace_pair 126 49 47 (concat (map escaped s)) = concat (map tilde s)"
  by (induction s) (auto simp: escaped_def tilde_def replace_pair_other)

lemma unescape_tildes: "replace_pair 126 48 126 (concat (map tilde s)) = s"
  by (induction s) (auto simp: tilde_def replace_pair_other)

lemma component_escape [simp]: "component (escapePathComponent k) = k"
proof (cases "126 \<in> set (escapePathComponent k)")
  case True
  then show ?thesis
    by (simp add: component_def unescapePathComponent_def escape_eq unescape_slashes unescape_tildes)
next
  case False
  then have "47 \<notin> set k \<and> 126 \<notin> set k" by (force simp: escape_eq escaped_def split: if_splits)
  with False show ?thesis by (simp add: component_def escapePathComponent_def)
qed

lemma numeral_value_snoc: "numeral_value (s @ [48 + d]) = 10 * numeral_value s + d"
  by (simp add: numeral_value_def)

lemma decimal_value [simp]: "numeral_value (decimal n) = n"
proof (induction n rule: decimal.induct)
  case (1 n)
  show ?case
  proof (cases "n < 10")
    case True
    then show ?thesis by (simp add: decimal.simps [of n] numeral_value_def)
  next
    case False
    then show ?thesis using 1 by (simp add: decimal.simps [of n] numeral_value_snoc)
  qed
qed

lemma decimal_digits: "isInteger (decimal n) \<and> decimal n \<noteq> []"
proof (induction n rule: decimal.induct)
  case (1 n)
  then show ?case by (cases "n < 10") (auto simp: decimal.simps [of n] isInteger_def)
qed

lemma decimal_inj [simp]: "decimal m = decimal n \<longleftrightarrow> m = n"
  using decimal_value by metis

lemma decimal_char: "c \<in> set (decimal n) \<Longrightarrow> 48 \<le> c \<and> c \<le> 57"
  using decimal_digits [of n] by (auto simp: isInteger_def list_all_iff)

lemma decimal_plain: "decimal n \<noteq> [45]" "decimal n \<noteq> proto"
  using decimal_char [of 45 n] decimal_char [of 95 n] by (auto simp: proto_def js_def)

lemma array_index_decimal: "n < 2 ^ 31 \<Longrightarrow> array_index len (decimal n) = Some (int n)"
proof -
  assume n: "n < 2 ^ 31"
  then have "sint (word_of_nat n :: 32 word) = int n"
    by (simp add: signed_take_bit_int_eq_self signed_of_nat)
  with n show ?thesis
    using decimal_digits [of n] decimal_plain [of n]
    by (simp add: array_index_def to_int32_def to_double_def)
qed

section \<open>Operations below a key\<close>

fun op_path :: "'n op \<Rightarrow> jsstr" where
  "op_path (Add p v) = p" | "op_path (Remove p) = p" | "op_path (Replace p v) = p" | "op_path (Move f p) = p"
| "op_path (Copy f p) = p" | "op_path (Test p v) = p" | "op_path (Get p) = p"

fun prefix_op :: "jsstr \<Rightarrow> 'n op \<Rightarrow> 'n op" where
  "prefix_op r (Add p v) = Add (r @ p) v"
| "prefix_op r (Remove p) = Remove (r @ p)"
| "prefix_op r (Replace p v) = Replace (r @ p) v"
| "prefix_op r (Test p v) = Test (r @ p) v"
| "prefix_op r (Get p) = Get (r @ p)"
| "prefix_op r (Move f p) = Move (r @ f) (r @ p)"
| "prefix_op r (Copy f p) = Copy (r @ f) (r @ p)"

text \<open>The operations with one path.\<close>

fun single :: "'n op \<Rightarrow> bool" where
  "single (Move f p) = False" | "single (Copy f p) = False" | "single _ = True"

lemma at_end_prefix: "at_end (prefix_op r op) s k = at_end op s k"
  by (cases op; cases s) auto

lemma walk_prefix: "walk (prefix_op r op) ps s = walk op ps s"
  by (induction op ps s rule: walk.induct) (auto simp: at_end_prefix)

lemma apply_single: "single op \<Longrightarrow> applyOperation doc op = and_then (apply_at op (op_path op) doc) (\<lambda>(d, _). Inr d)"
  by (cases op) (simp_all add: applyOperation_def)

lemma apply_key:
  assumes "single op" "op_path op = 47 # escapePathComponent k" "k \<noteq> proto"
  shows "applyOperation doc op = and_then (at_end op doc k) (\<lambda>(d, _). Inr d)"
  using assms by (simp add: apply_single apply_at_def walk_path_def)

lemma single_prefix [simp]: "single (prefix_op r op) = single op" "op_path (prefix_op r op) = r @ op_path op"
  by (cases op; simp)+

lemma and_then_assoc: "and_then (and_then x f) g = and_then x (\<lambda>y. and_then (f y) g)"
  by (cases x) simp_all

lemma apply_below:
  assumes "single op" "op_path op = 47 # q" "k \<noteq> proto" "child doc k = Inr (Some c)"
  shows "applyOperation doc (prefix_op (47 # escapePathComponent k) op) =
    and_then (applyOperation c op) (\<lambda>d. Inr (put_child doc k d))"
proof -
  obtain p ps where ps: "split_on 47 q = p # ps" by (cases "split_on 47 q") auto
  have "split_on 47 (escapePathComponent k @ 47 # q) = escapePathComponent k # p # ps" using ps by simp
  then show ?thesis
    using assms ps
    by (simp add: apply_single apply_at_def walk_path_def walk_prefix and_then_assoc split_def)
qed

text \<open>A child can be changed repeatedly, independently of the rest of the document.\<close>

definition holds_child :: "'n document \<Rightarrow> jsstr \<Rightarrow> bool" where
  "holds_child doc k \<longleftrightarrow> k \<noteq> proto \<and> (\<forall>c d. child (put_child doc k c) k = Inr (Some c) \<and>
     put_child (put_child doc k c) k d = put_child doc k d)"

lemma obj_put_again: "obj_put k w (obj_put k v ps) = obj_put k w ps" if "k \<in> fst ` set ps"
proof -
  have "fst ` set (map (\<lambda>(k', v'). (k', if k' = k then v else v')) ps) = fst ` set ps" for v
    by (induction ps) auto
  then show ?thesis using that by (auto simp: obj_put_def)
qed

lemma obj_put_same: "distinct (map fst ps) \<Longrightarrow> map_of ps k = Some v \<Longrightarrow> obj_put k v ps = ps"
proof -
  assume "distinct (map fst ps)" "map_of ps k = Some v"
  then have "map (\<lambda>(k', v'). (k', if k' = k then v else v')) ps = ps"
    by (intro map_idI) (auto dest: eq_key_imp_eq_value map_of_SomeD)
  moreover have "k \<in> fst ` set ps" using \<open>map_of ps k = Some v\<close> by (force dest: map_of_SomeD)
  ultimately show ?thesis by (simp add: obj_put_def)
qed

lemma map_of_put [simp]: "map_of (obj_put k v ps) j = (if j = k then Some v else map_of ps j)"
  using obj_get_put [of k v ps j] by (simp add: obj_get_def)

lemma holds_object: "k \<in> fst ` set ps \<Longrightarrow> k \<noteq> proto \<Longrightarrow> holds_child (Obj ps) k"
  by (simp add: holds_child_def obj_put_again)

lemma holds_array: "n < length vs \<Longrightarrow> n < 2 ^ 31 \<Longrightarrow> holds_child (Arr vs) (decimal n)"
  using decimal_plain(2) [of n] by (simp add: holds_child_def array_index_decimal)

lemma patch_below:
  assumes "\<forall>op \<in> set ops. single op \<and> (\<exists>q. op_path op = 47 # q)" "holds_child doc k"
  shows "applyPatch (put_child doc k c) (map (prefix_op (47 # escapePathComponent k)) ops) =
    and_then (applyPatch c ops) (\<lambda>d. Inr (put_child doc k d))"
  using assms(1)
proof (induction ops arbitrary: c)
  case (Cons op ops)
  then obtain q where q: "single op" "op_path op = 47 # q" by auto
  have step: "applyOperation (put_child doc k c) (prefix_op (47 # escapePathComponent k) op) =
      and_then (applyOperation c op) (\<lambda>d. Inr (put_child doc k d))"
    using apply_below [OF q, of k "put_child doc k c" c] assms(2) by (simp add: holds_child_def)
  show ?case
  proof (cases "applyOperation c op")
    case (Inr d)
    then show ?thesis using step Cons by simp
  qed (use step in simp)
qed simp

section \<open>Equal documents\<close>

text \<open>Documents that differ at most in the order of their properties.\<close>

inductive same_doc :: "'a json \<Rightarrow> 'a json \<Rightarrow> bool" where
  same_atom: "same_doc (Atom a) (Atom a)"
| same_array: "length vs = length ws \<Longrightarrow> (\<forall>i < length vs. same_doc (vs ! i) (ws ! i)) \<Longrightarrow> same_doc (Arr vs) (Arr ws)"
| same_object: "fst ` set ps = fst ` set qs \<Longrightarrow>
    (\<forall>k v w. map_of ps k = Some v \<longrightarrow> map_of qs k = Some w \<longrightarrow> same_doc v w) \<Longrightarrow> same_doc (Obj ps) (Obj qs)"

fun wf_doc :: "'a json \<Rightarrow> bool" where
  "wf_doc (Atom a) = True"
| "wf_doc (Arr vs) = (length vs < 2 ^ 31 \<and> list_all wf_doc vs)"
| "wf_doc (Obj ps) = (distinct (map fst ps) \<and> proto \<notin> fst ` set ps \<and> list_all (\<lambda>(k, v). wf_doc v) ps)"

fun no_has_own :: "'a json \<Rightarrow> bool" where
  "no_has_own (Atom a) = True"
| "no_has_own (Arr vs) = list_all no_has_own vs"
| "no_has_own (Obj ps) = (has_own \<notin> fst ` set ps \<and> list_all (\<lambda>(k, v). no_has_own v) ps)"

lemma same_refl [simp]: "same_doc v v"
proof (induction v)
  case (Obj ps)
  show ?case
  proof (rule same_object)
    show "\<forall>k v w. map_of ps k = Some v \<longrightarrow> map_of ps k = Some w \<longrightarrow> same_doc v w"
    proof (intro allI impI)
      fix k v w
      assume a: "map_of ps k = Some v" "map_of ps k = Some w"
      from map_of_SomeD [OF a(1)] have "same_doc v v" by (rule Obj) simp
      with a show "same_doc v w" by simp
    qed
  qed simp
qed (auto intro: same_doc.intros)

lemma equal_items_refl: "\<forall>v \<in> set vs. areEquals v v = Some True \<Longrightarrow> equal_items vs vs = Some True"
  by (induction vs) simp_all

lemma equal_props_refl:
  "\<forall>p \<in> set ps. map_of qs (fst p) = Some (snd p) \<and> areEquals (snd p) (snd p) = Some True \<Longrightarrow> equal_props ps qs = Some True"
  by (induction ps) auto

lemma equal_refl: "wf_doc v \<Longrightarrow> no_has_own v \<Longrightarrow> areEquals v v = Some True"
proof (induction v)
  case (Arr vs)
  then show ?case by (auto simp: list_all_iff intro!: equal_items_refl)
next
  case (Obj ps)
  have "areEquals w w = Some True" if "(k, w) \<in> set ps" for k w
  proof -
    have "wf_doc w" "no_has_own w" using Obj.prems that by (fastforce simp: list_all_iff)+
    with Obj.IH [OF that, of w] show ?thesis by simp
  qed
  moreover have "map_of ps k = Some w" if "(k, w) \<in> set ps" for k w
    using Obj.prems(1) that by (simp add: map_of_eq_Some_iff)
  ultimately have "equal_props ps ps = Some True" by (intro equal_props_refl) auto
  with Obj.prems show ?case by (auto simp: rev_image_eqI)
qed simp

section \<open>Generated operations\<close>

lemma generate_prefix:
  "generate chk (r @ q) e t = map (prefix_op r) (generate chk q e t)"
  "generate_keys chk (r @ q) e t ps = map (prefix_op r) (generate_keys chk q e t ps)"
proof (induction chk q e t and chk q e t ps rule: generate_generate_keys.induct)
  case (1 chk q e t)
  show ?case
    using 1 [OF refl refl refl] by (simp add: Let_def map_concat comp_def split_def if_distrib cong: if_cong)
next
  case (3 chk q e t k c ps)
  show ?case
    using 3 by (auto simp: Let_def simp del: generate.simps split: option.splits)
qed simp

declare generate.simps [simp del]

lemma generate_below: "generate chk (r :: jsstr) e t = map (prefix_op r) (generate chk [] e t)"
  using generate_prefix(1) [of chk r "[]"] by simp

lemma generate_paths:
  "is_array e = is_array t \<Longrightarrow> op \<in> set (generate chk r e t) \<Longrightarrow> single op \<and> (\<exists>q. op_path op = r @ 47 # q)"
  "is_array e = is_array t \<Longrightarrow> op \<in> set (generate_keys chk r e t ps) \<Longrightarrow> single op \<and> (\<exists>q. op_path op = r @ 47 # q)"
proof (induction chk r e t and chk r e t ps rule: generate_generate_keys.induct)
  case (1 chk r e t)
  from "1.prems"(2) consider "op \<in> set (generate_keys chk r e t (entries e))"
    | k v where "op = Add (r @ 47 # escapePathComponent k) v"
    by (auto simp: Let_def generate.simps [of chk r] split: if_splits)
  then show ?case
  proof cases
    case 1
    then show ?thesis using "1.IH" "1.prems"(1) by blast
  qed simp
next
  case (3 chk r e t k c ps)
  from "3.prems"(2) consider "op \<in> set (generate_keys chk r e t ps)"
    | "op_path op = r @ 47 # escapePathComponent k" "single op"
    | l where "map_of (entries t) k = Some l" "is_object c \<and> is_object l \<and> is_array c = is_array l"
        "op \<in> set (generate chk (r @ 47 # escapePathComponent k) c l)"
    using "3.prems"(1) by (auto simp: Let_def split: option.splits if_splits)
  then show ?case
  proof cases
    case 1
    then show ?thesis using "3.IH"(1) "3.prems"(1) by blast
  next
    case 2
    then show ?thesis by simp
  next
    case (3 l)
    have "single op \<and> (\<exists>q. op_path op = (r @ 47 # escapePathComponent k) @ 47 # q)"
      by (rule "3.IH"(2) [OF refl 3(1) 3(2) _ 3(3)]) (use 3(2) in simp)
    then show ?thesis by auto
  qed
qed simp

lemma applyPatch_append: "applyPatch doc (xs @ ys) = and_then (applyPatch doc xs) (\<lambda>d. applyPatch d ys)"
  by (induction xs arbitrary: doc) (simp_all add: and_then_assoc)

text \<open>What the operations of a key do to the child, given that nested patches work.\<close>

definition key_ops :: "bool \<Rightarrow> 'n document \<Rightarrow> jsstr \<Rightarrow> 'n document \<Rightarrow> 'n op list" where
  "key_ops chk t k c =
     (let p = 47 # escapePathComponent k in
      case map_of (entries t) k of
        None \<Rightarrow> (if chk then [Test p c] else []) @ [Remove p]
      | Some l \<Rightarrow> if is_object c \<and> is_object l \<and> is_array c = is_array l then map (prefix_op p) (generate chk [] c l)
          else if c \<noteq> l then (if chk then [Test p c] else []) @ [Replace p l] else [])"

lemma generate_keys_Cons:
  "is_array e = is_array t \<Longrightarrow> generate_keys chk [] e t ((k, c) # ps) = generate_keys chk [] e t ps @ key_ops chk t k c"
  by (auto simp: key_ops_def Let_def generate_below [of _ "47 # escapePathComponent k"] split: option.splits)

text \<open>The hypothesis of the induction over documents: patches between children of the old one work.\<close>

definition patches_work :: "bool \<Rightarrow> 'n document \<Rightarrow> bool" where
  "patches_work chk c \<longleftrightarrow> (\<forall>l. wf_doc l \<longrightarrow> is_object c \<longrightarrow> is_object l \<longrightarrow> is_array c = is_array l \<longrightarrow>
     (\<exists>d. applyPatch c (generate chk [] c l) = Inr d \<and> same_doc d l))"

lemma test_passes:
  assumes "chk \<longrightarrow> no_has_own c" "wf_doc c" "child doc k = Inr (Some c)" "k \<noteq> proto"
  shows "applyPatch doc ((if chk then [Test (47 # escapePathComponent k) c] else []) @ ops) = applyPatch doc ops"
proof (cases chk)
  case True
  have "at_end (Test p c) doc k = Inr (doc, None)" for p
    using assms(3) equal_refl [of c] assms(1,2) True
    by (cases doc) (auto split: option.splits if_splits)
  then show ?thesis using True apply_key [of "Test (47 # escapePathComponent k) c" k doc] assms(4) by simp
qed simp

lemma key_ops_change:
  assumes c: "child doc k = Inr (Some c)" "holds_child doc k" "put_child doc k c = doc"
    and rep: "\<And>p l. at_end (Replace p l) doc k = Inr (put_child doc k l, Some c)"
    and work: "patches_work chk c" "chk \<longrightarrow> no_has_own c" "wf_doc c"
    and l: "map_of (entries t) k = Some l" "wf_doc l"
  shows "\<exists>v. applyPatch doc (key_ops chk t k c) = Inr (put_child doc k v) \<and> same_doc v l"
proof -
  have k: "k \<noteq> proto" using c(2) by (simp add: holds_child_def)
  consider "is_object c" "is_object l" "is_array c = is_array l"
    | "\<not> (is_object c \<and> is_object l \<and> is_array c = is_array l)" "c \<noteq> l"
    | "\<not> (is_object c \<and> is_object l \<and> is_array c = is_array l)" "c = l" by blast
  then show ?thesis
  proof cases
    case 1
    from work(1) 1 l(2) obtain d where d: "applyPatch c (generate chk [] c l) = Inr d" "same_doc d l"
      by (auto simp: patches_work_def)
    have "\<forall>op \<in> set (generate chk [] c l). single op \<and> (\<exists>q. op_path op = 47 # q)"
      using generate_paths(1) [OF 1(3), of _ chk "[]"] by simp
    from patch_below [OF this c(2), of c] d 1 l(1) c(3) show ?thesis by (auto simp: key_ops_def)
  next
    case 2
    have "key_ops chk t k c = (if chk then [Test (47 # escapePathComponent k) c] else []) @ [Replace (47 # escapePathComponent k) l]"
      using 2 l(1) by (auto simp: key_ops_def Let_def)
    then have "applyPatch doc (key_ops chk t k c) = applyPatch doc [Replace (47 # escapePathComponent k) l]"
      using test_passes [OF work(2,3) c(1) k] by simp
    also have "\<dots> = Inr (put_child doc k l)"
      using apply_key [of "Replace (47 # escapePathComponent k) l" k doc] k rep by simp
    finally show ?thesis by force
  next
    case 3
    then show ?thesis using l(1) c(3) by (intro exI [of _ c]) (simp add: key_ops_def)
  qed
qed

lemma key_ops_remove:
  assumes "child doc k = Inr (Some c)" "k \<noteq> proto" "chk \<longrightarrow> no_has_own c" "wf_doc c"
    "map_of (entries t) k = None" "\<And>p. at_end (Remove p) doc k = Inr (d, Some c)"
  shows "applyPatch doc (key_ops chk t k c) = Inr d"
  using test_passes [OF assms(3,4,1,2)] assms(5,6) apply_key [of "Remove (47 # escapePathComponent k)" k doc] assms(2)
  by (simp add: key_ops_def Let_def)

section \<open>Objects\<close>

lemma filter_key: "map_of (filter (\<lambda>p. fst p \<noteq> k) ps) j = (if j = k then None else map_of ps j)"
  by (induction ps) auto

lemma filter_key_distinct: "distinct (map fst ps) \<Longrightarrow> distinct (map fst (filter P ps))"
  by (induction ps) auto

text \<open>The old object after the operations of the keys \<open>ps\<close>.\<close>

definition keys_done :: "(jsstr \<times> 'n document) list \<Rightarrow> (jsstr \<times> 'n document) list \<Rightarrow>
    (jsstr \<times> 'n document) list \<Rightarrow> (jsstr \<times> 'n document) list \<Rightarrow> bool" where
  "keys_done es ts ps ds \<longleftrightarrow> distinct (map fst ds) \<and>
     (\<forall>k. if k \<in> fst ` set ps then rel_option same_doc (map_of ds k) (map_of ts k) else map_of ds k = map_of es k)"

lemma keys_done_step:
  assumes "keys_done es ts ps ds" "k \<notin> fst ` set ps" "distinct (map fst ds')"
    "\<forall>j. j \<noteq> k \<longrightarrow> map_of ds' j = map_of ds j" "rel_option same_doc (map_of ds' k) (map_of ts k)"
  shows "keys_done es ts ((k, c) # ps) ds'"
  unfolding keys_done_def
proof (intro conjI allI)
  fix j
  have "if j \<in> fst ` set ps then rel_option same_doc (map_of ds j) (map_of ts j) else map_of ds j = map_of es j"
    using assms(1) by (simp add: keys_done_def)
  then show "if j \<in> fst ` set ((k, c) # ps) then rel_option same_doc (map_of ds' j) (map_of ts j) else map_of ds' j = map_of es j"
    using assms(2,4,5) by (cases "j = k") simp_all
qed (rule assms(3))

lemma object_keys:
  assumes "wf_doc (Obj es)" "chk \<longrightarrow> no_has_own (Obj es)" "wf_doc (Obj ts)" "\<forall>p \<in> set es. patches_work chk (snd p)"
  shows "set ps \<subseteq> set es \<Longrightarrow> distinct (map fst ps) \<Longrightarrow>
    \<exists>ds. applyPatch (Obj es) (generate_keys chk [] (Obj es) (Obj ts) ps) = Inr (Obj ds) \<and> keys_done es ts ps ds"
proof (induction ps)
  case Nil
  then show ?case using assms(1) by (simp add: keys_done_def)
next
  case (Cons p ps)
  obtain k c where p: "p = (k, c)" by (cases p)
  with Cons obtain ds where ds: "applyPatch (Obj es) (generate_keys chk [] (Obj es) (Obj ts) ps) = Inr (Obj ds)"
      "keys_done es ts ps ds" by auto
  have kc: "(k, c) \<in> set es" "k \<notin> fst ` set ps" using Cons.prems p by auto
  have c: "map_of es k = Some c" using kc(1) assms(1) by (simp add: map_of_eq_Some_iff)
  have get: "map_of ds k = Some c" using ds(2) kc(2) c by (simp add: keys_done_def)
  have k: "k \<noteq> proto" "wf_doc c" "chk \<longrightarrow> no_has_own c" "patches_work chk c"
    using kc(1) assms(1,2,4) by (force simp: list_all_iff)+
  have d: "distinct (map fst ds)" using ds(2) by (simp add: keys_done_def)
  have app: "applyPatch (Obj es) (generate_keys chk [] (Obj es) (Obj ts) (p # ps)) = applyPatch (Obj ds) (key_ops chk (Obj ts) k c)"
    using ds(1) by (simp add: p generate_keys_Cons is_array_def applyPatch_append del: generate_keys.simps)
  show ?case
  proof (cases "map_of ts k")
    case None
    let ?ds = "filter (\<lambda>p. fst p \<noteq> k) ds"
    have "applyPatch (Obj ds) (key_ops chk (Obj ts) k c) = Inr (Obj ?ds)"
      using get k None by (intro key_ops_remove) simp_all
    moreover have "keys_done es ts ((k, c) # ps) ?ds"
      using filter_key_distinct [OF d] None by (intro keys_done_step [OF ds(2) kc(2)]) (simp_all add: filter_key)
    ultimately show ?thesis using app p by auto
  next
    case (Some l)
    then have "wf_doc l" using assms(3) by (force simp: list_all_iff dest: map_of_SomeD)
    moreover have "holds_child (Obj ds) k" using get k(1) by (intro holds_object) (force dest: map_of_SomeD)
    ultimately obtain v where v: "applyPatch (Obj ds) (key_ops chk (Obj ts) k c) = Inr (put_child (Obj ds) k v)" "same_doc v l"
      using key_ops_change [of "Obj ds" k c chk "Obj ts" l] get k Some obj_put_same [OF d get] by auto
    have "keys_done es ts ((k, c) # ps) (obj_put k v ds)"
      using obj_put_distinct [OF d] Some v(2) by (intro keys_done_step [OF ds(2) kc(2)]) simp_all
    then show ?thesis using app p v(1) by auto
  qed
qed

definition added_keys :: "jsstr set \<Rightarrow> (jsstr \<times> 'n document) list \<Rightarrow> 'n op list" where
  "added_keys old ts = concat (map (\<lambda>(key, v). if key \<in> old then [] else [Add (47 # escapePathComponent key) v]) ts)"

lemma object_adds:
  "distinct (map fst ts) \<Longrightarrow> proto \<notin> fst ` set ts \<Longrightarrow> distinct (map fst ds) \<Longrightarrow>
    \<exists>ds'. applyPatch (Obj ds) (added_keys old ts) = Inr (Obj ds') \<and> distinct (map fst ds') \<and>
      (\<forall>k. map_of ds' k = (if k \<in> old \<or> map_of ts k = None then map_of ds k else map_of ts k))"
proof (induction ts arbitrary: ds)
  case (Cons p ts)
  obtain k v where p: "p = (k, v)" by (cases p)
  have none: "map_of ts k = None" using Cons.prems(1) p by (simp add: map_of_eq_None_iff)
  show ?case
  proof (cases "k \<in> old")
    case True
    with Cons.IH [of ds] Cons.prems p none show ?thesis by (auto simp: added_keys_def)
  next
    case False
    from Cons.prems p have "k \<noteq> proto" by auto
    with apply_key [of "Add (47 # escapePathComponent k) v" k "Obj ds"]
    have "applyOperation (Obj ds) (Add (47 # escapePathComponent k) v) = Inr (Obj (obj_put k v ds))" by simp
    moreover have "distinct (map fst (obj_put k v ds))" by (rule obj_put_distinct) (rule Cons.prems(3))
    note Cons.IH [OF _ _ this]
    ultimately show ?thesis
      using Cons.prems p False none by (fastforce simp: added_keys_def)
  qed
qed (simp add: added_keys_def)

lemma generate_root:
  "is_array e = is_array t \<Longrightarrow> generate chk [] e t = generate_keys chk [] e t (entries e) @
    (if (\<exists>p \<in> set (entries e). fst p \<notin> fst ` set (entries t)) \<or> length (entries t) \<noteq> length (entries e)
     then added_keys (fst ` set (entries e)) (entries t) else [])"
  by (simp add: generate.simps [of chk "[]"] Let_def added_keys_def split_def cong: if_cong)

lemma same_keys:
  assumes "distinct (map fst es)" "distinct (map fst ts)" "fst ` set es \<subseteq> fst ` set ts" "length ts = length es"
  shows "fst ` set ts \<subseteq> fst ` set es"
proof -
  have "card (fst ` set es) = length es" "card (fst ` set ts) = length ts"
    using distinct_card [OF assms(1)] distinct_card [OF assms(2)] by simp_all
  with assms(3,4) have "fst ` set es = fst ` set ts" by (intro card_subset_eq) auto
  then show ?thesis by simp
qed

lemma keys_done_same:
  assumes "keys_done es ts es ds" "\<forall>k. map_of ds' k = (if map_of es k \<noteq> None \<or> map_of ts k = None then map_of ds k else map_of ts k)"
  shows "same_doc (Obj ds') (Obj ts)"
proof -
  have rel: "rel_option same_doc (map_of ds' k) (map_of ts k)" for k
  proof (cases "map_of es k")
    case None
    then have "k \<notin> fst ` set es" by (simp add: map_of_eq_None_iff)
    then have "map_of ds k = None" using assms(1) None by (simp add: keys_done_def)
    then show ?thesis using assms(2) None by (cases "map_of ts k") simp_all
  next
    case (Some c)
    then have "k \<in> fst ` set es" by (force dest: map_of_SomeD)
    then show ?thesis using assms Some by (simp add: keys_done_def)
  qed
  show ?thesis
  proof (rule same_object)
    have "k \<in> fst ` set ds' \<longleftrightarrow> k \<in> fst ` set ts" for k
      using rel [of k] map_of_eq_None_iff [of ds' k] map_of_eq_None_iff [of ts k]
      by (cases "map_of ds' k"; cases "map_of ts k") auto
    then show "fst ` set ds' = fst ` set ts" by blast
    show "\<forall>k v w. map_of ds' k = Some v \<longrightarrow> map_of ts k = Some w \<longrightarrow> same_doc v w"
    proof (intro allI impI)
      fix k v w
      assume "map_of ds' k = Some v" "map_of ts k = Some w"
      with rel [of k] show "same_doc v w" by simp
    qed
  qed
qed

lemma object_patch:
  assumes "wf_doc (Obj es)" "chk \<longrightarrow> no_has_own (Obj es)" "wf_doc (Obj ts)" "\<forall>p \<in> set es. patches_work chk (snd p)"
  shows "\<exists>d. applyPatch (Obj es) (generate chk [] (Obj es) (Obj ts)) = Inr d \<and> same_doc d (Obj ts)"
proof -
  from object_keys [OF assms, of es] assms(1) obtain ds where
    ds: "applyPatch (Obj es) (generate_keys chk [] (Obj es) (Obj ts) es) = Inr (Obj ds)" "keys_done es ts es ds" by auto
  let ?adds = "(\<exists>p \<in> set es. fst p \<notin> fst ` set ts) \<or> length ts \<noteq> length es"
  have gen: "generate chk [] (Obj es) (Obj ts) = generate_keys chk [] (Obj es) (Obj ts) es @
      (if ?adds then added_keys (fst ` set es) ts else [])"
    using generate_root [of "Obj es" "Obj ts" chk] by (simp add: is_array_def)
  have mem: "map_of es k \<noteq> None \<longleftrightarrow> k \<in> fst ` set es" for k by (simp add: map_of_eq_None_iff)
  show ?thesis
  proof (cases ?adds)
    case True
    from object_adds [of ts ds "fst ` set es"] ds(2) assms(3) obtain ds' where
      "applyPatch (Obj ds) (added_keys (fst ` set es) ts) = Inr (Obj ds')"
      "\<forall>k. map_of ds' k = (if k \<in> fst ` set es \<or> map_of ts k = None then map_of ds k else map_of ts k)"
      by (auto simp: keys_done_def)
    moreover from this(2) have "same_doc (Obj ds') (Obj ts)"
      using keys_done_same [OF ds(2), of ds'] mem by simp
    ultimately show ?thesis using True ds(1) by (auto simp: gen applyPatch_append)
  next
    case False
    then have "fst ` set ts \<subseteq> fst ` set es"
      using assms(1,3) by - (rule same_keys; simp add: image_subset_iff)
    then have "\<forall>k. map_of es k = None \<longrightarrow> map_of ts k = None" by (auto simp: map_of_eq_None_iff)
    then have "\<forall>k. map_of ds k = (if map_of es k \<noteq> None \<or> map_of ts k = None then map_of ds k else map_of ts k)" by auto
    from keys_done_same [OF ds(2) this] have "same_doc (Obj ds) (Obj ts)" .
    then show ?thesis using False ds(1) by (auto simp: gen)
  qed
qed

section \<open>Arrays\<close>

lemma zip_Cons: "i < length vs \<Longrightarrow>
  zip (map decimal [i..<length vs]) (drop i vs) = (decimal i, vs ! i) # zip (map decimal [Suc i..<length vs]) (drop (Suc i) vs)"
  by (simp add: upt_conv_Cons Cons_nth_drop_Suc [symmetric])

lemma index_keys: "fst ` set (zip (map decimal [0..<length vs]) vs) = decimal ` {0..<length vs}"
proof -
  have "map fst (zip (map decimal [0..<length vs]) vs) = map decimal [0..<length vs]" by simp
  then show ?thesis by (metis list.set_map set_upt)
qed

lemma map_of_indices: "map_of (zip (map decimal [0..<length ws]) ws) (decimal i) = (if i < length ws then Some (ws ! i) else None)"
proof -
  have d: "distinct (map decimal [0..<length ws])" by (simp add: distinct_map inj_on_def)
  show ?thesis
  proof (cases "i < length ws")
    case True
    then have "(decimal i, ws ! i) \<in> set (zip (map decimal [0..<length ws]) ws)"
      by (force simp: in_set_zip intro!: exI [of _ i])
    with True d show ?thesis by simp
  next
    case False
    then have "decimal i \<notin> set (map decimal [0..<length ws])" by auto
    with False show ?thesis by (simp add: map_of_eq_None_iff index_keys)
  qed
qed

lemma array_child: "i < length vs \<Longrightarrow> i < 2 ^ 31 \<Longrightarrow> child (Arr vs) (decimal i) = Inr (Some (vs ! i))"
  by (simp add: array_index_decimal)

lemma array_keys:
  assumes "wf_doc (Arr vs)" "chk \<longrightarrow> no_has_own (Arr vs)" "wf_doc (Arr ws)" "\<forall>v \<in> set vs. patches_work chk v" "i \<le> length vs"
  shows "\<exists>ds. applyPatch (Arr vs) (generate_keys chk [] (Arr vs) (Arr ws) (zip (map decimal [i..<length vs]) (drop i vs))) =
      Inr (Arr (take i vs @ ds)) \<and> list_all2 same_doc ds (drop i (take (length vs) ws))"
  using assms(5)
proof (induction i rule: inc_induct)
  case base
  then show ?case by simp
next
  case (step i)
  then obtain ds where ds: "applyPatch (Arr vs) (generate_keys chk [] (Arr vs) (Arr ws)
        (zip (map decimal [Suc i..<length vs]) (drop (Suc i) vs))) = Inr (Arr (take (Suc i) vs @ ds))"
      "list_all2 same_doc ds (drop (Suc i) (take (length vs) ws))" by auto
  let ?doc = "take (Suc i) vs @ ds"
  have i: "i < length vs" "i < 2 ^ 31" "vs ! i \<in> set vs" using step.hyps assms(1) by simp_all
  have at: "?doc ! i = vs ! i" "i < length ?doc" using i(1) by (simp_all add: nth_append)
  have child: "child (Arr ?doc) (decimal i) = Inr (Some (vs ! i))"
    using array_child [OF at(2) i(2)] at(1) by simp
  have k: "wf_doc (vs ! i)" "chk \<longrightarrow> no_has_own (vs ! i)" "patches_work chk (vs ! i)"
    using i(3) assms(1,2,4) by (auto simp: list_all_iff)
  have app: "applyPatch (Arr vs) (generate_keys chk [] (Arr vs) (Arr ws) (zip (map decimal [i..<length vs]) (drop i vs))) =
      applyPatch (Arr ?doc) (key_ops chk (Arr ws) (decimal i) (vs ! i))"
    using ds(1) by (simp add: zip_Cons [OF i(1)] generate_keys_Cons is_array_def applyPatch_append del: generate_keys.simps)
  have upd: "?doc[i := v] = take i vs @ v # ds" for v
    using i(1) by (simp add: take_Suc_conv_app_nth list_update_append)
  show ?case
  proof (cases "i < length ws")
    case True
    then have l: "map_of (entries (Arr ws)) (decimal i) = Some (ws ! i)" by (simp add: map_of_indices)
    have "wf_doc (ws ! i)" using True assms(3) by (simp add: list_all_iff)
    moreover have "put_child (Arr ?doc) (decimal i) v = Arr (take i vs @ v # ds)" for v
      using upd by (simp add: array_index_decimal [OF i(2)])
    moreover have "take i vs @ vs ! i # ds = ?doc" using i(1) by (simp add: take_Suc_conv_app_nth)
    moreover have "at_end (Replace p l) (Arr ?doc) (decimal i) = Inr (put_child (Arr ?doc) (decimal i) l, Some (vs ! i))" for p l
      using at by (simp add: array_index_decimal [OF i(2)])
    ultimately obtain v where v: "applyPatch (Arr ?doc) (key_ops chk (Arr ws) (decimal i) (vs ! i)) = Inr (Arr (take i vs @ v # ds))"
        "same_doc v (ws ! i)"
      using key_ops_change [OF child holds_array [OF at(2) i(2)] _ _ k(3,2,1) l] by metis
    have "drop i (take (length vs) ws) = ws ! i # drop (Suc i) (take (length vs) ws)"
      using True i(1) by (simp add: Cons_nth_drop_Suc [symmetric])
    with v ds(2) app show ?thesis by (intro exI [of _ "v # ds"]) simp
  next
    case False
    then have l: "map_of (entries (Arr ws)) (decimal i) = None" by (simp add: map_of_indices)
    have none: "ds = []" using ds(2) False by simp
    have "at_end (Remove p) (Arr ?doc) (decimal i) = Inr (Arr (take i vs), Some (vs ! i))" for p
      using at i(1) none by (simp add: array_index_decimal [OF i(2)] splice_at_def Let_def)
    with key_ops_remove [OF child decimal_plain(2) k(2,1) l] app False show ?thesis
      by (intro exI [of _ "[]"]) simp
  qed
qed

lemma array_adds:
  assumes "m \<le> length ws" "length ws < 2 ^ 31" "n \<le> m" "length ds = n"
  shows "applyPatch (Arr ds) (added_keys (decimal ` {0..<n}) (zip (map decimal [n..<m]) (drop n (take m ws)))) =
    Inr (Arr (ds @ drop n (take m ws)))"
  using assms(3,1)
proof (induction m rule: dec_induct)
  case base
  then show ?case using assms(4) by (simp add: added_keys_def)
next
  case (step m)
  have m: "m < length ws" "m < 2 ^ 31" using step assms(2) by simp_all
  have "zip (map decimal [n..<Suc m]) (drop n (take (Suc m) ws)) =
      zip (map decimal [n..<m]) (drop n (take m ws)) @ [(decimal m, ws ! m)]"
    using step m(1) by (simp add: take_Suc_conv_app_nth)
  moreover have "decimal m \<notin> decimal ` {0..<n}" using step.hyps by auto
  moreover have "applyOperation (Arr (ds @ drop n (take m ws))) (Add (47 # escapePathComponent (decimal m)) (ws ! m)) =
      Inr (Arr (ds @ drop n (take (Suc m) ws)))"
  proof -
    have "length (ds @ drop n (take m ws)) = m" using step m assms(4) by simp
    then show ?thesis
      using apply_key [of "Add (47 # escapePathComponent (decimal m)) (ws ! m)" "decimal m"] step.hyps decimal_plain(2) [of m]
      by (simp add: array_index_decimal [OF m(2)] splice_at_def Let_def take_Suc_conv_app_nth m(1))
  qed
  ultimately show ?case using step m(1) by (simp add: added_keys_def applyPatch_append)
qed

lemma array_patch:
  assumes "wf_doc (Arr vs)" "chk \<longrightarrow> no_has_own (Arr vs)" "wf_doc (Arr ws)" "\<forall>v \<in> set vs. patches_work chk v"
  shows "\<exists>d. applyPatch (Arr vs) (generate chk [] (Arr vs) (Arr ws)) = Inr d \<and> same_doc d (Arr ws)"
proof -
  let ?n = "length vs"
  let ?adds = "(\<exists>p \<in> set (entries (Arr vs)). fst p \<notin> fst ` set (entries (Arr ws))) \<or> length ws \<noteq> ?n"
  from array_keys [OF assms, of 0] obtain ds where
    ds: "applyPatch (Arr vs) (generate_keys chk [] (Arr vs) (Arr ws) (entries (Arr vs))) = Inr (Arr ds)"
      "list_all2 same_doc ds (take ?n ws)" by auto
  have gen: "generate chk [] (Arr vs) (Arr ws) = generate_keys chk [] (Arr vs) (Arr ws) (entries (Arr vs)) @
      (if ?adds then added_keys (decimal ` {0..<?n}) (entries (Arr ws)) else [])"
    using generate_root [of "Arr vs" "Arr ws" chk] by (simp add: is_array_def index_keys cong: if_cong)
  have old: "added_keys (decimal ` {0..<?n}) (zip (map decimal [i..<j]) us) = []" if "j \<le> ?n" for i j us
    using that by (auto simp: added_keys_def in_set_zip dest!: set_zip_leftD)
  show ?thesis
  proof (cases "length ws \<le> ?n")
    case True
    then have "added_keys (decimal ` {0..<?n}) (entries (Arr ws)) = []" using old by simp
    moreover have "same_doc (Arr ds) (Arr ws)"
      using ds(2) True by (intro same_array) (simp_all add: list_all2_conv_all_nth)
    ultimately show ?thesis using ds(1) by (auto simp: gen applyPatch_append)
  next
    case False
    have "zip (map decimal [0..<length ws]) ws =
        zip (map decimal [0..<?n]) (take ?n ws) @ zip (map decimal [?n..<length ws]) (drop ?n ws)"
    proof -
      have "map decimal [0..<length ws] = map decimal [0..<?n] @ map decimal [?n..<length ws]"
        using False upt_add_eq_append [of 0 ?n "length ws - ?n"] by simp
      then show ?thesis using False by (simp add: zip_append1 min_def)
    qed
    then have "added_keys (decimal ` {0..<?n}) (entries (Arr ws)) =
        added_keys (decimal ` {0..<?n}) (zip (map decimal [?n..<length ws]) (drop ?n (take (length ws) ws)))"
      using old [of ?n 0 "take ?n ws"] by (simp add: added_keys_def)
    moreover have "length ds = ?n" using ds(2) False by (auto dest: list_all2_lengthD)
    ultimately have "applyPatch (Arr ds) (added_keys (decimal ` {0..<?n}) (entries (Arr ws))) = Inr (Arr (ds @ drop ?n ws))"
      using array_adds [of "length ws" ws ?n ds] False assms(3) by simp
    moreover have "list_all2 same_doc (ds @ drop ?n ws) ws"
      using ds(2) list_all2_appendI [OF ds(2), of "drop ?n ws" "drop ?n ws"] by (simp add: list_all2_same)
    then have "same_doc (Arr (ds @ drop ?n ws)) (Arr ws)" by (intro same_array) (simp_all add: list_all2_conv_all_nth)
    ultimately show ?thesis using ds(1) False by (auto simp: gen applyPatch_append)
  qed
qed

section \<open>Patches between two documents\<close>

lemma patches_always_work: "wf_doc (c :: 'n document) \<Longrightarrow> chk \<longrightarrow> no_has_own c \<Longrightarrow> patches_work chk c"
proof (induction c)
  case (Arr vs)
  then have "\<forall>v \<in> set vs. patches_work chk v" by (simp add: list_all_iff)
  note array = array_patch [OF Arr.prems _ this]
  show ?case unfolding patches_work_def
  proof (intro allI impI)
    fix l :: "'n document"
    assume "wf_doc l" "is_object l" "is_array (Arr vs) = is_array l"
    then show "\<exists>d. applyPatch (Arr vs) (generate chk [] (Arr vs) l) = Inr d \<and> same_doc d l"
      using array by (cases l) (simp_all add: is_array_def is_object_def)
  qed
next
  case (Obj ps)
  have "\<forall>p \<in> set ps. patches_work chk (snd p)"
  proof
    fix p
    assume p: "p \<in> set ps"
    obtain k v where kv: "p = (k, v)" by (cases p)
    have "wf_doc v" "chk \<longrightarrow> no_has_own v" using p Obj.prems by (auto simp: list_all_iff kv)
    with Obj.IH [OF p, of v] show "patches_work chk (snd p)" by (simp add: kv)
  qed
  note obj = object_patch [OF Obj.prems _ this]
  show ?case unfolding patches_work_def
  proof (intro allI impI)
    fix l :: "'n document"
    assume "wf_doc l" "is_object l" "is_array (Obj ps) = is_array l"
    then show "\<exists>d. applyPatch (Obj ps) (generate chk [] (Obj ps) l) = Inr d \<and> same_doc d l"
      using obj by (cases l) (simp_all add: is_array_def is_object_def)
  qed
qed (simp add: patches_work_def is_object_def)

text \<open>
  C28: the comparison of two documents, both arrays or both objects, is a patch that turns the first
  into the second: applied to the first it succeeds and gives the second up to the order of
  properties, at every depth, in the plain and in the invertible form, which tests every value
  before it is changed. The tests fail on documents with a property \<open>hasOwnProperty\<close>, which are
  excluded for that form; \<open>__proto__\<close> is excluded in both.
\<close>

theorem compare_then_apply:
  assumes "wf_doc tree1" "wf_doc tree2" "invertible \<longrightarrow> no_has_own tree1"
    "is_object tree1" "is_object tree2" "is_array tree1 = is_array tree2"
  shows "\<exists>ops d. compare_docs invertible tree1 tree2 = Some ops \<and> applyPatch tree1 ops = Inr d \<and> same_doc d tree2"
  using patches_always_work [OF assms(1,3)] assms by (simp add: patches_work_def compare_docs_def)

theorem compare_then_apply_witness:
  "\<exists>ops d. compare_docs True (Obj [(js ''a'', Atom (JNum (1 :: int))), (js ''b'', Arr [Atom JNull, Obj []])])
       (Obj [(js ''c/d'', Arr []), (js ''b'', Arr [Atom (JNum 2)])]) = Some ops \<and>
     applyPatch (Obj [(js ''a'', Atom (JNum 1)), (js ''b'', Arr [Atom JNull, Obj []])]) ops = Inr d \<and>
     same_doc d (Obj [(js ''c/d'', Arr []), (js ''b'', Arr [Atom (JNum 2)])])"
  by (rule compare_then_apply)
    (simp_all add: js_def proto_def has_own_def is_object_def is_array_def)

section \<open>Reading and replacing one value\<close>

fun value_at :: "jsstr list \<Rightarrow> 'a json \<Rightarrow> 'a json option" where
  "value_at [] v = Some v"
| "value_at (k # ks) v = (case map_of (entries v) k of None \<Rightarrow> None | Some c \<Rightarrow> value_at ks c)"

fun put_at :: "jsstr list \<Rightarrow> 'n document \<Rightarrow> 'n document \<Rightarrow> 'n document" where
  "put_at [] v d = v"
| "put_at (k # ks) v d = (case map_of (entries d) k of None \<Rightarrow> d | Some c \<Rightarrow> put_child d k (put_at ks v c))"

text \<open>An entry of an array is at its index.\<close>

lemma entry_index:
  assumes "map_of (entries (Arr vs)) k = Some c"
  obtains n where "k = decimal n" "n < length vs" "c = vs ! n"
proof -
  from map_of_SomeD [OF assms] obtain n where "n < length vs" "k = decimal n" "c = vs ! n"
    by (auto simp: in_set_zip)
  then show ?thesis using that by blast
qed

lemma entry_child_all:
  assumes "wf_doc d" "map_of (entries d) k = Some c"
  shows "child d k = Inr (Some c) \<and> k \<noteq> proto \<and> wf_doc c"
proof (cases d)
  case (Arr vs)
  with assms(2) obtain n where n: "k = decimal n" "n < length vs" "c = vs ! n" by (metis entry_index)
  with assms(1) Arr show ?thesis
    using decimal_plain(2) by (simp_all add: array_index_decimal list_all_iff)
next
  case (Obj ps)
  with assms(2) have m: "(k, c) \<in> set ps" by (simp add: map_of_SomeD)
  then have "k \<in> fst ` set ps" by force
  moreover have "proto \<notin> fst ` set ps" using assms(1) Obj by simp
  ultimately have "k \<noteq> proto" by metis
  with assms m Obj show ?thesis by (auto simp: list_all_iff)
qed (use assms(2) in simp_all)

lemmas entry_child = entry_child_all [THEN conjunct1] entry_child_all [THEN conjunct2, THEN conjunct1]
  entry_child_all [THEN conjunct2, THEN conjunct2]

lemma entries_put:
  assumes "wf_doc d" "map_of (entries d) k = Some c"
  shows "map_of (entries (put_child d k v)) j = (if j = k then Some v else map_of (entries d) j)"
proof (cases d)
  case (Arr vs)
  with assms(2) obtain n where n: "k = decimal n" "n < length vs" by (metis entry_index)
  have put: "put_child d k v = Arr (vs[n := v])" using n assms(1) Arr by (simp add: array_index_decimal)
  show ?thesis
  proof (cases "\<exists>m. j = decimal m")
    case True
    then show ?thesis using put n Arr map_of_indices [of vs] map_of_indices [of "vs[n := v]"]
      by (auto simp: nth_list_update)
  next
    case False
    then have "map_of (entries (Arr us)) j = None" for us
      using entry_index [of us j] by (cases "map_of (entries (Arr us)) j") auto
    from this [of vs] this [of "vs[n := v]"] show ?thesis using False n put Arr by (auto simp del: entries.simps)
  qed
qed (use assms in simp_all)

lemma wf_put:
  assumes "wf_doc d" "map_of (entries d) k = Some c" "wf_doc v"
  shows "wf_doc (put_child d k v)"
proof (cases d)
  case (Arr vs)
  have "\<forall>u \<in> set (vs[i := v]). wf_doc u" for i
    using assms(1,3) Arr set_update_subset_insert [of vs i v] by (auto simp: list_all_iff)
  then show ?thesis using assms(1) Arr by (simp add: list_all_iff)
next
  case (Obj ps)
  have k: "k \<in> fst ` set ps" "k \<noteq> proto"
    using assms(2) entry_child(2) [OF assms(1,2)] Obj by (force dest: map_of_SomeD)+
  have "wf_doc u" if "(a, u) \<in> set (obj_put k v ps)" for a u
    using that assms(1,3) Obj k(1) by (auto simp: obj_put_def list_all_iff split: if_splits)
  then show ?thesis
    using assms(1) Obj k obj_put_distinct [of ps k v] by (auto simp: obj_put_keys list_all_iff)
qed (use assms in simp_all)

lemma put_at_get: "value_at path d = Some old \<Longrightarrow> wf_doc d \<Longrightarrow> value_at (path @ ks) (put_at path v d) = value_at ks v"
proof (induction path d rule: value_at.induct)
  case (2 k path d)
  then obtain c where c: "map_of (entries d) k = Some c" "value_at path c = Some old" by (auto split: option.splits)
  with 2 entries_put [OF "2.prems"(2) c(1), of "put_at path v c" k] entry_child(3) [OF "2.prems"(2) c(1)]
  show ?case by simp
qed simp

lemma put_at_other:
  "value_at path d = Some old \<Longrightarrow> wf_doc d \<Longrightarrow> \<not> prefix path other \<Longrightarrow> \<not> prefix other path \<Longrightarrow>
    value_at other (put_at path v d) = value_at other d"
proof (induction path d arbitrary: other rule: value_at.induct)
  case (2 k path d)
  then obtain c where c: "map_of (entries d) k = Some c" "value_at path c = Some old" by (auto split: option.splits)
  obtain j js' where o: "other = j # js'" using "2.prems"(4) by (cases other) auto
  show ?case
  proof (cases "j = k")
    case True
    then have "value_at js' (put_at path v c) = value_at js' c"
      using 2 c o entry_child(3) [OF "2.prems"(2) c(1)] by simp
    then show ?thesis using True o c entries_put [OF "2.prems"(2) c(1), of "put_at path v c" j] by simp
  next
    case False
    then show ?thesis using o c entries_put [OF "2.prems"(2) c(1), of "put_at path v c" j] by simp
  qed
qed simp

lemma wf_put_at: "value_at path d = Some old \<Longrightarrow> wf_doc d \<Longrightarrow> wf_doc v \<Longrightarrow> wf_doc (put_at path v d)"
proof (induction path d rule: value_at.induct)
  case (2 k path d)
  then obtain c where c: "map_of (entries d) k = Some c" "value_at path c = Some old" by (auto split: option.splits)
  with 2 entry_child(3) [OF "2.prems"(2) c(1)] show ?case by (auto intro: wf_put [OF "2.prems"(2) c(1)])
qed simp

lemma replace_end:
  "wf_doc d \<Longrightarrow> map_of (entries d) k = Some c \<Longrightarrow> at_end (Replace p v) d k = Inr (put_child d k v, Some c)"
proof (cases d)
  case (Arr vs)
  assume a: "wf_doc d" "map_of (entries d) k = Some c"
  with Arr obtain n where "k = decimal n" "n < length vs" "c = vs ! n" by (metis entry_index)
  with a(1) Arr show ?thesis by (simp add: array_index_decimal)
qed simp_all

lemma put_entry: "wf_doc d \<Longrightarrow> map_of (entries d) k = Some c \<Longrightarrow> put_child d k c = d"
proof (cases d)
  case (Arr vs)
  assume a: "wf_doc d" "map_of (entries d) k = Some c"
  with Arr obtain n where "k = decimal n" "n < length vs" "c = vs ! n" by (metis entry_index)
  with a(1) Arr show ?thesis by (simp add: array_index_decimal)
qed (simp_all add: obj_put_same)

lemma get_end: "at_end (Get p) d k = and_then (child d k) (\<lambda>c. Inr (d, c))"
  by (cases d) simp_all

lemma walk_at:
  assumes "value_at (k # path) d = Some w" "wf_doc d"
  shows "walk (Replace p v) (map escapePathComponent (k # path)) d = Inr (put_at (k # path) v d, Some w) \<and>
    walk (Get p) (map escapePathComponent (k # path)) d = Inr (d, Some w)"
  using assms
proof (induction path arbitrary: k d)
  case Nil
  then show ?case
    using entry_child [OF Nil.prems(2), of k w] replace_end [OF Nil.prems(2), of k w]
    by (auto simp: get_end simp del: at_end.simps split: option.splits)
next
  case (Cons j path)
  then obtain c where c: "map_of (entries d) k = Some c" "value_at (j # path) c = Some w" by (auto split: option.splits)
  note ch = entry_child [OF Cons.prems(2) c(1)]
  have "put_child d k c = d" by (rule put_entry [OF Cons.prems(2) c(1)])
  with Cons.IH [OF c(2) ch(3)] ch c(1) show ?case by simp
qed

lemma pointer_parts:
  "path \<noteq> [] \<Longrightarrow> 47 \<in> set (normalizeJSONPath path) \<and> tl (split_on 47 (normalizeJSONPath path)) = map escapePathComponent path"
  by (simp add: normalizeJSONPath_def escape_chars escape_eq [symmetric] split_on_join)

text \<open>
  C38: the client addresses values by lists of keys. Replacing an existing value through the pointer
  of its keys succeeds; reading the same pointer then gives the new value, every path below it is a
  path of the new value, and the value at any path that neither leads to it nor continues it is
  the one before: keys with slashes, tildes or digits are not confused, in objects and arrays.
\<close>

theorem replace_one_place:
  assumes "wf_doc doc" "wf_doc v" "path \<noteq> []" "value_at path doc = Some old"
  shows "\<exists>d. applyOperation doc (Replace (normalizeJSONPath path) v) = Inr d \<and>
    getValueByPointer d (normalizeJSONPath path) = Inr (Some v) \<and>
    (\<forall>ks. value_at (path @ ks) d = value_at ks v) \<and>
    (\<forall>other. \<not> prefix path other \<longrightarrow> \<not> prefix other path \<longrightarrow> value_at other d = value_at other doc)"
proof -
  obtain k ks where p: "path = k # ks" using assms(3) by (cases path) auto
  let ?d = "put_at path v doc"
  have "applyOperation doc (Replace (normalizeJSONPath path) v) = Inr ?d"
    using walk_at [of k ks doc old] assms pointer_parts [OF assms(3)]
    by (auto simp: p applyOperation_def apply_at_def walk_path_def simp del: put_at.simps value_at.simps)
  moreover have "value_at path ?d = Some v" using put_at_get [OF assms(4,1), of "[]" v] by simp
  then have "getValueByPointer ?d (normalizeJSONPath path) = Inr (Some v)"
    using walk_at [of k ks ?d v] wf_put_at [OF assms(4,1,2)] pointer_parts [OF assms(3)]
    by (auto simp: p getValueByPointer_def walk_path_def simp del: put_at.simps value_at.simps)
  ultimately show ?thesis
    using put_at_get [OF assms(4,1)] put_at_other [OF assms(4,1)] by blast
qed

theorem replace_one_place_witness:
  "\<exists>d. applyOperation (Obj [(js ''a/b'', Arr [Atom JNull, Atom (JNum (1 :: int))])]) (Replace (normalizeJSONPath [js ''a/b'', js ''1'']) (Arr [])) = Inr d \<and>
     getValueByPointer d (normalizeJSONPath [js ''a/b'', js ''1'']) = Inr (Some (Arr [])) \<and>
     value_at [js ''a/b'', js ''0''] d = Some (Atom JNull)"
proof -
  let ?doc = "Obj [(js ''a/b'', Arr [Atom JNull, Atom (JNum (1 :: int))])]" and ?p = "[js ''a/b'', js ''1'']"
  have h: "wf_doc ?doc" "wf_doc (Arr [] :: int document)" "?p \<noteq> []" "value_at ?p ?doc = Some (Atom (JNum 1))"
    by (simp_all add: js_def proto_def decimal.simps)
  have other: "\<not> prefix ?p [js ''a/b'', js ''0'']" "\<not> prefix [js ''a/b'', js ''0''] ?p"
    "value_at [js ''a/b'', js ''0''] ?doc = Some (Atom JNull)"
    by (simp_all add: js_def decimal.simps)
  from replace_one_place [OF h] other show ?thesis by metis
qed

end
