(* ===== verification/Ui_Serialize.thy ===== *)
theory Ui_Serialize
  imports Ui_Search
begin

text \<open>
  How the bundled client writes the parameters of a request into its URL, as it is in
  \<open>swagger-ui-bundle.js\<close>: \<open>encodeDisallowedCharacters\<close> (\<open>W\<close> on the one line of code of the file, with
  \<open>q\<close> and \<open>V\<close>), \<open>stylize\<close> (\<open>H\<close> with its three encoders), the parameters of a path (\<open>En\<close>), and of a
  query: \<open>formatKeyValueBySerializationOption\<close> (\<open>ie\<close>), \<open>formatKeyValue\<close> (\<open>ae\<close>), \<open>encodeFormOrQuery\<close>
  (\<open>se\<close>) and \<open>mergeInQueryOrForm\<close> (\<open>ce\<close>). Files and the \<open>encoding\<close> of multipart bodies are not
  modelled. Reading a query is written here, as a server does it.
\<close>

section \<open>Values\<close>

text \<open>
  The value of a parameter is \<open>undefined\<close>, a primitive, a list or an object of primitives; \<open>null\<close> and
  nested values are left out. A number is the text it is printed as.
\<close>

datatype prim = Text jsstr | Number jsstr | Flag bool

datatype pvalue = Prim prim | Items "prim list" | Props "(jsstr \<times> prim) list" | Undefined

fun prim_text :: "prim \<Rightarrow> jsstr" where
  "prim_text (Text s) = s"
| "prim_text (Number s) = s"
| "prim_text (Flag b) = (if b then js ''true'' else js ''false'')"

section \<open>Percent escapes\<close>

definition isRfc3986Reserved :: "nat \<Rightarrow> bool" where
  "isRfc3986Reserved c \<longleftrightarrow> c \<in> set (js '':/?#[]@!$&'' @ [39] @ js ''()*+,;='')"

definition isRfc3986Unreserved :: "nat \<Rightarrow> bool" where
  "isRfc3986Unreserved c \<longleftrightarrow> 97 \<le> c \<and> c \<le> 122 \<or> 65 \<le> c \<and> c \<le> 90 \<or> 48 \<le> c \<and> c \<le> 57 \<or> c \<in> set (js ''-._~'')"

text \<open>
  The option \<open>escape\<close>: absent or false, \<open>unsafe\<close>, or any other true value. \<open>TextEncoder\<close> replaces a
  lone surrogate by \<open>U+FFFD\<close>.
\<close>

datatype escape = No_escape | Unsafe | Reserved

definition escape_char :: "escape \<Rightarrow> nat \<Rightarrow> jsstr" where
  "escape_char e c =
     (if isRfc3986Unreserved c then [c]
      else if isRfc3986Reserved c \<and> e = Unsafe then [c]
      else concat (map pct (utf8 (if scalar c then c else 0xFFFD))))"

definition encodeDisallowedCharacters :: "escape \<Rightarrow> prim \<Rightarrow> jsstr" where
  "encodeDisallowedCharacters e p =
     (case p of Flag b \<Rightarrow> prim_text p
      | _ \<Rightarrow> if prim_text p \<noteq> [] \<and> e \<noteq> No_escape then concat (map (escape_char e) (prim_text p)) else prim_text p)"

section \<open>Styles\<close>

text \<open>The texts the code compares a style with, and any other text.\<close>

datatype style = Simple | Label | Matrix | Form | SpaceDelimited | PipeDelimited | DeepObject | Other_style

fun join_by :: "jsstr \<Rightarrow> jsstr list \<Rightarrow> jsstr" where
  "join_by d [] = []"
| "join_by d [p] = p"
| "join_by d (p # ps) = p @ d @ join_by d ps"

definition or_else :: "jsstr \<Rightarrow> jsstr \<Rightarrow> jsstr \<Rightarrow> jsstr" where
  "or_else acc next start = (if acc = [] then start else acc @ next)"

definition stylize_array :: "jsstr \<Rightarrow> style \<Rightarrow> bool \<Rightarrow> escape \<Rightarrow> prim list \<Rightarrow> jsstr option" where
  "stylize_array key st explode e value =
     (let vs = map (encodeDisallowedCharacters e) value in
      case st of
        Simple \<Rightarrow> Some (join_by [44] vs)
      | Label \<Rightarrow> Some (46 # join_by [46] vs)
      | Matrix \<Rightarrow> Some (foldl (\<lambda>prev curr. if prev = [] \<or> explode then prev @ 59 # key @ 61 # curr
            else prev @ 44 # curr) [] vs)
      | Form \<Rightarrow> Some (join_by (if explode then 38 # key @ [61] else [44]) vs)
      | SpaceDelimited \<Rightarrow> Some (join_by (32 # (if explode then key @ [61] else [])) vs)
      | PipeDelimited \<Rightarrow> Some (join_by (124 # (if explode then key @ [61] else [])) vs)
      | _ \<Rightarrow> None)"

definition stylize_object :: "jsstr \<Rightarrow> style \<Rightarrow> bool \<Rightarrow> escape \<Rightarrow> (jsstr \<times> prim) list \<Rightarrow> jsstr option" where
  "stylize_object key st explode e value =
     (let reduce = (\<lambda>f. foldl (\<lambda>acc (k, v). f acc k (encodeDisallowedCharacters e v)) [] value) in
      case st of
        Simple \<Rightarrow> Some (reduce (\<lambda>acc k v. or_else acc [44] [] @ k @ (if explode then 61 else 44) # v))
      | Label \<Rightarrow> Some (reduce (\<lambda>acc k v. or_else acc [46] [46] @ k @ (if explode then 61 else 46) # v))
      | Matrix \<Rightarrow>
          if explode then Some (reduce (\<lambda>acc k v. or_else acc [59] [59] @ k @ 61 # v))
          else Some (reduce (\<lambda>acc k v. or_else acc [44] (59 # key @ [61]) @ k @ 44 # v))
      | Form \<Rightarrow> Some (reduce (\<lambda>acc k v. or_else acc [if explode then 38 else 44] [] @ k @ (if explode then 61 else 44) # v))
      | _ \<Rightarrow> None)"

definition stylize_prim :: "jsstr \<Rightarrow> style \<Rightarrow> escape \<Rightarrow> prim \<Rightarrow> jsstr option" where
  "stylize_prim key st e value =
     (let v = encodeDisallowedCharacters e value in
      case st of
        Simple \<Rightarrow> Some v
      | Label \<Rightarrow> Some (46 # v)
      | Matrix \<Rightarrow> Some (59 # key @ 61 # v)
      | Form \<Rightarrow> Some v
      | DeepObject \<Rightarrow> Some v
      | _ \<Rightarrow> None)"

text \<open>\<open>None\<close> is the result \<open>undefined\<close>; a primitive \<open>undefined\<close> is printed as such.\<close>

definition stylize :: "jsstr \<Rightarrow> style \<Rightarrow> bool \<Rightarrow> escape \<Rightarrow> pvalue \<Rightarrow> jsstr option" where
  "stylize key st explode e value =
     (case value of
        Items vs \<Rightarrow> stylize_array key st explode e vs
      | Props ps \<Rightarrow> stylize_object key st explode e ps
      | Prim v \<Rightarrow> stylize_prim key st e v
      | Undefined \<Rightarrow> if st = Simple \<or> st = Form \<or> st = DeepObject then None
          else stylize_prim key st No_escape (Text (js ''undefined'')))"

section \<open>Parameters of the path\<close>

text \<open>\<open>s.split(sep).join(r)\<close>.\<close>

function replace_sub :: "jsstr \<Rightarrow> jsstr \<Rightarrow> jsstr \<Rightarrow> jsstr" where
  "replace_sub sep r s =
     (case s of [] \<Rightarrow> []
      | c # cs \<Rightarrow> if sep \<noteq> [] \<and> take (length sep) s = sep then r @ replace_sub sep r (drop (length sep) s)
          else c # replace_sub sep r cs)"
  by pat_completeness auto

termination
proof (relation "measure (\<lambda>(sep, r, s). length s)")
  fix sep r s c and cs :: jsstr
  assume "s = c # cs" "sep \<noteq> [] \<and> take (length sep) s = sep"
  then show "((sep, r, drop (length sep) s), sep, r, s) \<in> measure (\<lambda>(sep, r, s). length s)"
    by (cases sep) auto
qed simp_all

declare replace_sub.simps [simp del]

text \<open>
  A parameter with a \<open>content\<close> is its text in that format; the others have a style and the flag
  \<open>explode\<close>. The glue \<open>undefined\<close> of \<open>join\<close> is a comma.
\<close>

datatype source = Content jsstr | Schema "style option" "bool option" pvalue

definition placeholder :: "jsstr \<Rightarrow> jsstr" where
  "placeholder name = 123 # name @ [125]"

definition pathParameter :: "jsstr \<Rightarrow> source \<Rightarrow> jsstr \<Rightarrow> jsstr" where
  "pathParameter name src url =
     (case src of
        Content text \<Rightarrow> replace_sub (placeholder name) (encodeDisallowedCharacters Reserved (Text text)) url
      | Schema st explode value \<Rightarrow>
          replace_sub (placeholder name)
            (case stylize name (case st of None \<Rightarrow> Simple | Some s \<Rightarrow> s) (explode = Some True) Reserved value of
               None \<Rightarrow> [44] | Some s \<Rightarrow> s) url)"

section \<open>Parameters of the query\<close>

record serialization =
  soStyle :: "style option"
  soExplode :: "bool option"
  soReserved :: bool

text \<open>An entry of the query; one that is not an object has no settings.\<close>

record qparam =
  qValue :: pvalue
  qOption :: "serialization option"
  qCollection :: "jsstr option"
  qAllowEmpty :: bool

text \<open>The value of a formatted pair.\<close>

datatype formatted = FText jsstr | FItems "jsstr list" | FUndefined

definition style_glue :: "style \<Rightarrow> jsstr" where
  "style_glue st = (case st of SpaceDelimited \<Rightarrow> js ''%20'' | PipeDelimited \<Rightarrow> [124] | _ \<Rightarrow> [44])"

definition formatKeyValueBySerializationOption :: "jsstr \<Rightarrow> pvalue \<Rightarrow> serialization \<Rightarrow> (jsstr \<times> formatted) list" where
  "formatKeyValueBySerializationOption key value opt =
     (let st = (case soStyle opt of None \<Rightarrow> Form | Some s \<Rightarrow> s);
          shouldExplode = (case soExplode opt of None \<Rightarrow> st = Form | Some b \<Rightarrow> b);
          e = (if soReserved opt then Unsafe else Reserved);
          encodeFn = encodeDisallowedCharacters e;
          encodeKeyFn = (\<lambda>k. encodeDisallowedCharacters e (Text k)) in
      case value of
        Undefined \<Rightarrow> [(encodeKeyFn key, FUndefined)]
      | Prim v \<Rightarrow> [(encodeKeyFn key, FText (encodeFn v))]
      | Items vs \<Rightarrow>
          if shouldExplode then [(encodeKeyFn key, FItems (map encodeFn vs))]
          else [(encodeKeyFn key, FText (join_by (style_glue st) (map encodeFn vs)))]
      | Props ps \<Rightarrow>
          if st = DeepObject then map (\<lambda>(k, v). (encodeKeyFn (key @ 91 # k @ [93]), FText (encodeFn v))) ps
          else if shouldExplode then map (\<lambda>(k, v). (encodeKeyFn k, FText (encodeFn v))) ps
          else [(encodeKeyFn key, FText (join_by [44] (map (\<lambda>(k, v). encodeKeyFn k @ 44 # encodeFn v) ps)))])"

text \<open>The glue of a \<open>collectionFormat\<close>; an unknown one is a comma.\<close>

definition collection_glue :: "jsstr option \<Rightarrow> jsstr" where
  "collection_glue fmt =
     (if fmt = Some (js ''ssv'') then js ''%20'' else if fmt = Some (js ''tsv'') then js ''%09''
      else if fmt = Some (js ''pipes'') then [124] else [44])"

fun all_some :: "'a option list \<Rightarrow> 'a list option" where
  "all_some [] = Some []"
| "all_some (x # xs) = (case (x, all_some xs) of (Some y, Some ys) \<Rightarrow> Some (y # ys) | _ \<Rightarrow> None)"

text \<open>\<open>None\<close> is the \<open>URIError\<close> of a lone surrogate.\<close>

definition formatKeyValue :: "jsstr \<Rightarrow> qparam \<Rightarrow> (jsstr \<times> formatted) list option" where
  "formatKeyValue key input =
     (case encodeURIComponent key of None \<Rightarrow> None
      | Some encodedKey \<Rightarrow>
          if qValue input = Undefined \<and> qAllowEmpty input then Some [(encodedKey, FText [])]
          else case qOption input of Some opt \<Rightarrow> Some (formatKeyValueBySerializationOption key (qValue input) opt)
          | None \<Rightarrow>
             (case qValue input of
                Undefined \<Rightarrow> Some [(encodedKey, FText (js ''undefined''))]
              | Prim v \<Rightarrow> map_option (\<lambda>s. [(encodedKey, FText s)]) (encodeURIComponent (prim_text v))
              | Items vs \<Rightarrow>
                  map_option (\<lambda>ss. [(encodedKey, if qCollection input = Some (js ''multi'') then FItems ss
                       else FText (join_by (collection_glue (if qCollection input = Some [] then None else qCollection input)) ss))])
                    (all_some (map (\<lambda>v. encodeURIComponent (prim_text v)) vs))
              | Props ps \<Rightarrow> Some [(encodedKey, FText [])]))"

text \<open>
  The pairs become the properties of one object, which \<open>qs.stringify\<close> prints without encoding, a
  list as repeated pairs.
\<close>

definition set_formatted :: "jsstr \<times> formatted \<Rightarrow> (jsstr \<times> formatted) list \<Rightarrow> (jsstr \<times> formatted) list" where
  "set_formatted p ob = (if fst p = proto then ob else obj_put (fst p) (snd p) ob)"

fun formatted_pairs :: "jsstr \<times> formatted \<Rightarrow> jsstr list" where
  "formatted_pairs (k, FText s) = [k @ 61 # s]"
| "formatted_pairs (k, FItems ss) = map (\<lambda>s. k @ 61 # s) ss"
| "formatted_pairs (k, FUndefined) = []"

definition encodeFormOrQuery :: "(jsstr \<times> qparam) list \<Rightarrow> jsstr option" where
  "encodeFormOrQuery query =
     (case all_some (map (\<lambda>(k, p). formatKeyValue k p) query) of None \<Rightarrow> None
      | Some formatted \<Rightarrow> Some (join_by [38] (concat (map formatted_pairs (fold set_formatted (concat formatted) [])))))"

text \<open>
  The query of a request is merged into its URL. What the URL itself has after a question mark is
  read and printed by the library \<open>qs\<close> without the keys of the query, the argument \<open>kept\<close>; a second
  question mark and what follows it are dropped.
\<close>

definition mergeInQuery :: "(jsstr \<Rightarrow> jsstr list \<Rightarrow> jsstr) \<Rightarrow> jsstr \<Rightarrow> (jsstr \<times> qparam) list \<Rightarrow> jsstr option" where
  "mergeInQuery kept url query =
     (case encodeFormOrQuery query of None \<Rightarrow> None
      | Some q \<Rightarrow>
          (let parts = split_on 63 url;
               old = (if tl parts = [] \<or> parts ! 1 = [] then [] else kept (parts ! 1) (map fst query));
               joined = join_by [38] (filter (\<lambda>s. s \<noteq> []) [old, q]) in
           Some (hd parts @ (if joined = [] then [] else 63 # joined))))"

section \<open>Escaped text\<close>

lemma utf8_bytes: "c < 0x110000 \<Longrightarrow> b \<in> set (utf8 c) \<Longrightarrow> b < 256"
  by (auto simp: utf8_def less_mult_imp_div_less div_mult2_eq [symmetric] split: if_splits)

lemma pct_byte: "c \<in> set (pct b) \<Longrightarrow> b < 256 \<Longrightarrow> c = 37 \<or> 48 \<le> c \<and> c \<le> 57 \<or> 65 \<le> c \<and> c \<le> 70"
proof -
  assume "c \<in> set (pct b)" "b < 256"
  moreover have "b div 16 < 16" "b mod 16 < 16" using \<open>b < 256\<close> by (simp_all add: less_mult_imp_div_less)
  ultimately show ?thesis by (auto simp: pct_def hex_digit_def split: if_splits)
qed

definition plain_char :: "escape \<Rightarrow> nat \<Rightarrow> bool" where
  "plain_char e c \<longleftrightarrow> isRfc3986Unreserved c \<or> c = 37 \<or> e = Unsafe \<and> isRfc3986Reserved c"

lemma escaped_chars: "d \<in> set (escape_char e c) \<Longrightarrow> plain_char e d"
proof -
  assume d: "d \<in> set (escape_char e c)"
  let ?c = "if scalar c then c else 0xFFFD"
  show ?thesis
  proof (cases "isRfc3986Unreserved c \<or> isRfc3986Reserved c \<and> e = Unsafe")
    case True
    then show ?thesis using d by (auto simp: escape_char_def plain_char_def split: if_splits)
  next
    case False
    then obtain b where b: "b \<in> set (utf8 ?c)" "d \<in> set (pct b)" using d by (auto simp: escape_char_def split: if_splits)
    have "?c < 0x110000" by (auto simp: scalar_def)
    from pct_byte [OF b(2) utf8_bytes [OF this b(1)]] show ?thesis by (auto simp: plain_char_def isRfc3986Unreserved_def)
  qed
qed

lemma reserved_plain: "isRfc3986Reserved c \<Longrightarrow> c \<noteq> 37"
  by (auto simp: isRfc3986Reserved_def js_def)

lemma unreserved_plain: "isRfc3986Unreserved c \<Longrightarrow> c \<noteq> 37 \<and> c \<notin> {38, 61, 44, 124, 47, 63, 35}"
  by (auto simp: isRfc3986Unreserved_def js_def)

lemma decode_escaped: "list_all scalar s \<Longrightarrow> decodeURIComponent (concat (map (escape_char e) s)) = Some s"
proof (induction s)
  case (Cons c s)
  consider "isRfc3986Unreserved c \<or> isRfc3986Reserved c \<and> e = Unsafe"
    | "\<not> (isRfc3986Unreserved c \<or> isRfc3986Reserved c \<and> e = Unsafe)" by blast
  then show ?case
  proof cases
    case 1
    then have "c \<noteq> 37" using reserved_plain unreserved_plain by blast
    then show ?thesis using 1 Cons by (auto simp: escape_char_def)
  next
    case 2
    then have "escape_char e c = concat (map pct (utf8 c))" using Cons.prems by (auto simp: escape_char_def)
    then show ?thesis using Cons by (simp add: decode_pct_char)
  qed
qed simp

lemma decode_no_escape: "37 \<notin> set s \<Longrightarrow> decodeURIComponent s = Some s"
  by (induction s) auto

lemma flag_text: "c \<in> set (prim_text (Flag b)) \<Longrightarrow> isRfc3986Unreserved c"
  by (auto simp: js_def isRfc3986Unreserved_def split: if_splits)

lemma encoded_concat:
  "\<forall>b. p \<noteq> Flag b \<Longrightarrow> e \<noteq> No_escape \<Longrightarrow> encodeDisallowedCharacters e p = concat (map (escape_char e) (prim_text p))"
  by (cases p) (auto simp: encodeDisallowedCharacters_def)

lemma encoded_flag: "encodeDisallowedCharacters e (Flag b) = prim_text (Flag b)"
  by (simp add: encodeDisallowedCharacters_def)

lemma encoded_chars: "e \<noteq> No_escape \<Longrightarrow> c \<in> set (encodeDisallowedCharacters e p) \<Longrightarrow> plain_char e c"
proof (cases "\<exists>b. p = Flag b")
  case True
  assume "c \<in> set (encodeDisallowedCharacters e p)"
  with True show ?thesis using flag_text encoded_flag by (auto simp: plain_char_def simp del: prim_text.simps)
next
  case False
  assume "e \<noteq> No_escape" "c \<in> set (encodeDisallowedCharacters e p)"
  with False obtain x where "c \<in> set (escape_char e x)" by (auto simp: encoded_concat)
  then show ?thesis by (rule escaped_chars)
qed

lemma decode_encoded:
  assumes "list_all scalar (prim_text p)" "e \<noteq> No_escape"
  shows "decodeURIComponent (encodeDisallowedCharacters e p) = Some (prim_text p)"
proof (cases "\<exists>b. p = Flag b")
  case True
  then have "37 \<notin> set (prim_text p)" using flag_text unreserved_plain by blast
  then show ?thesis using True by (auto simp: encoded_flag decode_no_escape simp del: prim_text.simps)
next
  case False
  then show ?thesis using decode_escaped [OF assms(1)] assms(2) by (simp add: encoded_concat)
qed

text \<open>
  A value written with percent escapes has only unreserved characters and escapes, in the mode
  \<open>unsafe\<close> also the reserved characters, and decoding it gives the text of the value back.
\<close>

theorem encoded_text_is_read_back:
  assumes "list_all scalar (prim_text p)" "e \<noteq> No_escape"
  shows "decodeURIComponent (encodeDisallowedCharacters e p) = Some (prim_text p) \<and>
    (\<forall>c \<in> set (encodeDisallowedCharacters e p).
       isRfc3986Unreserved c \<or> c = 37 \<or> e = Unsafe \<and> isRfc3986Reserved c)"
  using decode_encoded [OF assms] encoded_chars [OF assms(2)] by (auto simp: plain_char_def)

theorem encoded_text_is_read_back_witness:
  "encodeDisallowedCharacters Reserved (Text (js ''a/b'' @ [0x20AC])) = js ''a%2Fb%E2%82%AC'' \<and>
   decodeURIComponent (js ''a%2Fb%E2%82%AC'') = Some (js ''a/b'' @ [0x20AC])"
proof -
  have s: "list_all scalar (prim_text (Text (js ''a/b'' @ [0x20AC])))" by (simp add: js_def scalar_def)
  have e: "encodeDisallowedCharacters Reserved (Text (js ''a/b'' @ [0x20AC])) = js ''a%2Fb%E2%82%AC''"
    by (simp add: js_def encodeDisallowedCharacters_def escape_char_def isRfc3986Unreserved_def isRfc3986Reserved_def
        scalar_def utf8_def pct_def hex_digit_def)
  show ?thesis using encoded_text_is_read_back [OF s, of Reserved] e by simp
qed

section \<open>Lists with a delimiter\<close>

lemma join_by_single: "join_by [d] ps = join_with d ps"
  by (induction d ps rule: join_with.induct) auto

lemma encoded_without: "c \<in> {38, 61, 44, 124, 47, 63, 35} \<Longrightarrow> c \<notin> set (encodeDisallowedCharacters Reserved p)"
  using encoded_chars [of Reserved c p] unreserved_plain [of c] by (auto simp: plain_char_def)

definition list_delimiter :: "style \<Rightarrow> nat" where
  "list_delimiter st = (if st = PipeDelimited then 124 else 44)"

text \<open>
  A list that is not exploded is one pair of the query; its value, split at the comma or the bar
  and decoded, gives the items back, whatever characters they have.
\<close>

theorem delimited_items_are_read_back:
  assumes "vs \<noteq> []" "\<forall>v \<in> set vs. list_all scalar (prim_text v)" "\<not> soReserved opt"
    "(soStyle opt = Some PipeDelimited \<and> soExplode opt \<noteq> Some True) \<or> (soStyle opt \<in> {None, Some Form} \<and> soExplode opt = Some False)"
  shows "\<exists>q. formatKeyValueBySerializationOption key (Items vs) opt = [(encodeDisallowedCharacters Reserved (Text key), FText q)] \<and>
    map decodeURIComponent (split_on (list_delimiter (case soStyle opt of None \<Rightarrow> Form | Some st \<Rightarrow> st)) q) = map (\<lambda>v. Some (prim_text v)) vs"
proof -
  let ?st = "case soStyle opt of None \<Rightarrow> Form | Some st \<Rightarrow> st"
  let ?vs = "map (encodeDisallowedCharacters Reserved) vs"
  have glue: "style_glue ?st = [list_delimiter ?st]" "list_delimiter ?st \<in> {44, 124}"
    using assms(4) by (auto simp: style_glue_def list_delimiter_def)
  have "formatKeyValueBySerializationOption key (Items vs) opt =
      [(encodeDisallowedCharacters Reserved (Text key), FText (join_with (list_delimiter ?st) ?vs))]"
    using assms(3,4) glue by (auto simp: formatKeyValueBySerializationOption_def Let_def join_by_single split: option.splits)
  moreover have "split_on (list_delimiter ?st) (join_with (list_delimiter ?st) ?vs) = ?vs"
  proof (rule split_on_join)
    show "\<forall>p \<in> set ?vs. list_delimiter ?st \<notin> set p"
      using glue(2) encoded_without [of "list_delimiter ?st"] by fastforce
  qed (use assms(1) in simp)
  ultimately show ?thesis using assms(2) by (simp add: decode_encoded)
qed

theorem delimited_items_are_read_back_witness:
  "\<exists>q. formatKeyValueBySerializationOption (js ''k'') (Items [Text (js ''a,b''), Number (js ''1'')])
       \<lparr>soStyle = None, soExplode = Some False, soReserved = False\<rparr> = [(encodeDisallowedCharacters Reserved (Text (js ''k'')), FText q)] \<and>
     map decodeURIComponent (split_on 44 q) = [Some (js ''a,b''), Some (js ''1'')]"
proof -
  let ?opt = "\<lparr>soStyle = None, soExplode = Some False, soReserved = False\<rparr>"
  let ?vs = "[Text (js ''a,b''), Number (js ''1'')]"
  have "?vs \<noteq> []" "\<forall>v \<in> set ?vs. list_all scalar (prim_text v)" "\<not> soReserved ?opt"
    "(soStyle ?opt = Some PipeDelimited \<and> soExplode ?opt \<noteq> Some True) \<or> (soStyle ?opt \<in> {None, Some Form} \<and> soExplode ?opt = Some False)"
    by (simp_all add: js_def scalar_def)
  from delimited_items_are_read_back [OF this, of "js ''k''"] show ?thesis by (simp add: list_delimiter_def)
qed

text \<open>
  In the style \<open>spaceDelimited\<close> the glue is an escaped space, and so is a space in an item: an
  item with a space and the list of its two parts are written alike.
\<close>

theorem space_delimited_is_ambiguous:
  assumes "soStyle opt = Some SpaceDelimited" "soExplode opt \<noteq> Some True"
  shows "formatKeyValueBySerializationOption key (Items [Text (a @ 32 # b)]) opt =
    formatKeyValueBySerializationOption key (Items [Text a, Text b]) opt"
proof -
  have sp: "escape_char e 32 = js ''%20''" for e
    by (simp add: escape_char_def isRfc3986Unreserved_def isRfc3986Reserved_def js_def scalar_def utf8_def pct_def hex_digit_def)
  have enc: "encodeDisallowedCharacters e (Text s) = concat (map (escape_char e) s)" if "e \<noteq> No_escape" for e s
    using that by (simp add: encodeDisallowedCharacters_def)
  show ?thesis
    using assms sp by (auto simp: formatKeyValueBySerializationOption_def Let_def style_glue_def enc split: option.splits)
qed

theorem space_delimited_is_ambiguous_witness:
  "formatKeyValueBySerializationOption (js ''k'') (Items [Text (js ''a b'')]) \<lparr>soStyle = Some SpaceDelimited, soExplode = Some False, soReserved = False\<rparr> =
   formatKeyValueBySerializationOption (js ''k'') (Items [Text (js ''a''), Text (js ''b'')]) \<lparr>soStyle = Some SpaceDelimited, soExplode = Some False, soReserved = False\<rparr>"
  using space_delimited_is_ambiguous [of "\<lparr>soStyle = Some SpaceDelimited, soExplode = Some False, soReserved = False\<rparr>"
      "js ''k''" "js ''a''" "js ''b''"]
  by (simp add: js_def)

section \<open>A query is read back\<close>

text \<open>How a server reads a query: pairs at ampersands, a pair at its first equals sign.\<close>

definition read_pair :: "jsstr \<Rightarrow> jsstr option \<times> jsstr option" where
  "read_pair s = (decodeURIComponent (takeWhile (\<lambda>c. c \<noteq> 61) s), decodeURIComponent (drop 1 (dropWhile (\<lambda>c. c \<noteq> 61) s)))"

definition query_values :: "jsstr \<Rightarrow> jsstr \<Rightarrow> jsstr option list" where
  "query_values name q =
     (if q = [] then [] else map snd (filter (\<lambda>p. fst p = Some name) (map read_pair (split_on 38 q))))"

text \<open>The parameters that are sent as their values: single ones and lists that are exploded.\<close>

fun value_texts :: "pvalue \<Rightarrow> jsstr list" where
  "value_texts (Prim v) = [prim_text v]"
| "value_texts (Items vs) = map prim_text vs"
| "value_texts _ = []"

definition exploded :: "qparam \<Rightarrow> bool" where
  "exploded p \<longleftrightarrow> (case qOption p of
       Some opt \<Rightarrow> \<not> soReserved opt \<and> (soExplode opt = Some True \<or> soExplode opt = None \<and> soStyle opt \<in> {None, Some Form})
     | None \<Rightarrow> qCollection p = Some (js ''multi''))"

definition sent_plainly :: "qparam \<Rightarrow> bool" where
  "sent_plainly p \<longleftrightarrow> (case qValue p of
       Prim v \<Rightarrow> case qOption p of Some opt \<Rightarrow> \<not> soReserved opt | None \<Rightarrow> True
     | Items vs \<Rightarrow> exploded p
     | _ \<Rightarrow> False) \<and> (\<forall>s \<in> set (value_texts (qValue p)). list_all scalar s)"

text \<open>A formatted pair that is read as the values \<open>ts\<close> of the parameter \<open>name\<close>.\<close>

fun formatted_texts :: "formatted \<Rightarrow> jsstr list" where
  "formatted_texts (FText s) = [s]" | "formatted_texts (FItems ss) = ss" | "formatted_texts FUndefined = []"

definition reads_as :: "jsstr \<times> formatted \<Rightarrow> jsstr \<Rightarrow> jsstr list \<Rightarrow> bool" where
  "reads_as kf name ts \<longleftrightarrow> decodeURIComponent (fst kf) = Some name \<and> 61 \<notin> set (fst kf) \<and> 38 \<notin> set (fst kf) \<and>
     (\<forall>s \<in> set (formatted_texts (snd kf)). 38 \<notin> set s) \<and> map decodeURIComponent (formatted_texts (snd kf)) = map Some ts"

lemma all_some_map: "\<forall>x \<in> set xs. f x \<noteq> None \<Longrightarrow> all_some (map f xs) = Some (map (the \<circ> f) xs)"
  by (induction xs) auto

lemma encoded_component:
  assumes "list_all scalar s"
  obtains e where "encodeURIComponent s = Some e" "decodeURIComponent e = Some s" "38 \<notin> set e" "61 \<notin> set e"
proof -
  from encode_scalar [OF assms] obtain e where e: "encodeURIComponent s = Some e" by blast
  with encode_plain [OF e] show ?thesis using that by simp
qed

lemma encoded_items:
  assumes "\<forall>v \<in> set vs. list_all scalar (prim_text v)"
  obtains ss where "all_some (map (\<lambda>v. encodeURIComponent (prim_text v)) vs) = Some ss"
    "map decodeURIComponent ss = map (\<lambda>v. Some (prim_text v)) vs" "\<forall>s \<in> set ss. 38 \<notin> set s"
proof -
  have "\<forall>v \<in> set vs. encodeURIComponent (prim_text v) \<noteq> None" using assms encode_scalar by blast
  note all_some_map [OF this]
  moreover have "decodeURIComponent ((the \<circ> (\<lambda>v. encodeURIComponent (prim_text v))) v) = Some (prim_text v) \<and>
      38 \<notin> set ((the \<circ> (\<lambda>v. encodeURIComponent (prim_text v))) v)" if v: "v \<in> set vs" for v
  proof -
    from assms v have "list_all scalar (prim_text v)" by blast
    from encoded_component [OF this] show ?thesis by (metis comp_apply option.sel)
  qed
  ultimately show ?thesis using that by simp
qed

lemma formatted_reads:
  assumes "list_all scalar key" "sent_plainly p"
  shows "\<exists>kf. formatKeyValue key p = Some [kf] \<and> reads_as kf key (value_texts (qValue p))"
proof -
  obtain ek where ek: "encodeURIComponent key = Some ek" "decodeURIComponent ek = Some key" "38 \<notin> set ek" "61 \<notin> set ek"
    using encoded_component [OF assms(1)] .
  let ?W = "encodeDisallowedCharacters Reserved"
  have wk: "decodeURIComponent (?W (Text key)) = Some key" "38 \<notin> set (?W (Text key))" "61 \<notin> set (?W (Text key))"
    using decode_encoded [of "Text key" Reserved] assms(1) encoded_without [of 38] encoded_without [of 61] by simp_all
  have given: "qValue p \<noteq> Undefined" using assms(2) by (auto simp: sent_plainly_def)
  show ?thesis
  proof (cases "qOption p")
    case (Some opt)
    have reserved: "\<not> soReserved opt" using assms(2) Some by (auto simp: sent_plainly_def exploded_def split: pvalue.splits)
    have fmt: "formatKeyValue key p = Some (formatKeyValueBySerializationOption key (qValue p) opt)"
      using ek(1) given Some by (simp add: formatKeyValue_def)
    show ?thesis
    proof (cases "qValue p")
      case (Prim v)
      have "list_all scalar (prim_text v)" using assms(2) Prim by (simp add: sent_plainly_def)
      then have "reads_as (?W (Text key), FText (?W v)) key [prim_text v]"
        using wk decode_encoded [of v Reserved] encoded_without [of 38 v] by (simp add: reads_as_def)
      then show ?thesis using fmt Prim reserved by (simp add: formatKeyValueBySerializationOption_def Let_def)
    next
      case (Items vs)
      have sc: "\<forall>v \<in> set vs. list_all scalar (prim_text v)" and ex: "exploded p"
        using assms(2) Items by (auto simp: sent_plainly_def)
      have "reads_as (?W (Text key), FItems (map ?W vs)) key (map prim_text vs)"
        using wk sc encoded_without [of 38] by (auto simp: reads_as_def decode_encoded)
      moreover have "formatKeyValueBySerializationOption key (Items vs) opt = [(?W (Text key), FItems (map ?W vs))]"
        using ex Some reserved
        by (auto simp: exploded_def formatKeyValueBySerializationOption_def Let_def split: option.splits)
      ultimately show ?thesis using fmt Items by simp
    qed (use assms(2) in \<open>auto simp: sent_plainly_def\<close>)
  next
    case None
    show ?thesis
    proof (cases "qValue p")
      case (Prim v)
      then have "list_all scalar (prim_text v)" using assms(2) by (simp add: sent_plainly_def)
      from encoded_component [OF this] obtain e where "encodeURIComponent (prim_text v) = Some e"
        "decodeURIComponent e = Some (prim_text v)" "38 \<notin> set e" by blast
      then show ?thesis using ek None Prim by (simp add: formatKeyValue_def reads_as_def)
    next
      case (Items vs)
      then have sc: "\<forall>v \<in> set vs. list_all scalar (prim_text v)" and "qCollection p = Some (js ''multi'')"
        using assms(2) None by (auto simp: sent_plainly_def exploded_def)
      moreover obtain ss where "all_some (map (\<lambda>v. encodeURIComponent (prim_text v)) vs) = Some ss"
        "map decodeURIComponent ss = map (\<lambda>v. Some (prim_text v)) vs" "\<forall>s \<in> set ss. 38 \<notin> set s"
        using encoded_items [OF sc] .
      ultimately show ?thesis using ek None Items by (simp add: formatKeyValue_def reads_as_def)
    qed (use assms(2) in \<open>auto simp: sent_plainly_def\<close>)
  qed
qed

lemma fold_formatted:
  "distinct (map fst ps) \<Longrightarrow> proto \<notin> fst ` set ps \<Longrightarrow> distinct (map fst ob) \<Longrightarrow>
    distinct (map fst (fold set_formatted ps ob)) \<and>
    (\<forall>j. map_of (fold set_formatted ps ob) j = (if j \<in> fst ` set ps then map_of ps j else map_of ob j))"
proof (induction ps arbitrary: ob)
  case (Cons p ps)
  obtain k v where p: "p = (k, v)" by (cases p)
  have "set_formatted p ob = obj_put k v ob" using Cons.prems(2) p by (auto simp: set_formatted_def)
  moreover have get: "map_of (obj_put k v ob) j = (if j = k then Some v else map_of ob j)" for j
    using obj_get_put [of k v ob j] by (simp add: obj_get_def)
  moreover have "distinct (map fst (obj_put k v ob))" by (rule obj_put_distinct) (rule Cons.prems(3))
  from Cons.IH [OF _ _ this] Cons.prems p
  have "distinct (map fst (fold set_formatted ps (obj_put k v ob))) \<and>
      (\<forall>j. map_of (fold set_formatted ps (obj_put k v ob)) j = (if j \<in> fst ` set ps then map_of ps j else map_of (obj_put k v ob) j))"
    by simp
  moreover have "k \<notin> fst ` set ps" using Cons.prems(1) p by simp
  ultimately show ?case by (simp add: p)
qed simp

lemma read_pair_eq: "61 \<notin> set k \<Longrightarrow> read_pair (k @ 61 # s) = (decodeURIComponent k, decodeURIComponent s)"
proof -
  assume k: "61 \<notin> set k"
  then have "takeWhile (\<lambda>c. c \<noteq> 61) (k @ 61 # s) = k" "dropWhile (\<lambda>c. c \<noteq> 61) (k @ 61 # s) = 61 # s"
    by (induction k) auto
  then show ?thesis by (simp add: read_pair_def)
qed

lemma formatted_pairs_eq: "formatted_pairs (k, f) = map (\<lambda>s. k @ 61 # s) (formatted_texts f)"
  by (cases f) simp_all

text \<open>The pairs of an object whose keys stand for distinct names.\<close>

lemma read_formatted:
  assumes "\<forall>a \<in> set ob. 61 \<notin> set (fst a)" "distinct (map fst ob)"
    "\<forall>a \<in> set ob. decodeURIComponent (fst a) = Some name \<longrightarrow> fst a = k"
    "(k, f) \<in> set ob" "reads_as (k, f) name ts"
  shows "map snd (filter (\<lambda>p. fst p = Some name) (map read_pair (concat (map formatted_pairs ob)))) = map Some ts"
  using assms
proof (induction ob)
  case (Cons a ob)
  obtain k' f' where a: "a = (k', f')" by (cases a)
  have k': "61 \<notin> set k'" using Cons.prems(1) a by simp
  have pairs: "map read_pair (formatted_pairs a) = map (\<lambda>s. (decodeURIComponent k', decodeURIComponent s)) (formatted_texts f')"
    using read_pair_eq [OF k'] by (simp add: a formatted_pairs_eq)
  have other: "filter (\<lambda>p. fst p = Some name) (map read_pair (formatted_pairs b)) = []"
    if "b \<in> set (a # ob)" "fst b \<noteq> k" for b
  proof -
    have "decodeURIComponent (fst b) \<noteq> Some name" using that Cons.prems(3) by metis
    moreover have "61 \<notin> set (fst b)" using that(1) Cons.prems(1) by metis
    ultimately show ?thesis by (cases b) (auto simp: formatted_pairs_eq read_pair_eq filter_empty_conv)
  qed
  show ?case
  proof (cases "k' = k")
    case True
    then have f: "f' = f" using Cons.prems(2,4) a by (auto simp: rev_image_eqI)
    have "filter (\<lambda>p. fst p = Some name) (map read_pair (concat (map formatted_pairs ob))) = []"
    proof -
      have "\<forall>b \<in> set ob. fst b \<noteq> k" using Cons.prems(2) a True by force
      then have "\<forall>b \<in> set ob. filter (\<lambda>p. fst p = Some name) (map read_pair (formatted_pairs b)) = []"
        using other by simp
      then show ?thesis by (auto simp: filter_empty_conv)
    qed
    then show ?thesis using pairs Cons.prems(5) True f by (simp add: a reads_as_def comp_def)
  next
    case False
    then have "(k, f) \<in> set ob" using Cons.prems(4) a by auto
    note member = this
    have "\<forall>a \<in> set ob. 61 \<notin> set (fst a)" using Cons.prems(1) by simp
    moreover have "distinct (map fst ob)" using Cons.prems(2) by simp
    moreover have "\<forall>a \<in> set ob. decodeURIComponent (fst a) = Some name \<longrightarrow> fst a = k" using Cons.prems(3) by simp
    ultimately have "map snd (filter (\<lambda>p. fst p = Some name) (map read_pair (concat (map formatted_pairs ob)))) = map Some ts"
      by (rule Cons.IH [OF _ _ _ member Cons.prems(5)])
    then show ?thesis using other [of a] False a by simp
  qed
qed simp

lemma formatted_no_amp: "reads_as kf n ts \<Longrightarrow> s \<in> set (formatted_pairs kf) \<Longrightarrow> 38 \<notin> set s"
  by (cases kf) (auto simp: reads_as_def formatted_pairs_eq)

lemma query_of_pairs:
  "\<forall>s \<in> set ss. 38 \<notin> set s \<and> s \<noteq> [] \<Longrightarrow>
    query_values name (join_by [38] ss) = map snd (filter (\<lambda>p. fst p = Some name) (map read_pair ss))"
proof (cases ss)
  case (Cons a list)
  assume s: "\<forall>s \<in> set ss. 38 \<notin> set s \<and> s \<noteq> []"
  have "join_by [38] ss \<noteq> []" using s Cons by (cases list) auto
  moreover have "split_on 38 (join_with 38 ss) = ss" using s Cons by (intro split_on_join) auto
  ultimately show ?thesis by (simp add: query_values_def join_by_single)
qed (simp add: query_values_def)

lemma read_object:
  assumes fmt: "\<forall>x \<in> set query. fmt x \<in> set ob \<and> reads_as (fmt x) (fst x) (value_texts (qValue (snd x)))"
    and ob: "distinct (map fst ob)" "\<forall>kf \<in> set ob. \<exists>x \<in> set query. kf = fmt x"
    and query: "distinct (map fst query)" "(n, p) \<in> set query"
  shows "query_values n (join_by [38] (concat (map formatted_pairs ob))) = map Some (value_texts (qValue p))"
proof -
  obtain k f where kf: "fmt (n, p) = (k, f)" by (cases "fmt (n, p)")
  with fmt query(2) have in_ob: "(k, f) \<in> set ob" and rd: "reads_as (k, f) n (value_texts (qValue p))" by force+
  have key: "\<forall>a \<in> set ob. decodeURIComponent (fst a) = Some n \<longrightarrow> fst a = k"
  proof (intro ballI impI)
    fix a
    assume a: "a \<in> set ob" "decodeURIComponent (fst a) = Some n"
    from ob(2) a(1) obtain x where x: "x \<in> set query" "a = fmt x" by blast
    with fmt a(2) have "fst x = n" by (auto simp: reads_as_def)
    with x(1) query have "x = (n, p)" by (metis eq_key_imp_eq_value prod.collapse)
    with x(2) kf show "fst a = k" by simp
  qed
  have noeq: "\<forall>a \<in> set ob. 61 \<notin> set (fst a)" using fmt ob(2) by (auto simp: reads_as_def)
  have texts: "\<forall>s \<in> set (concat (map formatted_pairs ob)). 38 \<notin> set s \<and> s \<noteq> []"
  proof
    fix s
    assume "s \<in> set (concat (map formatted_pairs ob))"
    then obtain a where a: "a \<in> set ob" "s \<in> set (formatted_pairs a)" by auto
    from ob(2) a(1) obtain x where "x \<in> set query" "a = fmt x" by blast
    with fmt have "reads_as a (fst x) (value_texts (qValue (snd x)))" by blast
    from formatted_no_amp [OF this a(2)] a(2) show "38 \<notin> set s \<and> s \<noteq> []" by (cases a) (auto simp: formatted_pairs_eq)
  qed
  show ?thesis unfolding query_of_pairs [OF texts, of n] by (rule read_formatted [OF noeq ob(1) key in_ob rd])
qed



section \<open>Parameters in the path\<close>

text \<open>The characters that delimit the parts of a URL.\<close>

definition structural :: "nat \<Rightarrow> bool" where "structural c \<longleftrightarrow> c = 47 \<or> c = 63 \<or> c = 35"

lemma filter_replace:
  "filter P sep = [] \<Longrightarrow> filter P r = [] \<Longrightarrow> filter P (replace_sub sep r s) = filter P s"
proof (induction sep r s rule: replace_sub.induct)
  case (1 sep r s)
  show ?case
  proof (cases s)
    case (Cons c cs)
    show ?thesis
    proof (cases "sep \<noteq> [] \<and> take (length sep) s = sep")
      case True
      then have "filter P s = filter P sep @ filter P (drop (length sep) s)"
        by (metis append_take_drop_id filter_append)
      then show ?thesis using True 1 Cons by (subst replace_sub.simps) simp
    next
      case False
      then show ?thesis using 1 Cons by (subst replace_sub.simps) auto
    qed
  qed (simp add: replace_sub.simps)
qed

lemma encoded_not_structural: "filter structural (encodeDisallowedCharacters Reserved p) = []"
  using encoded_without [of 47 p] encoded_without [of 63 p] encoded_without [of 35 p]
  by (auto simp: filter_empty_conv structural_def)

lemma join_by_not_structural:
  "filter structural d = [] \<Longrightarrow> \<forall>p \<in> set ps. filter structural p = [] \<Longrightarrow> filter structural (join_by d ps) = []"
  by (induction d ps rule: join_by.induct) auto

lemma foldl_not_structural:
  "filter structural acc = [] \<Longrightarrow> (\<And>acc x. x \<in> set xs \<Longrightarrow> filter structural acc = [] \<Longrightarrow> filter structural (f acc x) = []) \<Longrightarrow>
    filter structural (foldl f acc xs) = []"
  by (induction xs arbitrary: acc) auto

lemma delimiters_not_structural [simp]: "\<not> structural 44" "\<not> structural 46" "\<not> structural 59" "\<not> structural 61"
  "\<not> structural 38" "\<not> structural 32" "\<not> structural 124" "\<not> structural 123" "\<not> structural 125"
  by (simp_all add: structural_def)

fun property_names :: "pvalue \<Rightarrow> jsstr list" where
  "property_names (Props ps) = map fst ps" | "property_names _ = []"

lemma array_not_structural:
  "filter structural key = [] \<Longrightarrow> stylize_array key st explode Reserved vs = Some s \<Longrightarrow> filter structural s = []"
proof (cases st)
  case Matrix
  assume key: "filter structural key = []" and s: "stylize_array key st explode Reserved vs = Some s"
  let ?f = "\<lambda>prev curr. if prev = [] \<or> explode then prev @ 59 # key @ 61 # curr else prev @ 44 # curr"
  have "filter structural (foldl ?f [] (map (encodeDisallowedCharacters Reserved) vs)) = []"
    by (rule foldl_not_structural) (use key encoded_not_structural in auto)
  then show ?thesis using s Matrix by (auto simp: stylize_array_def Let_def)
qed (auto simp: stylize_array_def Let_def encoded_not_structural intro!: join_by_not_structural)

lemma object_not_structural:
  assumes "filter structural key = []" "\<forall>k \<in> set (map fst ps). filter structural k = []"
    "stylize_object key st explode Reserved ps = Some s"
  shows "filter structural s = []"
proof -
  let ?r = "\<lambda>f. foldl (\<lambda>acc (k, v). f acc k (encodeDisallowedCharacters Reserved v)) [] ps"
  have "filter structural (?r f) = []"
    if f: "\<And>acc k v. filter structural acc = [] \<Longrightarrow> filter structural k = [] \<Longrightarrow> filter structural v = [] \<Longrightarrow> filter structural (f acc k v) = []" for f
    by (rule foldl_not_structural) (use f assms(2) encoded_not_structural in auto)
  note fold = this
  show ?thesis
    using assms(1,3) by (cases st) (auto simp: stylize_object_def Let_def or_else_def split: if_splits intro!: fold)
qed

lemma stylize_not_structural:
  assumes "filter structural key = []" "\<forall>k \<in> set (property_names value). filter structural k = []"
    "stylize key st explode Reserved value = Some s"
  shows "filter structural s = []"
proof (cases "value")
  case (Prim v)
  then show ?thesis using assms(1,3) encoded_not_structural
    by (cases st) (auto simp: stylize_def stylize_prim_def Let_def)
next
  case Undefined
  have "filter structural (js ''undefined'') = []" by (simp add: js_def structural_def)
  then show ?thesis using assms(1,3) Undefined
    by (cases st) (auto simp: stylize_def stylize_prim_def encodeDisallowedCharacters_def Let_def split: if_splits)
next
  case (Items vs)
  show ?thesis by (rule array_not_structural [OF assms(1)]) (use assms(3) Items in \<open>simp add: stylize_def\<close>)
next
  case (Props ps)
  show ?thesis by (rule object_not_structural [OF assms(1)]) (use assms(2,3) Props in \<open>simp_all add: stylize_def\<close>)
qed

fun source_names :: "source \<Rightarrow> jsstr list" where
  "source_names (Content t) = []" | "source_names (Schema st ex value) = property_names value"

text \<open>
  C37: a parameter of the path cannot change the structure of the URL: whatever its value, in every
  style, the slashes, question marks and number signs of the result are those of the template. The
  names of the properties of an object are written without escapes, and must not have them.
\<close>

theorem path_parameter_keeps_structure:
  assumes "filter structural name = []" "\<forall>k \<in> set (source_names src). filter structural k = []"
  shows "filter structural (pathParameter name src url) = filter structural url"
proof -
  have sep: "filter structural (placeholder name) = []" using assms(1) by (simp add: placeholder_def)
  show ?thesis
  proof (cases src)
    case (Content t)
    then show ?thesis by (simp add: pathParameter_def filter_replace [OF sep] encoded_not_structural)
  next
    case (Schema st ex v)
    let ?s = "stylize name (case st of None \<Rightarrow> Simple | Some s \<Rightarrow> s) (ex = Some True) Reserved v"
    have "filter structural (case ?s of None \<Rightarrow> [44] | Some s \<Rightarrow> s) = []"
      using stylize_not_structural [OF assms(1), of v] assms(2) Schema by (auto split: option.split)
    then show ?thesis using Schema by (simp add: pathParameter_def filter_replace [OF sep])
  qed
qed

theorem path_parameter_keeps_structure_witness:
  "filter structural (pathParameter (js ''id'') (Schema None None (Prim (Text (js ''../x?y'')))) (js ''/a/{id}/b'')) = [47, 47, 47]"
proof -
  have h: "filter structural (js ''id'') = []" "\<forall>k \<in> set (source_names (Schema None None (Prim (Text (js ''../x?y''))))). filter structural k = []"
    by (simp_all add: js_def structural_def)
  show ?thesis using path_parameter_keeps_structure [OF h, of "js ''/a/{id}/b''"] by (simp add: js_def structural_def)
qed

text \<open>Without the condition on property names: an object with a slash in a name adds a segment.\<close>

lemma property_name_adds_segment:
  "pathParameter (js ''id'') (Schema None None (Props [(js ''a/b'', Number (js ''1''))])) (js ''/x/{id}'') = js ''/x/a/b,1''"
  by (simp add: pathParameter_def stylize_def stylize_object_def or_else_def placeholder_def js_def replace_sub.simps
      encodeDisallowedCharacters_def escape_char_def isRfc3986Unreserved_def)

end
