(* ===== verification/Ui_Curl.thy ===== *)
theory Ui_Curl
  imports Ui_Objects Ui_Sanitize
begin

text \<open>
  The command lines that the page offers for a request, as they are in
  \<open>swagger-ui-es-bundle-core.js\<close>: \<open>extractKey\<close> (\<open>_\<close> in the module of \<open>requestSnippetGenerator_curl_bash\<close>
  on the one line of code of the file), the three functions that escape a word (\<open>A\<close> for bash, \<open>k\<close> for
  cmd, \<open>I\<close> for PowerShell), \<open>getStringBodyOfMap\<close> (\<open>P\<close>) and \<open>curlify\<close> (\<open>T\<close>) with its three instances
  (\<open>N\<close>, \<open>M\<close>, \<open>R\<close>). How a shell reads a line is written here, for bash.
\<close>

section \<open>Requests\<close>

text \<open>
  A part of a form is a file with its name and type, or a value, here as the texts it is
  concatenated and printed as JSON to. A body that is neither form, file nor text is its JSON text.
\<close>

datatype part = File_part jsstr jsstr | Value_part jsstr jsstr

datatype body = No_body | Form_body "(jsstr \<times> part) list" | File_body jsstr | Text_body jsstr | Json_body jsstr

record request =
  rqOptions :: "jsstr list option"
  rqMethod :: jsstr
  rqUrl :: jsstr
  rqHeaders :: "(jsstr \<times> jsstr) list"
  rqBody :: body

section \<open>Words\<close>

fun before_sub :: "jsstr \<Rightarrow> jsstr \<Rightarrow> jsstr option" where
  "before_sub sep [] = None"
| "before_sub sep (c # cs) =
     (if take (length sep) (c # cs) = sep then Some [] else map_option ((#) c) (before_sub sep cs))"

definition extractKey :: "jsstr \<Rightarrow> jsstr" where
  "extractKey k = (case before_sub (js ''_**[]'') k of None \<Rightarrow> k | Some p \<Rightarrow> trim p)"

text \<open>\<open>/^[_\/-]/\<close>, and the word with which the code adds the data.\<close>

definition bare :: "jsstr \<Rightarrow> bool" where
  "bare s \<longleftrightarrow> (case s of [] \<Rightarrow> False | c # _ \<Rightarrow> c \<in> {95, 47, 45})"

definition data_word :: jsstr where "data_word = js ''-d ''"

definition escapeShell :: "jsstr \<Rightarrow> jsstr" where
  "escapeShell str = (if str = data_word \<or> bare str then str else 39 # replace_all 39 [39, 92, 39, 39] str @ [39])"

fun replace_two :: "nat \<Rightarrow> nat \<Rightarrow> jsstr \<Rightarrow> jsstr \<Rightarrow> jsstr" where
  "replace_two a b r (c # d # s) = (if c = a \<and> d = b then r @ replace_two a b r s else c # replace_two a b r (d # s))"
| "replace_two a b r s = s"

definition escapeCMD :: "jsstr \<Rightarrow> jsstr" where
  "escapeCMD str =
     (let s = replace_all 10 [94, 10] (replace_all 34 [34, 34] (replace_two 92 34 [92, 92, 34] (replace_all 94 [94, 94] str))) in
      if s = data_word then js ''-d ^'' @ [10] else if bare s then s else 34 # s @ [34])"

text \<open>The first dollar only: the expression has no flag \<open>g\<close>.\<close>

fun replace_first :: "nat \<Rightarrow> jsstr \<Rightarrow> jsstr \<Rightarrow> jsstr" where
  "replace_first d r [] = []"
| "replace_first d r (c # s) = (if c = d then r @ s else c # replace_first d r s)"

definition escapePowershell :: "jsstr \<Rightarrow> jsstr" where
  "escapePowershell str =
     (if str = data_word then str
      else if 10 \<in> set str
      then [64, 34, 10] @ replace_first 36 [96, 36] (replace_all 96 [96, 96] (replace_all 34 [92, 34] str)) @ [10, 34, 64]
      else if bare str then str
      else 39 # replace_all 39 [39, 39] (replace_all 34 [34, 34] str) @ [39])"

section \<open>The command\<close>

fun join_text :: "jsstr \<Rightarrow> jsstr list \<Rightarrow> jsstr" where
  "join_text d [] = []"
| "join_text d [p] = p"
| "join_text d (p # q # ps) = p @ d @ join_text d (q # ps)"

text \<open>Line ends are written as one and indented.\<close>

fun indent_lines :: "jsstr \<Rightarrow> jsstr" where
  "indent_lines (c # s) =
     (if c = 13 then (case s of d # t \<Rightarrow> if d = 10 then 10 # 32 # 32 # indent_lines t else 10 # 32 # 32 # indent_lines s
          | [] \<Rightarrow> [10, 32, 32])
      else if c = 10 then 10 # 32 # 32 # indent_lines s else c # indent_lines s)"
| "indent_lines [] = []"

fun form_entry :: "jsstr \<times> part \<Rightarrow> jsstr" where
  "form_entry (k, File_part name ty) =
     js ''  '' @ 34 # extractKey k @ 34 # js '': {'' @ 10 # js ''    '' @ 34 # js ''name'' @ 34 # js '': '' @ 34 # name @ [34] @
     (if ty = [] then [] else 44 # 10 # js ''    '' @ 34 # js ''type'' @ 34 # js '': '' @ 34 # ty @ [34]) @ 10 # js ''  }''"
| "form_entry (k, Value_part shown json) = js ''  '' @ 34 # extractKey k @ 34 # js '': '' @ indent_lines json"

definition getStringBodyOfMap :: "(jsstr \<times> part) list \<Rightarrow> jsstr" where
  "getStringBodyOfMap parts = 123 # 10 # join_text [44, 10] (map form_entry parts) @ [10, 125]"

fun form_word :: "jsstr \<times> part \<Rightarrow> jsstr" where
  "form_word (k, File_part name ty) = extractKey k @ 61 # 64 # name @ (if ty = [] then [] else js '';type='' @ ty)"
| "form_word (k, Value_part shown json) = extractKey k @ 61 # shown"

definition is_multipart :: "jsstr \<times> jsstr \<Rightarrow> bool" where
  "is_multipart h \<longleftrightarrow> map lower (fst h) = js ''content-type'' \<and> map lower (snd h) = js ''multipart/form-data''"

definition has_body :: "body \<Rightarrow> bool" where
  "has_body b \<longleftrightarrow> b \<noteq> No_body \<and> b \<noteq> Text_body []"

text \<open>
  \<open>curlify\<close>. A word starts on a new line after a space, the line continuation and two spaces.
  \<open>None\<close> is the type error of a multipart body that is not a form.
\<close>

definition curlify :: "(jsstr \<Rightarrow> jsstr) \<Rightarrow> jsstr \<Rightarrow> jsstr \<Rightarrow> request \<Rightarrow> jsstr option" where
  "curlify escape newLine ext r =
     (let addWords = (\<lambda>ws. concat (map (\<lambda>w. 32 # escape w) ws));
          line = 32 # newLine @ [32, 32];
          isMultipart = list_ex is_multipart (rqHeaders r);
          options = (case rqOptions r of None \<Rightarrow> [] | Some ws \<Rightarrow> 32 # join_text [32] (map escape ws));
          start = js ''curl'' @ ext @ options @ addWords [js ''-X'', rqMethod r] @ line @ escape (rqUrl r) @
            concat (map (\<lambda>(k, v). line @ escape (js ''-H'') @ 32 # escape (k @ js '': '' @ v)) (rqHeaders r)) in
      if has_body (rqBody r) then
        (if isMultipart \<and> rqMethod r \<in> {js ''POST'', js ''PUT'', js ''PATCH''} then
          (case rqBody r of
             Form_body parts \<Rightarrow> Some (start @ concat (map (\<lambda>p. line @ escape (js ''-F'') @ 32 # escape (form_word p)) parts))
           | _ \<Rightarrow> None)
         else
          (case rqBody r of
             File_body name \<Rightarrow> Some (start @ line @ escape (js ''--data-binary '' @ 39 # 64 # name @ [39]))
           | Form_body parts \<Rightarrow> Some (start @ line @ escape data_word @ escape (getStringBodyOfMap parts))
           | Text_body t \<Rightarrow> Some (start @ line @ escape data_word @ escape t)
           | Json_body t \<Rightarrow> Some (start @ line @ escape data_word @ escape t)
           | No_body \<Rightarrow> Some start))
      else if rqMethod r = js ''POST'' then Some (start @ line @ escape (js ''-d '' @ [39, 39]))
      else Some start)"

definition requestSnippetGenerator_curl_bash :: "request \<Rightarrow> jsstr option" where
  "requestSnippetGenerator_curl_bash = curlify escapeShell [92, 10] []"

definition requestSnippetGenerator_curl_cmd :: "request \<Rightarrow> jsstr option" where
  "requestSnippetGenerator_curl_cmd = curlify escapeCMD [94, 10] []"

definition requestSnippetGenerator_curl_powershell :: "request \<Rightarrow> jsstr option" where
  "requestSnippetGenerator_curl_powershell = curlify escapePowershell [96, 10] (js ''.exe'')"

section \<open>How bash reads a line\<close>

text \<open>
  The words of a simple command: single quotes, the backslash with the continued line, spaces, and
  the characters without a meaning of their own outside quotes. Any other character outside quotes
  (a line end, a semicolon, a dollar, ...) is more than a word: \<open>None\<close>.
\<close>

definition ordinary :: "nat \<Rightarrow> bool" where
  "ordinary c \<longleftrightarrow> word_char c \<or> c \<in> set (js ''-./:,+@%=^'')"

definition extend :: "jsstr option \<Rightarrow> jsstr \<Rightarrow> jsstr option" where
  "extend w s = Some (case w of None \<Rightarrow> s | Some u \<Rightarrow> u @ s)"

fun bash :: "bool \<Rightarrow> jsstr option \<Rightarrow> jsstr \<Rightarrow> jsstr list option" where
  "bash quoted w [] = (if quoted then None else Some (case w of None \<Rightarrow> [] | Some u \<Rightarrow> [u]))"
| "bash True w (c # cs) = (if c = 39 then bash False w cs else bash True (extend w [c]) cs)"
| "bash False w (c # cs) =
     (if c = 39 then bash True (extend w []) cs
      else if c = 92 then (case cs of [] \<Rightarrow> None | d # ds \<Rightarrow> if d = 10 then bash False w ds else bash False (extend w [d]) ds)
      else if c = 32 then map_option (\<lambda>ws. (case w of None \<Rightarrow> ws | Some u \<Rightarrow> u # ws)) (bash False None cs)
      else if ordinary c then bash False (extend w [c]) cs else None)"

definition bash_words :: "jsstr \<Rightarrow> jsstr list option" where
  "bash_words s = bash False None s"

section \<open>Escaped words are read back\<close>

text \<open>A word that is quoted, or that needs no quotes.\<close>

definition word_ok :: "jsstr \<Rightarrow> bool" where
  "word_ok w \<longleftrightarrow> w \<noteq> data_word \<and> (\<not> bare w \<or> list_all ordinary w)"

lemma replace_all_Cons: "replace_all d r (c # s) = (if c = d then r else [c]) @ replace_all d r s"
  by (simp add: replace_all_def)

lemma extend_Some [simp]: "extend (Some u) s = Some (u @ s)"
  by (simp add: extend_def)

lemma read_quoted: "bash True (Some u) (replace_all 39 [39, 92, 39, 39] w @ 39 # s) = bash False (Some (u @ w)) s"
proof (induction w arbitrary: u)
  case Nil
  then show ?case by (simp add: replace_all_def)
next
  case (Cons c w)
  then show ?case by (simp add: replace_all_Cons)
qed

lemma ordinary_plain: "ordinary c \<Longrightarrow> c \<noteq> 39 \<and> c \<noteq> 92 \<and> c \<noteq> 32"
  by (auto simp: ordinary_def word_char_def js_def)

lemma read_ordinary: "list_all ordinary w \<Longrightarrow> bash False (Some u) (w @ s) = bash False (Some (u @ w)) s"
  by (induction w arbitrary: u) (use ordinary_plain in auto)

lemma read_escaped: "word_ok w \<Longrightarrow> bash False None (escapeShell w @ s) = bash False (Some w) s"
proof (cases "bare w")
  case True
  assume "word_ok w"
  with True have w: "list_all ordinary w" "escapeShell w = w" by (auto simp: word_ok_def escapeShell_def)
  from True obtain c u where c: "w = c # u" by (cases w) (auto simp: bare_def)
  with w have "ordinary c" "list_all ordinary u" by auto
  then show ?thesis using w(2) c ordinary_plain [of c] read_ordinary [of u "[c]" s] by (simp add: extend_def)
next
  case False
  assume "word_ok w"
  with False have "escapeShell w = 39 # replace_all 39 [39, 92, 39, 39] w @ [39]" by (auto simp: word_ok_def escapeShell_def)
  then show ?thesis using read_quoted [of "[]" w s] by (simp add: extend_def)
qed

text \<open>Words after each other: after a space, or on a new line of the command.\<close>

definition new_line :: jsstr where "new_line = [32, 92, 10, 32, 32]"

definition cons_word :: "jsstr \<Rightarrow> jsstr list option \<Rightarrow> jsstr list option" where
  "cons_word w = map_option ((#) w)"

lemma read_space [simp]: "bash False (Some w) (32 # s) = cons_word w (bash False None s)"
  by (simp add: cons_word_def)

lemma read_none_space [simp]: "bash False None (32 # s) = bash False None s"
  by (simp add: option.map_ident)

lemma read_new_line: "bash False (Some w) (new_line @ s) = cons_word w (bash False None s)"
  by (simp add: new_line_def cons_word_def option.map_ident del: read_space)

declare bash.simps [simp del]

lemma read_end [simp]: "bash False (Some w) [] = Some [w]"
  by (simp add: bash.simps)

text \<open>A text that follows a word and reads as the words \<open>ws\<close>.\<close>

definition reads_words :: "jsstr list \<Rightarrow> jsstr \<Rightarrow> bool" where
  "reads_words ws s \<longleftrightarrow> (\<forall>w rest. bash False (Some w) (s @ rest) =
     (case rev ws of [] \<Rightarrow> bash False (Some w) rest
      | l # is \<Rightarrow> foldr cons_word (w # rev is) (bash False (Some l) rest)))"

lemma reads_Nil: "reads_words [] []"
  by (simp add: reads_words_def)

lemma reads_append: "reads_words ws s \<Longrightarrow> reads_words vs t \<Longrightarrow> reads_words (ws @ vs) (s @ t)"
proof (cases "rev vs"; cases "rev ws")
  fix l "is" l' is'
  assume a: "reads_words ws s" "reads_words vs t" "rev vs = l # is" "rev ws = l' # is'"
  then show ?thesis unfolding reads_words_def by simp
qed (auto simp: reads_words_def)

lemma reads_spaced: "word_ok v \<Longrightarrow> reads_words [v] (32 # escapeShell v)"
  by (simp add: reads_words_def read_escaped)

lemma reads_lined: "word_ok v \<Longrightarrow> reads_words [v] (new_line @ escapeShell v)"
  by (simp add: reads_words_def read_new_line read_escaped)

lemma reads_concat: "\<forall>x \<in> set xs. reads_words (f x) (g x) \<Longrightarrow> reads_words (concat (map f xs)) (concat (map g xs))"
  by (induction xs) (auto intro: reads_Nil reads_append)

text \<open>The end of the line, where the last word ends.\<close>

lemma reads_until:
  assumes "reads_words ws s" "\<And>l. bash False (Some l) rest = Some [l]"
  shows "bash False (Some w) (s @ rest) = Some (w # ws)"
proof -
  have fold: "foldr cons_word us (Some vs) = Some (us @ vs)" for us vs
    by (induction us) (simp_all add: cons_word_def)
  have r: "bash False (Some w) (s @ rest) = (case rev ws of [] \<Rightarrow> bash False (Some w) rest
      | l # is \<Rightarrow> foldr cons_word (w # rev is) (bash False (Some l) rest))"
    using assms(1) unfolding reads_words_def by simp
  show ?thesis
  proof (cases "rev ws")
    case (Cons l "is")
    then have "ws = rev is @ [l]" by simp
    then show ?thesis using r Cons assms(2) fold [of "w # rev is" "[l]"] by simp
  qed (use r assms(2) in simp)
qed

lemma reads_all: "reads_words ws s \<Longrightarrow> bash False (Some w) s = Some (w # ws)"
  using reads_until [of ws s "[]"] by simp

lemma read_ends: "reads_words ws s \<Longrightarrow> bash False (Some w) (s @ [32]) = Some (w # ws)"
  by (rule reads_until) (simp_all add: cons_word_def bash.simps)

section \<open>The words of a request\<close>

definition body_words :: "request \<Rightarrow> jsstr list" where
  "body_words r =
     (case rqBody r of
        No_body \<Rightarrow> if rqMethod r = js ''POST'' then [js ''-d'', []] else []
      | Form_body parts \<Rightarrow>
          if list_ex is_multipart (rqHeaders r) \<and> rqMethod r \<in> {js ''POST'', js ''PUT'', js ''PATCH''}
          then concat (map (\<lambda>p. [js ''-F'', form_word p]) parts)
          else [js ''-d'', getStringBodyOfMap parts]
      | Text_body t \<Rightarrow> if t = [] then (if rqMethod r = js ''POST'' then [js ''-d'', []] else []) else [js ''-d'', t]
      | Json_body t \<Rightarrow> [js ''-d'', t]
      | File_body name \<Rightarrow> [js ''--data-binary'', 64 # name])"

definition arguments :: "request \<Rightarrow> jsstr list" where
  "arguments r = (case rqOptions r of None \<Rightarrow> [] | Some ws \<Rightarrow> ws) @ [js ''-X'', rqMethod r, rqUrl r] @
     concat (map (\<lambda>(k, v). [js ''-H'', k @ js '': '' @ v]) (rqHeaders r)) @ body_words r"

text \<open>A multipart request has a form as its body, and the name of a file has no quote.\<close>

definition body_fits :: "request \<Rightarrow> bool" where
  "body_fits r \<longleftrightarrow> (case rqBody r of
       File_body name \<Rightarrow> 39 \<notin> set name \<and> \<not> (list_ex is_multipart (rqHeaders r) \<and> rqMethod r \<in> {js ''POST'', js ''PUT'', js ''PATCH''})
     | Text_body t \<Rightarrow> t = [] \<or> \<not> (list_ex is_multipart (rqHeaders r) \<and> rqMethod r \<in> {js ''POST'', js ''PUT'', js ''PATCH''})
     | Json_body t \<Rightarrow> \<not> (list_ex is_multipart (rqHeaders r) \<and> rqMethod r \<in> {js ''POST'', js ''PUT'', js ''PATCH''})
     | _ \<Rightarrow> True)"

lemma flag_words: "word_ok (js ''-X'')" "word_ok (js ''-H'')" "word_ok (js ''-F'')" "word_ok (js ''-d'')"
  by (simp_all add: word_ok_def js_def data_word_def ordinary_def word_char_def)

text \<open>The data follow the word \<open>-d\<close> and its space.\<close>

lemma escape_data_word: "escapeShell data_word = js ''-d'' @ [32]"
  by (simp add: escapeShell_def data_word_def js_def)

lemma reads_data: "word_ok t \<Longrightarrow> reads_words [js ''-d'', t] (new_line @ escapeShell data_word @ escapeShell t)"
proof -
  assume t: "word_ok t"
  have "reads_words [js ''-d''] (new_line @ escapeShell (js ''-d''))" by (rule reads_lined) (rule flag_words)
  moreover have "escapeShell (js ''-d'') = js ''-d''" by (simp add: escapeShell_def js_def data_word_def bare_def)
  ultimately show ?thesis
    using reads_append [OF _ reads_spaced [OF t], of "[js ''-d'']" "new_line @ js ''-d''"] by (simp add: escape_data_word)
qed

lemma reads_options: "\<forall>w \<in> set ws. word_ok w \<Longrightarrow> reads_words ws (32 # join_text [32] (map escapeShell ws)) \<or> ws = []"
proof (induction ws)
  case (Cons w ws)
  then show ?case
  proof (cases ws)
    case Nil
    then show ?thesis using Cons.prems reads_spaced [of w] by simp
  next
    case (Cons v vs)
    with Cons.IH Cons.prems have "reads_words ws (32 # join_text [32] (map escapeShell ws))" by auto
    moreover have "reads_words [w] (32 # escapeShell w)" by (rule reads_spaced) (simp add: Cons.prems)
    ultimately show ?thesis using reads_append [of "[w]" "32 # escapeShell w" ws] Cons by simp
  qed
qed simp

lemma read_quoted_plain: "39 \<notin> set u \<Longrightarrow> bash False None (39 # u @ 39 # s) = bash False (Some u) s"
proof -
  assume u: "39 \<notin> set u"
  then have "replace_all 39 [39, 92, 39, 39] u = u" by (induction u) (auto simp: replace_all_def)
  then show ?thesis using read_quoted [of "[]" u s] by (simp add: bash.simps(3) extend_def)
qed

lemma escape_flag: "bare w \<Longrightarrow> escapeShell w = w"
  by (simp add: escapeShell_def)

lemma reads_flag_quoted:
  assumes "word_ok f" "bare f" "39 \<notin> set u"
  shows "reads_words [f, u] (new_line @ escapeShell (f @ 32 # 39 # u @ [39]))"
proof -
  have "escapeShell (f @ 32 # 39 # u @ [39]) = f @ 32 # 39 # u @ [39]"
    by (rule escape_flag) (use assms(2) in \<open>cases f; simp add: bare_def\<close>)
  moreover have "bash False None (f @ s) = bash False (Some f) s" for s
    using read_escaped [OF assms(1)] escape_flag [OF assms(2)] by simp
  ultimately show ?thesis
    using read_quoted_plain [OF assms(3)] by (simp add: reads_words_def read_new_line)
qed

definition words_ok :: "request \<Rightarrow> bool" where
  "words_ok r \<longleftrightarrow> (\<forall>ws w. rqOptions r = Some ws \<longrightarrow> ws \<noteq> [] \<and> (w \<in> set ws \<longrightarrow> word_ok w)) \<and>
     word_ok (rqMethod r) \<and> word_ok (rqUrl r) \<and> (\<forall>(k, v) \<in> set (rqHeaders r). word_ok (k @ js '': '' @ v)) \<and>
     (case rqBody r of Form_body parts \<Rightarrow> (\<forall>p \<in> set parts. word_ok (form_word p))
      | Text_body t \<Rightarrow> word_ok t | Json_body t \<Rightarrow> word_ok t | _ \<Rightarrow> True)"

lemma form_body_ok: "word_ok (getStringBodyOfMap parts)"
  by (simp add: word_ok_def getStringBodyOfMap_def bare_def data_word_def js_def)

lemma file_words: "word_ok (js ''--data-binary'')" "bare (js ''--data-binary'')" "word_ok (js ''-d'')" "bare (js ''-d'')"
  by (simp_all add: word_ok_def js_def data_word_def ordinary_def word_char_def bare_def)

text \<open>The command up to the body, and the text of the body.\<close>

definition head_text :: "request \<Rightarrow> jsstr" where
  "head_text r = (case rqOptions r of None \<Rightarrow> [] | Some ws \<Rightarrow> 32 # join_text [32] (map escapeShell ws)) @
     (32 # escapeShell (js ''-X'')) @ (32 # escapeShell (rqMethod r)) @ (new_line @ escapeShell (rqUrl r)) @
     concat (map (\<lambda>(k, v). (new_line @ escapeShell (js ''-H'')) @ 32 # escapeShell (k @ js '': '' @ v)) (rqHeaders r))"

definition head_words :: "request \<Rightarrow> jsstr list" where
  "head_words r = (case rqOptions r of None \<Rightarrow> [] | Some ws \<Rightarrow> ws) @ [js ''-X''] @ [rqMethod r] @ [rqUrl r] @
     concat (map (\<lambda>(k, v). [js ''-H''] @ [k @ js '': '' @ v]) (rqHeaders r))"

lemma reads_head: "words_ok r \<Longrightarrow> reads_words (head_words r) (head_text r)"
  unfolding head_words_def head_text_def
proof (intro reads_append reads_spaced reads_lined reads_concat)
  assume ok: "words_ok r"
  show "reads_words (case rqOptions r of None \<Rightarrow> [] | Some ws \<Rightarrow> ws)
      (case rqOptions r of None \<Rightarrow> [] | Some ws \<Rightarrow> 32 # join_text [32] (map escapeShell ws))"
    using ok reads_options by (cases "rqOptions r") (auto simp: words_ok_def reads_Nil)
  show "\<forall>x \<in> set (rqHeaders r). reads_words (case x of (k, v) \<Rightarrow> [js ''-H''] @ [k @ js '': '' @ v])
      (case x of (k, v) \<Rightarrow> (new_line @ escapeShell (js ''-H'')) @ 32 # escapeShell (k @ js '': '' @ v))"
  proof
    fix x
    assume x: "x \<in> set (rqHeaders r)"
    obtain k v where kv: "x = (k, v)" by (cases x)
    with ok x have "word_ok (k @ js '': '' @ v)" by (auto simp: words_ok_def)
    from reads_append [OF reads_lined [OF flag_words(2)] reads_spaced [OF this]] kv
    show "reads_words (case x of (k, v) \<Rightarrow> [js ''-H''] @ [k @ js '': '' @ v])
        (case x of (k, v) \<Rightarrow> (new_line @ escapeShell (js ''-H'')) @ 32 # escapeShell (k @ js '': '' @ v))" by simp
  qed
qed (use flag_words in \<open>auto simp: words_ok_def\<close>)

lemma bash_head: "words_ok r \<Longrightarrow> reads_words ws s \<Longrightarrow> bash_words (js ''curl'' @ head_text r @ s) = Some (js ''curl'' # head_words r @ ws)"
proof -
  assume r: "words_ok r" "reads_words ws s"
  have "bash False None (js ''curl'' @ u) = bash False (Some (js ''curl'')) u" for u
    using read_escaped [of "js ''curl''" u] read_ordinary [of "js ''url''" "js ''c''" u]
    by (simp add: js_def bash.simps(3) ordinary_def word_char_def extend_def)
  then show ?thesis using reads_all [OF reads_append [OF reads_head [OF r(1)] r(2)]] by (simp add: bash_words_def)
qed

lemma curl_head:
  "requestSnippetGenerator_curl_bash r = map_option (\<lambda>s. js ''curl'' @ head_text r @ s)
     (if has_body (rqBody r) then
        (if list_ex is_multipart (rqHeaders r) \<and> rqMethod r \<in> {js ''POST'', js ''PUT'', js ''PATCH''} then
          (case rqBody r of
             Form_body parts \<Rightarrow> Some (concat (map (\<lambda>p. (new_line @ escapeShell (js ''-F'')) @ 32 # escapeShell (form_word p)) parts))
           | _ \<Rightarrow> None)
         else
          (case rqBody r of
             File_body name \<Rightarrow> Some (new_line @ escapeShell (js ''--data-binary'' @ 32 # 39 # (64 # name) @ [39]))
           | Form_body parts \<Rightarrow> Some (new_line @ escapeShell data_word @ escapeShell (getStringBodyOfMap parts))
           | Text_body t \<Rightarrow> Some (new_line @ escapeShell data_word @ escapeShell t)
           | Json_body t \<Rightarrow> Some (new_line @ escapeShell data_word @ escapeShell t)
           | No_body \<Rightarrow> Some []))
      else if rqMethod r = js ''POST'' then Some (new_line @ escapeShell (js ''-d'' @ 32 # 39 # [] @ [39]))
      else Some [])"
proof -
  have line: "32 # [92, 10] @ [32, 32] = new_line" by (simp add: new_line_def)
  have flags: "js ''--data-binary '' = js ''--data-binary'' @ [32]" "js ''-d '' = js ''-d'' @ [32]" by (simp_all add: js_def)
  show ?thesis
    unfolding requestSnippetGenerator_curl_bash_def curlify_def Let_def line head_text_def flags
    by (auto simp: option.map_comp split_def split: body.splits)
qed

lemma curl_finish:
  assumes "words_ok r" "requestSnippetGenerator_curl_bash r = Some (js ''curl'' @ head_text r @ t)" "reads_words (body_words r) t"
  shows "\<exists>s. requestSnippetGenerator_curl_bash r = Some s \<and> bash_words s = Some (js ''curl'' # arguments r)"
proof -
  have "arguments r = head_words r @ body_words r" by (simp add: arguments_def head_words_def)
  with bash_head [OF assms(1,3)] assms(2) show ?thesis by simp
qed

lemma curl_no_body:
  assumes "words_ok r" "\<not> has_body (rqBody r)"
  shows "\<exists>s. requestSnippetGenerator_curl_bash r = Some s \<and> bash_words s = Some (js ''curl'' # arguments r)"
proof (cases "rqMethod r = js ''POST''")
  case True
  show ?thesis
    by (rule curl_finish [OF assms(1), of "new_line @ escapeShell (js ''-d'' @ 32 # 39 # [] @ [39])"])
      (use assms(2) True reads_flag_quoted [OF file_words(3,4), of "[]"] in
        \<open>auto simp: curl_head has_body_def body_words_def\<close>)
next
  case False
  show ?thesis
    by (rule curl_finish [OF assms(1), of "[]"])
      (use assms(2) False in \<open>auto simp: curl_head has_body_def body_words_def reads_Nil\<close>)
qed

text \<open>
  C26: the bash command of a request is the request: bash reads it as the command \<open>curl\<close> with
  exactly the options, method, URL, headers and body of the request as its arguments, whatever
  quotes, line ends or other special characters they contain. The condition \<open>word_ok\<close> excludes the
  words that start with a slash, an underscore or a dash and have other characters than those
  without a meaning.
\<close>

theorem curl_bash_is_read_back:
  assumes "words_ok r" "body_fits r"
  shows "\<exists>s. requestSnippetGenerator_curl_bash r = Some s \<and> bash_words s = Some (js ''curl'' # arguments r)"
proof -
  note finish = curl_finish [OF assms(1)] and nobody = curl_no_body [OF assms(1)]
  have form: "reads_words (concat (map (\<lambda>p. [js ''-F''] @ [form_word p]) parts))
      (concat (map (\<lambda>p. (new_line @ escapeShell (js ''-F'')) @ 32 # escapeShell (form_word p)) parts))"
    if "\<forall>p \<in> set parts. word_ok (form_word p)" for parts
    by (intro reads_concat ballI reads_append reads_lined reads_spaced flag_words) (use that in blast)
  let ?data = "\<lambda>t. new_line @ escapeShell data_word @ escapeShell t"
  show ?thesis
  proof (cases "rqBody r")
    case (Form_body parts)
    show ?thesis
    proof (cases "list_ex is_multipart (rqHeaders r) \<and> rqMethod r \<in> {js ''POST'', js ''PUT'', js ''PATCH''}")
      case True
      show ?thesis
        by (rule finish [of "concat (map (\<lambda>p. (new_line @ escapeShell (js ''-F'')) @ 32 # escapeShell (form_word p)) parts)"])
          (use True Form_body assms(1) form [of parts] in \<open>simp_all add: curl_head has_body_def body_words_def words_ok_def\<close>)
    next
      case False
      show ?thesis
        by (rule finish [of "?data (getStringBodyOfMap parts)"])
          (use False Form_body reads_data [OF form_body_ok [of parts]] in \<open>auto simp: curl_head has_body_def body_words_def\<close>)
    qed
  next
    case (File_body name)
    show ?thesis
      by (rule finish [of "new_line @ escapeShell (js ''--data-binary'' @ 32 # 39 # (64 # name) @ [39])"])
        (use File_body assms(2) reads_flag_quoted [OF file_words(1,2), of "64 # name"] in
          \<open>auto simp: curl_head has_body_def body_words_def body_fits_def\<close>)
  next
    case (Text_body t)
    show ?thesis
    proof (cases "t = []")
      case False
      show ?thesis
        by (rule finish [of "?data t"])
          (use False Text_body assms reads_data [of t] in \<open>auto simp: curl_head has_body_def body_words_def body_fits_def words_ok_def\<close>)
    qed (use nobody Text_body in \<open>simp add: has_body_def\<close>)
  next
    case (Json_body t)
    show ?thesis
      by (rule finish [of "?data t"])
        (use Json_body assms reads_data [of t] in \<open>auto simp: curl_head has_body_def body_words_def body_fits_def words_ok_def\<close>)
  qed (use nobody in \<open>simp add: has_body_def\<close>)
qed

theorem curl_bash_is_read_back_witness:
  "\<exists>s. requestSnippetGenerator_curl_bash
       \<lparr>rqOptions = None, rqMethod = js ''POST'', rqUrl = js ''http://a/b?c=d&e'', rqHeaders = [(js ''accept'', js ''*/*'')],
        rqBody = Text_body (js ''it'' @ [39] @ js ''s; $x'')\<rparr> = Some s \<and>
     bash_words s = Some [js ''curl'', js ''-X'', js ''POST'', js ''http://a/b?c=d&e'', js ''-H'', js ''accept: */*'', js ''-d'',
       js ''it'' @ [39] @ js ''s; $x'']"
proof -
  let ?r = "\<lparr>rqOptions = None, rqMethod = js ''POST'', rqUrl = js ''http://a/b?c=d&e'', rqHeaders = [(js ''accept'', js ''*/*'')],
      rqBody = Text_body (js ''it'' @ [39] @ js ''s; $x'')\<rparr>"
  have "words_ok ?r" by (simp add: words_ok_def word_ok_def bare_def data_word_def js_def)
  moreover have "body_fits ?r" by (simp add: body_fits_def is_multipart_def js_def lower_def)
  ultimately show ?thesis
    using curl_bash_is_read_back [of ?r] by (simp add: arguments_def body_words_def js_def)
qed

section \<open>Words that are not quoted\<close>

lemma read_stops: "reads_words ws s \<Longrightarrow> (\<And>l. bash False (Some l) rest = None) \<Longrightarrow> bash False (Some w) (s @ rest) = None"
proof -
  assume "reads_words ws s" and stop: "\<And>l. bash False (Some l) rest = None"
  then have r: "bash False (Some w) (s @ rest) = (case rev ws of [] \<Rightarrow> bash False (Some w) rest
      | l # is \<Rightarrow> foldr cons_word (w # rev is) (bash False (Some l) rest))"
    unfolding reads_words_def by simp
  have "foldr cons_word us None = None" for us by (induction us) (simp_all add: cons_word_def)
  then show ?thesis using r stop by (simp add: cons_word_def split: list.split)
qed



text \<open>PowerShell, on more than one line: only the first dollar is escaped, the second starts a variable.\<close>

lemma powershell_second_dollar:
  "escapePowershell (js ''$a'' @ 10 # js ''$b'') = [64, 34, 10, 96, 36, 97, 10, 36, 98, 10, 34, 64]"
  by (simp add: escapePowershell_def data_word_def js_def replace_all_def)

end
