(* ===== verification/Ui_Plugins.thy ===== *)
theory Ui_Plugins
  imports Ui_Strings
begin

text \<open>
  How the page is put together from plugins, as it is in \<open>swagger-ui.js\<close>: \<open>combinePlugins\<close> (\<open>Z\<close> on the
  one line of code of the file), \<open>systemExtend\<close> (\<open>Q\<close>), \<open>wrapWithTryCatch\<close> (\<open>ee\<close>) and the methods
  \<open>register\<close>, \<open>getWrappedAndBoundActions\<close> and \<open>getComponents\<close> of the class \<open>G\<close>. Of a plugin the parts are
  modelled that the code treats by itself: components, wrappers of components, and the actions,
  selectors and wrappers of each state plugin. The library \<open>deep-extend\<close>, which the code calls last,
  merges objects, replaces lists and lets the later value win, as its documentation says. The
  option \<open>pluginLoadType\<close> has its default, \<open>legacy\<close>.
\<close>

section \<open>Plugins\<close>

text \<open>A wrapper is a function or a list of functions; a component is one, or a list headed by one.\<close>

datatype 'w wraps = One 'w | Many "'w list"

datatype ('c, 'w) component = Base 'c | Chain 'c "'w list"

record ('a, 'w) state_plugin =
  spActions :: "jsstr \<Rightarrow> 'a option"
  spWrapActions :: "jsstr \<Rightarrow> 'w wraps option"
  spSelectors :: "jsstr \<Rightarrow> 'a option"
  spWrapSelectors :: "jsstr \<Rightarrow> 'w wraps option"

record ('c, 'cw, 'a, 'w) system =
  syComponents :: "jsstr \<Rightarrow> ('c, 'cw) component option"
  syWrapComponents :: "jsstr \<Rightarrow> 'cw option"
  syStatePlugins :: "jsstr \<Rightarrow> ('a, 'w) state_plugin option"

definition empty_system :: "('c, 'cw, 'a, 'w) system" where
  "empty_system = \<lparr>syComponents = Map.empty, syWrapComponents = Map.empty, syStatePlugins = Map.empty\<rparr>"

text \<open>What is registered: an object, a function of the system that returns a plugin, or a list.\<close>

datatype ('c, 'cw, 'a, 'w, 's) plugin =
    Object "('c, 'cw, 'a, 'w) system"
  | Function "'s \<Rightarrow> ('c, 'cw, 'a, 'w, 's) plugin"
  | Plugins "('c, 'cw, 'a, 'w, 's) plugin list"

section \<open>Merging two plugins\<close>

fun as_list :: "'w wraps option \<Rightarrow> 'w list" where
  "as_list None = []"
| "as_list (Some (One w)) = [w]"
| "as_list (Some (Many ws)) = ws"

definition wrap_component :: "('c, 'cw) component \<Rightarrow> 'cw \<Rightarrow> ('c, 'cw) component" where
  "wrap_component c w = (case c of Base b \<Rightarrow> Chain b [w] | Chain b ws \<Rightarrow> Chain b (ws @ [w]))"

text \<open>The components of the target after the wrappers of the source, and the wrappers that stay.\<close>

definition apply_wrappers :: "(jsstr \<Rightarrow> ('c, 'cw) component option) \<Rightarrow> (jsstr \<Rightarrow> 'cw option) \<Rightarrow>
    (jsstr \<Rightarrow> ('c, 'cw) component option) \<times> (jsstr \<Rightarrow> 'cw option)" where
  "apply_wrappers components wraps =
     ((\<lambda>k. case (components k, wraps k) of (Some c, Some w) \<Rightarrow> Some (wrap_component c w) | (c, _) \<Rightarrow> c),
      (\<lambda>k. if components k \<noteq> None then None else wraps k))"

text \<open>The wrappers of one name: the target's become a list, the source's are put after them.\<close>

definition listed :: "'w wraps option \<Rightarrow> 'w wraps option" where
  "listed d = map_option (\<lambda>_. Many (as_list d)) d"

definition queue_wraps :: "'w wraps option \<Rightarrow> 'w wraps option \<Rightarrow> 'w wraps option" where
  "queue_wraps d s = (case (d, s) of (Some _, Some _) \<Rightarrow> Some (Many (as_list d @ as_list s)) | _ \<Rightarrow> s)"

text \<open>The later value wins.\<close>

definition override :: "('k \<Rightarrow> 'v option) \<Rightarrow> ('k \<Rightarrow> 'v option) \<Rightarrow> 'k \<Rightarrow> 'v option" where
  "override d s k = (case s k of None \<Rightarrow> d k | Some v \<Rightarrow> Some v)"

definition extend_state :: "('a, 'w) state_plugin \<Rightarrow> ('a, 'w) state_plugin \<Rightarrow> ('a, 'w) state_plugin" where
  "extend_state d s =
     \<lparr>spActions = override (spActions d) (spActions s),
      spWrapActions = override (\<lambda>k. listed (spWrapActions d k)) (\<lambda>k. queue_wraps (spWrapActions d k) (spWrapActions s k)),
      spSelectors = override (spSelectors d) (spSelectors s),
      spWrapSelectors = override (\<lambda>k. listed (spWrapSelectors d k)) (\<lambda>k. queue_wraps (spWrapSelectors d k) (spWrapSelectors s k))\<rparr>"

definition list_wraps :: "('a, 'w) state_plugin \<Rightarrow> ('a, 'w) state_plugin" where
  "list_wraps d = d\<lparr>spWrapActions := \<lambda>k. listed (spWrapActions d k), spWrapSelectors := \<lambda>k. listed (spWrapSelectors d k)\<rparr>"

definition systemExtend :: "('c, 'cw, 'a, 'w) system \<Rightarrow> ('c, 'cw, 'a, 'w) system \<Rightarrow> ('c, 'cw, 'a, 'w) system" where
  "systemExtend dest src =
     (let (components, wraps) = apply_wrappers (syComponents dest) (syWrapComponents src) in
      \<lparr>syComponents = override components (syComponents src),
       syWrapComponents = override (syWrapComponents dest) wraps,
       syStatePlugins = (\<lambda>ns. case (syStatePlugins dest ns, syStatePlugins src ns) of
          (Some d, Some s) \<Rightarrow> Some (extend_state d s)
        | (Some d, None) \<Rightarrow> Some (list_wraps d)
        | (None, s) \<Rightarrow> s)\<rparr>)"

section \<open>Registering\<close>

text \<open>Functions of plugins are called with the system \<open>toolbox\<close>.\<close>

primrec combinePlugins :: "'s \<Rightarrow> ('c, 'cw, 'a, 'w, 's) plugin \<Rightarrow> ('c, 'cw, 'a, 'w) system" where
  "combinePlugins toolbox (Object p) = p"
| "combinePlugins toolbox (Function f) = combinePlugins toolbox (f toolbox)"
| "combinePlugins toolbox (Plugins ps) = foldl systemExtend empty_system (map (combinePlugins toolbox) ps)"

definition register :: "'s \<Rightarrow> ('c, 'cw, 'a, 'w) system \<Rightarrow> ('c, 'cw, 'a, 'w, 's) plugin \<Rightarrow> ('c, 'cw, 'a, 'w) system" where
  "register toolbox system plugins = systemExtend system (combinePlugins toolbox plugins)"

section \<open>Actions and components as they are called\<close>

text \<open>
  A function returns a value or throws (\<open>None\<close>); a thrown error is logged and becomes the value
  \<open>null\<close>. A wrapper gets the function it wraps.
\<close>

type_synonym ('x, 'y) func = "'x \<Rightarrow> 'y option"

definition wrapWithTryCatch :: "'y \<Rightarrow> ('x, 'y) func \<Rightarrow> ('x, 'y) func" where
  "wrapWithTryCatch null f = (\<lambda>x. case f x of None \<Rightarrow> Some null | r \<Rightarrow> r)"

definition getWrappedAction :: "'y \<Rightarrow> ('c, 'cw, 'a, ('x, 'y) func \<Rightarrow> ('x, 'y) func) system \<Rightarrow> jsstr \<Rightarrow> jsstr \<Rightarrow> ('x, 'y) func \<Rightarrow> ('x, 'y) func" where
  "getWrappedAction null system ns name action =
     (case syStatePlugins system ns of None \<Rightarrow> action
      | Some p \<Rightarrow> (case spWrapActions p name of None \<Rightarrow> action
          | w \<Rightarrow> foldl (\<lambda>acc wrap. wrapWithTryCatch null (wrap acc)) action (as_list w)))"

definition getComponent :: "('c, 'c \<Rightarrow> 'c, 'a, 'w) system \<Rightarrow> jsstr \<Rightarrow> 'c option" where
  "getComponent system name =
     (case syComponents system name of None \<Rightarrow> None
      | Some (Base c) \<Rightarrow> Some c
      | Some (Chain c ws) \<Rightarrow> Some (foldl (\<lambda>acc w. w acc) c ws))"

section \<open>The order of wrappers\<close>

definition wrappers :: "('c, 'cw, 'a, 'w) system \<Rightarrow> jsstr \<Rightarrow> jsstr \<Rightarrow> 'w list" where
  "wrappers s ns name = (case syStatePlugins s ns of None \<Rightarrow> [] | Some p \<Rightarrow> as_list (spWrapActions p name))"

text \<open>What a plugin wraps an action with, in the order in which it lists its parts.\<close>

primrec wrapped_by :: "'s \<Rightarrow> jsstr \<Rightarrow> jsstr \<Rightarrow> ('c, 'cw, 'a, 'w, 's) plugin \<Rightarrow> 'w list" where
  "wrapped_by toolbox ns name (Object p) = wrappers p ns name"
| "wrapped_by toolbox ns name (Function f) = wrapped_by toolbox ns name (f toolbox)"
| "wrapped_by toolbox ns name (Plugins ps) = concat (map (wrapped_by toolbox ns name) ps)"

lemma as_list_queue: "as_list (override (\<lambda>k. listed (d k)) (\<lambda>k. queue_wraps (d k) (s k)) k) = as_list (d k) @ as_list (s k)"
  by (cases "d k"; cases "s k") (auto simp: override_def listed_def queue_wraps_def)

lemma as_list_listed: "as_list (listed d) = as_list d"
  by (cases d) (auto simp: listed_def)

lemma wrappers_extend: "wrappers (systemExtend d s) ns name = wrappers d ns name @ wrappers s ns name"
  by (auto simp: wrappers_def systemExtend_def Let_def split_def extend_state_def list_wraps_def as_list_queue as_list_listed
      split: option.splits)

lemma wrappers_foldl: "wrappers (foldl systemExtend d ss) ns name = wrappers d ns name @ concat (map (\<lambda>s. wrappers s ns name) ss)"
  by (induction ss arbitrary: d) (simp_all add: wrappers_extend)

lemma wrappers_empty [simp]: "wrappers empty_system ns name = []"
  by (simp add: wrappers_def empty_system_def)

lemma wrappers_combine: "wrappers (combinePlugins toolbox p) ns name = wrapped_by toolbox ns name p"
proof (induction p)
  case (Plugins ps)
  have "map (\<lambda>p. wrappers (combinePlugins toolbox p) ns name) ps = map (wrapped_by toolbox ns name) ps"
    using Plugins by simp
  then show ?case by (simp add: wrappers_foldl comp_def cong: map_cong)
qed simp_all

lemma wrapped_action: "getWrappedAction null s ns name action = foldl (\<lambda>acc wrap. wrapWithTryCatch null (wrap acc)) action (wrappers s ns name)"
  by (auto simp: getWrappedAction_def wrappers_def split: option.splits)

text \<open>
  C30: however plugins are grouped into lists, nested, and registered at once or one after another,
  an action is called through every wrapper that any of them gives for it, exactly in the order of
  registration: each wrapper gets the action wrapped by the ones before it, and an error that a
  wrapper throws ends in it.
\<close>

theorem wrappers_apply_in_order:
  "getWrappedAction null (foldl (register toolbox) empty_system plugins) ns name action =
    foldl (\<lambda>acc wrap. wrapWithTryCatch null (wrap acc)) action (concat (map (wrapped_by toolbox ns name) plugins))"
proof -
  have "wrappers (foldl (register toolbox) s plugins) ns name = wrappers s ns name @ concat (map (wrapped_by toolbox ns name) plugins)" for s
    by (induction plugins arbitrary: s) (simp_all add: register_def wrappers_extend wrappers_combine)
  from this [of empty_system] show ?thesis by (simp add: wrapped_action)
qed

section \<open>Wrappers of components\<close>

definition wrapping :: "jsstr \<Rightarrow> 'cw \<Rightarrow> ('c, 'cw, 'a, 'w, 's) plugin" where
  "wrapping name w = Object (empty_system\<lparr>syWrapComponents := [name \<mapsto> w]\<rparr>)"

text \<open>
  C40: wrappers of components are not treated like those of actions. Of two plugins that wrap the same
  component of the system, registered one after another, both take effect, the later one outermost;
  registered in one list, only the later one does: the wrapper of the first is lost.
\<close>

theorem component_wrapper_lost:
  assumes "syComponents system name = Some (Base c)"
  shows "getComponent (register toolbox (register toolbox system (wrapping name w1)) (wrapping name w2)) name = Some (w2 (w1 c)) \<and>
    getComponent (register toolbox system (Plugins [wrapping name w1, wrapping name w2])) name = Some (w2 c)"
  using assms
  by (simp add: getComponent_def register_def systemExtend_def apply_wrappers_def wrapping_def empty_system_def
      override_def wrap_component_def)

theorem component_wrapper_lost_witness:
  "getComponent (register () (empty_system\<lparr>syComponents := [js ''Info'' \<mapsto> Base ''i'']\<rparr> :: (string, string \<Rightarrow> string, unit, unit) system)
     (Plugins [wrapping (js ''Info'') (\<lambda>s. ''<'' @ s), wrapping (js ''Info'') (\<lambda>s. s @ ''>'')])) (js ''Info'') = Some ''i>''"
proof -
  have "syComponents (empty_system\<lparr>syComponents := [js ''Info'' \<mapsto> Base ''i'']\<rparr> :: (string, string \<Rightarrow> string, unit, unit) system)
      (js ''Info'') = Some (Base ''i'')"
    by simp
  from component_wrapper_lost [OF this, of "()" "\<lambda>s. ''<'' @ s" "\<lambda>s. s @ ''>''"] show ?thesis by simp
qed

end
