(* ===== verification/Spec2Isabelle.thy ===== *)
theory Spec2Isabelle
  imports App_Ante Gov_Import Gov_Progress Gov_Keys
    Ui_Search Ui_Modules Ui_References Ui_Deep_Link Ui_Objects
    Ui_Sanitize Ui_Json_Patch Ui_Serialize Ui_Curl Ui_Plugins
begin

text \<open>
  The Hikari chain, a Cosmos SDK application in Go (\<open>x/\<close>, \<open>ante/\<close>, \<open>post/\<close>), and the Swagger UI it
  serves as five prebuilt JavaScript bundles (\<open>client/docs/swagger-ui/\<close>).

  \<^bold>\<open>The parts and how they interact.\<close> A transaction passes the ante handler: votes must come from
  accounts with stake, the fee must be in an accepted denomination (photon, or the bond token for a
  few messages) and cover the minimum gas price of the fee market, and is moved to the fee
  collector. Its messages go to the handlers of the modules. The post handler adds its gas to the
  current block of the fee market. At the end of a block the fee market moves the gas price and the
  learning rate, and governance processes its queues: deposit periods that ended, quorum checks that
  are due, votes that ended. A passed proposal executes its messages as the governance account, so
  that parameters of every module, and governance itself, are reached from there. Two core DAOs edit
  proposals under vote through the governance keeper.

  \<^bold>\<open>Theories and code.\<close> Definitions carry the names of the Go and JavaScript functions, with a prefix
  (\<open>gov_\<close>, \<open>dao_\<close>, \<open>msg_\<close>, \<open>legacy_\<close>) where packages share a name.

  \<^item> \<open>Prelude\<close>: the result type (\<open>Ok\<close>, \<open>Err\<close>, \<open>Panic\<close>), Go integers, times and durations with their
    wrap-around and saturation, the ordered key-value store, and the automation for all of them.
  \<^item> \<open>Sdk\<close>, \<open>Sdk_Instance\<close>: decimals, coins, addresses and the bank of the SDK as records of functions
    with the laws that are used (\<open>dec_laws\<close>, \<open>coins_laws\<close>, \<open>addr_laws\<close>, \<open>bank_laws\<close>), and concrete
    records that satisfy them (\<open>std_dec\<close>, \<open>std_coins\<close>, \<open>std_addr\<close>, \<open>std_bank\<close>).
  \<^item> \<open>Dynamicfee_State\<close>: \<open>x/dynamicfee/types\<close>, the parameters, the window of block gas, the updates of
    gas price and learning rate with their recovered panics. \<open>Dynamicfee_Keeper\<close>: \<open>keeper/\<close>, the
    store, end blocker, parameter update, genesis, denomination resolvers. \<open>Dynamicfee_Ante\<close>:
    \<open>ante/fee.go\<close> and \<open>post/post.go\<close>.
  \<^item> \<open>Photon\<close>: \<open>x/photon\<close>, minting against the bond token, the fee denominations, the resolver.
  \<^item> \<open>Unified_Diff\<close>: \<open>x/gov/types/unified_diff.go\<close>, the patches of the constitution.
  \<^item> \<open>Gov_Params\<close>, \<open>Gov_Types\<close>: \<open>x/gov/types/v1\<close>. \<open>Gov_Keeper\<close>, \<open>Gov_Proposal\<close>, \<open>Gov_Vote\<close>: \<open>keeper/\<close>,
    the store (\<open>gov_store\<close>: proposals, deposits, votes, three queues, counters, averages), deposits,
    proposals, votes and the tally. \<open>Gov_Msg_Server\<close>: \<open>keeper/msg_server.go\<close> with the legacy server
    and the routing of messages. \<open>Gov_EndBlock\<close>: \<open>abci.go\<close>. \<open>Gov_Genesis\<close>: \<open>genesis.go\<close> and
    \<open>keeper/invariants.go\<close>. \<open>Gov_Keys\<close>: \<open>types/keys.go\<close> and the iterators, the same stores as parts of
    one byte store. A state is a \<open>world\<close>: the store and \<open>wExt\<close>, the rest of the application.
  \<^item> \<open>Gov_Invariant\<close>, \<open>Gov_Frames\<close>, \<open>Gov_Steps\<close>, \<open>Gov_Chain\<close>: what every operation keeps, up to the
    end blocker. \<open>Gov_Instance\<close>, \<open>Gov_Example\<close>: a concrete chain and one of its blocks, worked out.
  \<^item> \<open>Coredaos\<close>: \<open>x/coredaos\<close>. A state is a \<open>chain\<close>: the parameters of the DAOs and a \<open>world\<close>.
  \<^item> \<open>Gov_Safety\<close>, \<open>Gov_Escrow\<close>, \<open>Gov_Solvency\<close>, \<open>Gov_Quorum\<close>, \<open>Gov_Progress\<close>, \<open>Gov_Import\<close>: what
    governance and the DAOs promise over time.
  \<^item> \<open>App_Ante\<close>: \<open>ante/gov_vote_ante.go\<close>, \<open>ante/ante.go\<close>, \<open>post/post.go\<close>, the chains of decorators.
  \<^item> \<open>Ui_Strings\<close>: strings as lists of code points, UTF-8 and percent encoding, for the bundles.
    Each bundle is one line of minified code; a definition names the functions of the line it
    translates. \<open>swagger-ui-standalone-preset.js\<close>: \<open>Ui_Search\<close> (query string and selection of the
    top bar), \<open>Ui_Sanitize\<close> (\<open>sanitizeUrl\<close>). \<open>swagger-ui-bundle.js\<close>: \<open>Ui_Modules\<close> (module loader),
    \<open>Ui_Serialize\<close> (parameters of a request, from the style encoder to \<open>mergeInQuery\<close>).
    \<open>swagger-ui-es-bundle-core.js\<close>: \<open>Ui_References\<close> (JSON pointers, circular references), \<open>Ui_Curl\<close>
    (\<open>curlify\<close> and its escapes for three shells). \<open>swagger-ui.js\<close>: \<open>Ui_Deep_Link\<close> (shown state and
    deep links), \<open>Ui_Plugins\<close> (\<open>systemExtend\<close>, \<open>combinePlugins\<close> and the wrapped actions and
    components). \<open>swagger-ui-es-bundle.js\<close>: \<open>Ui_Objects\<close> (\<open>deeplyStripKey\<close>, code verifier),
    \<open>Ui_Json_Patch\<close> (\<open>applyOperation\<close>, \<open>applyPatch\<close>, \<open>compare\<close>).

  \<^bold>\<open>What the lemmas show.\<close>

  \<^item> Fee market: from validated parameters the window, the price floor and the bounds of the learning
    rate hold in every reachable store and the end blocker never fails; the direction of the price;
    which fees are accepted; a zero window, which an update accepts, halts the chain.
  \<^item> Photon: the maximum supply; which fees pass; a division by zero once the maximum is reached.
  \<^item> Constitution: applying a diff agrees with a relational specification of patches; parsing a
    printed diff gives it back.
  \<^item> Governance over time (\<open>Gov_Safety\<close>): queues, flags, counters and quorum checks agree with the
    proposals in every reachable state; a block settles what is due; decisions are final.
  \<^item> Money (\<open>Gov_Escrow\<close>, \<open>Gov_Solvency\<close>): the governance account holds at least the recorded
    deposits in every reachable state, so that refunds and burns never panic, and what they pay.
  \<^item> Progress (\<open>Gov_Progress\<close>): with the votes counted, the end of a vote returns whatever the
    messages of the proposal do.
  \<^item> Quorum (\<open>Gov_Quorum\<close>): the quick check agrees with the tally, and the quorums stay in their
    ranges while the participation averages move.
  \<^item> Store keys (\<open>Gov_Keys\<close>): the byte keys are ordered like the pairs the model uses, so that the byte
    store refines the separate stores, iterators included.
  \<^item> Core DAOs: a message refines an abstract change of one proposal; DAOs do not stake; a veto leaves
    a pending quorum check that can undo it.
  \<^item> Genesis: well-formed without proposals; with a proposal in its deposit period, the imported chain
    halts at the end of that period (\<open>Gov_Import\<close>).
  \<^item> Ante handler: what an accepted transaction was checked for; which voters have the stake.
  \<^item> Swagger UI, state: module loading terminates with each module started once; circular references
    are found exactly; query strings and deep links are read back; keys are stripped exactly; the
    wrappers of actions apply in the order of registration, while those of components depend on the
    grouping of plugins.
  \<^item> Swagger UI, requests: a server reads from the query what was entered; a parameter of the path
    keeps the structure of the address; bash reads the generated command as the request, against a
    definition of its quoting (\<open>bash_words\<close>), except for words that are left without quotes; a
    sanitized address has no script scheme, against the scheme of the URL standard (\<open>url_scheme\<close>).
  \<^item> JSON documents: the patch computed from two documents turns the first into the second, in both
    forms; replacing the value at a pointer changes that value only.

  \<^bold>\<open>Interfaces.\<close> Four locales state contracts between components of the model, and each is interpreted
  on the definitions of the component that provides it: \<open>ordered_store\<close> (the key-value store, for the
  keepers), \<open>denom_resolver\<close> (what the fee market asks of a resolver: the test resolver, the error
  resolver, photon), \<open>proposal_store\<close> (what the DAOs ask of the governance keeper),
  \<open>key_encoding\<close> (what the byte store asks of the keys: queues, entries below a proposal, proposals). Code that is not
  in the repository is a record of functions given as an argument, its documented behaviour a named
  predicate among the hypotheses, and every such hypothesis is met by the concrete chain.

  \<^bold>\<open>Bounds and fuel.\<close> Integers are 64-bit words or integers with their wrap-around written out, decimals
  integers scaled by \<open>10 ^ 18\<close>. Over time, block times are within the \<open>int64\<close> of nanoseconds, there
  are ids left for the proposals that messages may submit (\<open>room\<close>, \<open>spare\<close>), and the number of quorum
  checks is below \<open>2 ^ 63\<close> (\<open>sane_params\<close>), which the code does not check. A veto is a step of the
  chain when no quorum check of its proposal is pending (\<open>no_check_pending\<close>): otherwise the invariant
  fails, as \<open>veto_undone_by_quorum_check\<close> shows. The account of the module stays funded when no
  hook and no handler of another module takes coins from it (\<open>escrow_env\<close>) and no message makes the
  account itself a depositor (\<open>escrow_msg\<close>), as \<open>self_deposit_is_unfunded\<close> shows. The only fuel is
  that of \<open>webpack_require\<close>, the depth of calls; more than the number of modules is enough.
  The loops of the vote check stop after a hundred delegations as in the code.

  \<^bold>\<open>Abstractions.\<close> A store iterator is the list of the entries that were due when it was made. Store
  keys are ordered pairs, which \<open>Gov_Keys\<close> relates to the bytes. Events, logs, gas and the text of most errors are not
  represented. A handler of another module and a hook act on \<open>wExt\<close> only.

  \<^bold>\<open>Not modelled.\<close> Queries and their pagination; migrations and upgrade handlers; the \<open>v1beta1\<close> types
  (the legacy handlers convert from them); \<open>GenerateUnifiedDiff\<close>, which calls a third-party
  library; the construction of the application, command line, clients and generated code. Of the
  bundles: rendering, and most of the libraries they contain; the rest of a line is not the project's
  own code or has no behaviour outside a browser. Of the modelled parts: the validation of patches
  before they are applied, and a move of the whole document into itself; multipart encoding; the
  library \<open>qs\<close>, whose reading of a query that is already in the address is the argument \<open>kept\<close> of
  \<open>mergeInQuery\<close>; the plugin loading mode \<open>chain\<close>.
\<close>

end
